(* ===== verification/Xm_Prelude.thy ===== *)
theory Xm_Prelude
  imports Complex_Main "HOL-Library.Word" "HOL-Library.Monad_Syntax" "HOL-Library.Multiset"
begin

text \<open>
  Shared vocabulary of the development: the widths of the machine integers the sources use
  (\<open>intptr_t\<close>, \<open>size_t\<close> on a 64-bit target), the errors a routine can raise, results of
  fallible routines, and the generic facts on lists, array segments and wrap-around indices that
  the component theories share.  Collections: \<open>xm_array\<close> holds the pointwise facts about array
  updates and block moves, \<open>xm_result\<close> the rules that evaluate fallible computations.
\<close>

named_theorems xm_array "pointwise facts about arrays, segments and block moves"
named_theorems xm_result "evaluation of fallible computations"

section \<open>Machine integers\<close>

text \<open>\<open>intptr_t\<close> and \<open>size_t\<close> are 64 bits wide; one word type carries both, read with
  \<^term>\<open>sint\<close> or \<^term>\<open>unat\<close>.\<close>

type_synonym i64 = "64 word"

lemma sint_eq_uint_nonneg: "0 \<le> sint (w :: 'a::len word) \<Longrightarrow> sint w = uint w"
proof -
  assume nn: "0 \<le> sint w"
  have "sint w < 2 ^ (LENGTH('a) - 1)" by (rule sint_lt)
  also have "\<dots> \<le> 2 ^ LENGTH('a)" by (rule power_increasing) simp_all
  finally show ?thesis
    using nn by (simp add: uint_sint take_bit_eq_mod)
qed

section \<open>Errors and results\<close>

text \<open>
  \<open>Thrown m\<close> is \<open>f_throw(m)\<close> (src/src/throwable.cc); \<open>Type_error a\<close> is
  \<open>f_throw_type_error\<close> for the argument called \<open>a\<close>, whose message ends in the implementation's
  name of a C++ type.  \<open>Undefined m\<close> marks a
  step that C++ leaves undefined (a division by zero, an index outside an array): the sources have
  no guard there.
\<close>

datatype xerror = Thrown string | Type_error string | Undefined string

type_synonym 'a result = "xerror + 'a"

definition f_throw_not_supported :: "'a result" where
  "f_throw_not_supported = Inl (Thrown ''not supported.'')"

definition f_throw_out_of_range :: "'a result" where
  "f_throw_out_of_range = Inl (Thrown ''out of range.'')"

definition bind_result :: "'a result \<Rightarrow> ('a \<Rightarrow> 'b result) \<Rightarrow> 'b result" where
  "bind_result r f = (case r of Inl e \<Rightarrow> Inl e | Inr x \<Rightarrow> f x)"

lemma bind_result_simps [simp, xm_result]:
  "bind_result (Inl e) f = Inl e"
  "bind_result (Inr x) f = f x"
  by (simp_all add: bind_result_def)

lemma bind_result_Inr_iff [xm_result]:
  "bind_result r f = Inr y \<longleftrightarrow> (\<exists>x. r = Inr x \<and> f x = Inr y)"
  by (cases r) auto

lemma bind_result_assoc: "bind_result (bind_result r f) g = bind_result r (\<lambda>x. bind_result (f x) g)"
  by (cases r) auto

section \<open>Wrap-around indices\<close>

text \<open>An offset past the end of a ring of \<open>n\<close> cells continues at its start.\<close>

definition wrap :: "nat \<Rightarrow> nat \<Rightarrow> nat" where
  "wrap n k = (if k < n then k else k - n)"

lemma wrap_less: "k < 2 * n \<Longrightarrow> wrap n k < n"
  by (auto simp: wrap_def)

lemma wrap_inj: "wrap n (h + i) = wrap n (h + j) \<Longrightarrow> i < n \<Longrightarrow> j < n \<Longrightarrow> h < n \<Longrightarrow> i = j"
  by (auto simp: wrap_def split: if_splits)

section \<open>Lists as arrays\<close>

lemma nth_list_update_if [xm_array]:
  "i < length xs \<Longrightarrow> (xs[i := x]) ! j = (if j = i then x else xs ! j)"
  by auto

lemma nth_take_drop_insert:
  assumes "k \<le> length xs" "i \<le> length xs"
  shows "(take k xs @ x # drop k xs) ! i = (if i < k then xs ! i else if i = k then x else xs ! (i - 1))"
  using assms by (auto simp: nth_append nth_Cons' min_def)

lemma nth_take_drop_remove:
  assumes "k < length xs" "i < length xs - 1"
  shows "(take k xs @ drop (Suc k) xs) ! i = (if i < k then xs ! i else xs ! (i + 1))"
  using assms by (auto simp: nth_append min_def)

end
