(* ===== verification/Xm_Float.thy ===== *)
theory Xm_Float
  imports Xm_Prelude "HOL-Library.Log_Nat"
begin

text \<open>
  The C++ type \<open>double\<close> as the sources use it: IEEE 754 binary64 with rounding to nearest,
  ties to even.  A finite number is its sign and its magnitude as a rational, so that \<open>-0\<close> and
  \<open>0\<close> are distinct; every arithmetic operation computes the exact rational and rounds once.
  The lemmas show that integers of at most 53 bits are represented exactly, which is what the
  clients (constant folding, the calendar routines) rely on.
\<close>

datatype float64 = F_nan | F_inf bool | F_fin bool rat

definition pow2 :: "int \<Rightarrow> rat" where
  "pow2 e = (if 0 \<le> e then 2 ^ nat e else 1 / 2 ^ nat (- e))"

text \<open>The exponent \<open>k\<close> with \<open>2\<^sup>k \<le> q < 2\<^sup>k\<^sup>+\<^sup>1\<close> of a positive rational.\<close>

definition rat_exponent :: "rat \<Rightarrow> int" where
  "rat_exponent q =
     (case quotient_of q of (a, b) \<Rightarrow>
       let k = int (floorlog 2 (nat a)) - int (floorlog 2 (nat b))
       in if q < pow2 k then k - 1 else k)"

definition round_half_even :: "rat \<Rightarrow> int" where
  "round_half_even q =
     (let f = \<lfloor>q\<rfloor>; d = q - of_int f
      in if d < 1 / 2 then f else if d > 1 / 2 then f + 1 else if even f then f else f + 1)"

text \<open>Rounding of a magnitude: the unit in the last place is \<open>2\<^sup>k\<^sup>-\<^sup>5\<^sup>2\<close>, at least \<open>2\<^sup>-\<^sup>1\<^sup>0\<^sup>7\<^sup>4\<close>
  (subnormal numbers); a result of \<open>2\<^sup>1\<^sup>0\<^sup>2\<^sup>4\<close> or more is an infinity.\<close>

definition f64_round :: "bool \<Rightarrow> rat \<Rightarrow> float64" where
  "f64_round s q =
     (if q = 0 then F_fin s 0
      else let u = max (rat_exponent q - 52) (- 1074);
               r = of_int (round_half_even (q / pow2 u)) * pow2 u
           in if r < pow2 1024 then F_fin s r else F_inf s)"

definition f64_of_int :: "int \<Rightarrow> float64" where
  "f64_of_int n = f64_round (n < 0) (of_int \<bar>n\<bar>)"

definition f64_of_rat :: "rat \<Rightarrow> float64" where
  "f64_of_rat q = f64_round (q < 0) \<bar>q\<bar>"

fun f64_neg :: "float64 \<Rightarrow> float64" where
  "f64_neg F_nan = F_nan"
| "f64_neg (F_inf s) = F_inf (\<not> s)"
| "f64_neg (F_fin s q) = F_fin (\<not> s) q"

definition signed :: "bool \<Rightarrow> rat \<Rightarrow> rat" where
  "signed s q = (if s then - q else q)"

fun f64_add :: "float64 \<Rightarrow> float64 \<Rightarrow> float64" where
  "f64_add F_nan _ = F_nan"
| "f64_add _ F_nan = F_nan"
| "f64_add (F_inf s) (F_inf t) = (if s = t then F_inf s else F_nan)"
| "f64_add (F_inf s) (F_fin _ _) = F_inf s"
| "f64_add (F_fin _ _) (F_inf t) = F_inf t"
| "f64_add (F_fin s p) (F_fin t q) =
     (let r = signed s p + signed t q
      in if r = 0 then F_fin (s \<and> t) 0 else f64_round (r < 0) \<bar>r\<bar>)"

definition f64_sub :: "float64 \<Rightarrow> float64 \<Rightarrow> float64" where
  "f64_sub x y = f64_add x (f64_neg y)"

fun f64_mul :: "float64 \<Rightarrow> float64 \<Rightarrow> float64" where
  "f64_mul F_nan _ = F_nan"
| "f64_mul _ F_nan = F_nan"
| "f64_mul (F_inf s) (F_inf t) = F_inf (s \<noteq> t)"
| "f64_mul (F_inf s) (F_fin t q) = (if q = 0 then F_nan else F_inf (s \<noteq> t))"
| "f64_mul (F_fin s p) (F_inf t) = (if p = 0 then F_nan else F_inf (s \<noteq> t))"
| "f64_mul (F_fin s p) (F_fin t q) = f64_round (s \<noteq> t) (p * q)"

fun f64_div :: "float64 \<Rightarrow> float64 \<Rightarrow> float64" where
  "f64_div F_nan _ = F_nan"
| "f64_div _ F_nan = F_nan"
| "f64_div (F_inf _) (F_inf _) = F_nan"
| "f64_div (F_inf s) (F_fin t _) = F_inf (s \<noteq> t)"
| "f64_div (F_fin s _) (F_inf t) = F_fin (s \<noteq> t) 0"
| "f64_div (F_fin s p) (F_fin t q) =
     (if q = 0 then (if p = 0 then F_nan else F_inf (s \<noteq> t)) else f64_round (s \<noteq> t) (p / q))"

text \<open>Ordering and equality: every comparison with a NaN is false, and \<open>-0 == 0\<close>.\<close>

fun f64_less :: "float64 \<Rightarrow> float64 \<Rightarrow> bool" where
  "f64_less F_nan _ = False"
| "f64_less _ F_nan = False"
| "f64_less (F_inf s) (F_inf t) = (s \<and> \<not> t)"
| "f64_less (F_inf s) (F_fin _ _) = s"
| "f64_less (F_fin _ _) (F_inf t) = (\<not> t)"
| "f64_less (F_fin s p) (F_fin t q) = (signed s p < signed t q)"

fun f64_eq :: "float64 \<Rightarrow> float64 \<Rightarrow> bool" where
  "f64_eq F_nan _ = False"
| "f64_eq _ F_nan = False"
| "f64_eq (F_inf s) (F_inf t) = (s = t)"
| "f64_eq (F_inf _) (F_fin _ _) = False"
| "f64_eq (F_fin _ _) (F_inf _) = False"
| "f64_eq (F_fin s p) (F_fin t q) = (signed s p = signed t q)"

definition f64_less_equal :: "float64 \<Rightarrow> float64 \<Rightarrow> bool" where
  "f64_less_equal x y \<longleftrightarrow> f64_less x y \<or> f64_eq x y"

text \<open>Conversion to \<open>intptr_t\<close> truncates towards zero; it is undefined outside the range of the
  type.\<close>

fun f64_to_int :: "float64 \<Rightarrow> int result" where
  "f64_to_int (F_fin s q) =
     (let n = (if s then - \<lfloor>q\<rfloor> else \<lfloor>q\<rfloor>)
      in if - (2 ^ 63) \<le> n \<and> n < 2 ^ 63 then Inr n else Inl (Undefined ''float to integer''))"
| "f64_to_int _ = Inl (Undefined ''float to integer'')"

fun f64_floor :: "float64 \<Rightarrow> float64" where
  "f64_floor (F_fin s q) =
     (let n = \<lfloor>signed s q\<rfloor> in F_fin s \<bar>of_int n\<bar>)"
| "f64_floor x = x"

section \<open>Exactness on small integers\<close>

lemma pow2_pos [simp]: "0 < pow2 e"
  by (simp add: pow2_def)

lemma round_half_even_of_int [simp]: "round_half_even (of_int n) = n"
  by (simp add: round_half_even_def)

lemma rat_exponent_of_int:
  assumes "0 < n"
  shows "rat_exponent (of_int n) = int (floorlog 2 (nat n)) - 1"
proof -
  have b: "nat n < 2 ^ floorlog 2 (nat n)"
    using assms floorlog_bounds[of "nat n" 2] by simp
  have fl1: "floorlog 2 1 = 1"
    by (simp add: floorlog_def)
  have l: "floorlog 2 (nat n) \<ge> 1"
    using assms by (simp add: floorlog_def)
  have bi: "n < 2 ^ floorlog 2 (nat n)"
    using b assms by (metis nat_less_iff of_nat_numeral of_nat_power order_less_imp_le zless_nat_eq_int_zless)
  have "pow2 (int (floorlog 2 (nat n)) - 1) \<le> of_int n"
  proof -
    have "2 ^ (floorlog 2 (nat n) - 1) \<le> nat n"
      using assms floorlog_bounds[of "nat n" 2] by simp
    then have "(2 :: int) ^ (floorlog 2 (nat n) - 1) \<le> n"
      using assms by (metis le_nat_iff of_nat_numeral of_nat_power order_less_imp_le)
    then have "(of_int (2 ^ (floorlog 2 (nat n) - 1)) :: rat) \<le> of_int n"
      by (simp only: of_int_le_iff)
    then show ?thesis
      using l by (simp add: pow2_def nat_diff_distrib')
  qed
  moreover have q: "quotient_of (of_int n) = (n, 1)"
    by (simp add: of_int_rat quotient_of_Fract)
  ultimately show ?thesis
    using l fl1 by (simp add: rat_exponent_def q Let_def)
qed

lemma f64_round_of_int:
  assumes "0 \<le> n" "n < 2 ^ 53"
  shows "f64_round s (of_int n) = F_fin s (of_int n)"
proof (cases "n = 0")
  case True
  then show ?thesis by (simp add: f64_round_def)
next
  case False
  with assms have n: "0 < n" by simp
  define k where "k = floorlog 2 (nat n)"
  have "2 ^ (k - 1) \<le> nat n" "nat n < 2 ^ k"
    using n floorlog_bounds[of "nat n" 2] unfolding k_def by simp_all
  moreover have "nat n < 2 ^ 53"
    using assms by (simp add: nat_less_iff)
  ultimately have "2 ^ (k - 1) < (2 :: nat) ^ 53"
    by linarith
  then have "k - 1 < 53"
    by (rule power_less_imp_less_exp[rotated]) simp
  then have k: "1 \<le> k" "k \<le> 53"
    using n by (auto simp: k_def floorlog_def)
  define u where "u = max (rat_exponent (of_int n) - 52) (- 1074)"
  have u: "u = int k - 53"
    using k by (simp add: u_def rat_exponent_of_int[OF n] k_def)
  have d: "of_int n / pow2 u = of_int (n * 2 ^ (53 - k))"
    using k by (auto simp: u pow2_def nat_diff_distrib')
  have p: "pow2 u = 1 / 2 ^ (53 - k)"
    using k by (auto simp: u pow2_def nat_diff_distrib')
  have r: "of_int (round_half_even (of_int n / pow2 u)) * pow2 u = of_int n"
    unfolding d by (simp only: round_half_even_of_int) (simp add: p)
  have "(of_int n :: rat) < of_int (2 ^ 53)"
    using assms(2) by (simp only: of_int_less_iff)
  also have "\<dots> \<le> (2 :: rat) ^ 1024"
    by (simp only: of_int_power of_int_numeral) (rule power_increasing, simp_all)
  finally have "of_int n < pow2 1024"
    by (simp add: pow2_def)
  then show ?thesis
    using False r by (simp add: f64_round_def Let_def flip: u_def)
qed

lemma f64_of_int_exact: "\<bar>n\<bar> < 2 ^ 53 \<Longrightarrow> f64_of_int n = F_fin (n < 0) (of_int \<bar>n\<bar>)"
  unfolding f64_of_int_def by (rule f64_round_of_int) simp_all

end
