(* ===== verification/Xm_Value.thy ===== *)
theory Xm_Value
  imports Xm_Float
begin

text \<open>
  The tagged values of the interpreter (src/include/xemmai/value.h): the tags \<open>t_tag\<close>, the
  three instances \<open>t_svalue\<close>, \<open>t_rvalue\<close> and \<open>t_pvalue\<close> of \<open>t_value\<close> as one datatype (they
  differ in how the slot takes part in reference counting, not in the value held), equality, truth,
  and the payload casts.  An object is its address, counted from \<open>c_tag__OBJECT\<close>, the first
  value of the tag word that is not a tag.
\<close>

section \<open>Tags and values\<close>

datatype t_value =
    V_null
  | V_false
  | V_true
  | V_integer i64
  | V_float float64
  | V_object nat

definition c_tag__NULL :: nat where "c_tag__NULL = 0"
definition c_tag__FALSE :: nat where "c_tag__FALSE = 1"
definition c_tag__TRUE :: nat where "c_tag__TRUE = 2"
definition c_tag__INTEGER :: nat where "c_tag__INTEGER = 3"
definition c_tag__FLOAT :: nat where "c_tag__FLOAT = 4"
definition c_tag__OBJECT :: nat where "c_tag__OBJECT = 5"

lemmas c_tag_defs = c_tag__NULL_def c_tag__FALSE_def c_tag__TRUE_def c_tag__INTEGER_def
  c_tag__FLOAT_def c_tag__OBJECT_def

fun f_tag :: "t_value \<Rightarrow> nat" where
  "f_tag V_null = c_tag__NULL"
| "f_tag V_false = c_tag__FALSE"
| "f_tag V_true = c_tag__TRUE"
| "f_tag (V_integer _) = c_tag__INTEGER"
| "f_tag (V_float _) = c_tag__FLOAT"
| "f_tag (V_object a) = c_tag__OBJECT + a"

text \<open>\<open>t_value(bool)\<close>.\<close>

definition V_bool :: "bool \<Rightarrow> t_value" where
  "V_bool b = (if b then V_true else V_false)"

lemma V_bool_eq_iff [simp]: "V_bool a = V_bool b \<longleftrightarrow> a = b"
  by (simp add: V_bool_def)

text \<open>\<open>t_value::f_equal\<close>, which \<open>operator==\<close> calls.\<close>

definition f_equal :: "t_value \<Rightarrow> t_value \<Rightarrow> bool" where
  "f_equal x y =
     (if f_tag x \<noteq> f_tag y then False
      else case (x, y) of
        (V_integer a, V_integer b) \<Rightarrow> a = b
      | (V_float a, V_float b) \<Rightarrow> f64_eq a b
      | _ \<Rightarrow> True)"

definition f_boolean :: "t_value \<Rightarrow> bool" where
  "f_boolean v \<longleftrightarrow> c_tag__TRUE \<le> f_tag v"

definition f_not :: "t_value \<Rightarrow> t_value" where
  "f_not v = V_bool (f_tag v < c_tag__TRUE)"

text \<open>\<open>f_object_or_throw\<close>.\<close>

definition f_object_or_throw :: "t_value \<Rightarrow> nat result" where
  "f_object_or_throw v =
     (case v of V_object a \<Rightarrow> Inr a | _ \<Rightarrow> f_throw_not_supported)"

lemma f_tag_eq_iff:
  "f_tag x = f_tag y \<longleftrightarrow>
     (case (x, y) of (V_integer _, V_integer _) \<Rightarrow> True | (V_float _, V_float _) \<Rightarrow> True | _ \<Rightarrow> x = y)"
  by (cases x; cases y) (auto simp: c_tag_defs)

lemma f_equal_iff:
  "f_equal x y \<longleftrightarrow> (case (x, y) of (V_float a, V_float b) \<Rightarrow> f64_eq a b | _ \<Rightarrow> x = y)"
  by (cases x; cases y) (auto simp: f_equal_def c_tag_defs)

lemma f_boolean_iff: "f_boolean v \<longleftrightarrow> v \<noteq> V_null \<and> v \<noteq> V_false"
  by (cases v) (auto simp: f_boolean_def c_tag_defs)

lemma f_not_eq: "f_not v = V_bool (\<not> f_boolean v)"
  by (simp add: f_not_def f_boolean_def not_le)

section \<open>Objects that extend the primitive types\<close>

text \<open>
  An object whose type derives from \<open>intptr_t\<close> or \<open>double\<close> holds a number of that type, which
  \<open>f_as\<close> reads.  The store tells for each object which of the two, if any, it is.
\<close>

record store =
  o_integer :: "nat \<Rightarrow> i64 option"
  o_float :: "nat \<Rightarrow> float64 option"

definition derived_integer :: "store \<Rightarrow> t_value \<Rightarrow> i64 option" where
  "derived_integer st v = (case v of V_object a \<Rightarrow> o_integer st a | _ \<Rightarrow> None)"

definition derived_float :: "store \<Rightarrow> t_value \<Rightarrow> float64 option" where
  "derived_float st v = (case v of V_object a \<Rightarrow> o_float st a | _ \<Rightarrow> None)"

lemma derived_primitive [simp]:
  "derived_integer st (V_integer n) = None" "derived_float st (V_integer n) = None"
  "derived_integer st (V_float x) = None" "derived_float st (V_float x) = None"
  by (simp_all add: derived_integer_def derived_float_def)

end
