(* ===== verification/Xm_Operators.thy ===== *)
theory Xm_Operators
  imports Xm_Value "HOL-Library.Signed_Division"
begin

unbundle bit_operations_syntax

text \<open>
  The operators of the language as the interpreter executes them: the functors of
  src/src/code.cc, one definition per family of operand encodings of src/src/code_operator.h
  (\<open>LX\<close>, \<open>XL\<close>, \<open>XX\<close>, \<open>LI\<close>, \<open>XI\<close>, \<open>IL\<close>, \<open>IX\<close>, \<open>LF\<close>, \<open>XF\<close>, \<open>FL\<close>, \<open>FX\<close>), and the constant folding
  the compiler performs on literal operands (src/src/ast.cc).  The theorems relate the specialised
  encodings, the generic \<open>XX\<close> encoding and the folding.
\<close>

section \<open>Operators\<close>

datatype binop =
    B_MULTIPLY | B_DIVIDE | B_MODULUS | B_ADD | B_SUBTRACT | B_LEFT_SHIFT | B_RIGHT_SHIFT
  | B_LESS | B_LESS_EQUAL | B_GREATER | B_GREATER_EQUAL
  | B_EQUALS | B_NOT_EQUALS | B_IDENTICAL | B_NOT_IDENTICAL | B_AND | B_XOR | B_OR

datatype unop = U_PLUS | U_MINUS | U_NOT | U_COMPLEMENT

text \<open>The macro that instantiates each operator in code_operator.h.\<close>

datatype op_family = K_ARITHMETIC | K_INTEGRAL | K_EQUALITY | K_IDENTITY | K_BITWISE

fun op_kind :: "binop \<Rightarrow> op_family" where
  "op_kind B_MULTIPLY = K_ARITHMETIC"
| "op_kind B_DIVIDE = K_ARITHMETIC"
| "op_kind B_MODULUS = K_INTEGRAL"
| "op_kind B_ADD = K_ARITHMETIC"
| "op_kind B_SUBTRACT = K_ARITHMETIC"
| "op_kind B_LEFT_SHIFT = K_INTEGRAL"
| "op_kind B_RIGHT_SHIFT = K_INTEGRAL"
| "op_kind B_LESS = K_ARITHMETIC"
| "op_kind B_LESS_EQUAL = K_ARITHMETIC"
| "op_kind B_GREATER = K_ARITHMETIC"
| "op_kind B_GREATER_EQUAL = K_ARITHMETIC"
| "op_kind B_EQUALS = K_EQUALITY"
| "op_kind B_NOT_EQUALS = K_EQUALITY"
| "op_kind B_IDENTICAL = K_IDENTITY"
| "op_kind B_NOT_IDENTICAL = K_IDENTITY"
| "op_kind B_AND = K_BITWISE"
| "op_kind B_XOR = K_BITWISE"
| "op_kind B_OR = K_BITWISE"

text \<open>What an instruction does with its operands: store a primitive result, or call the method
  of the left operand's type.\<close>

datatype action = Primitive t_value | Object_call

section \<open>The functors\<close>

text \<open>Signed division: undefined for a zero divisor and for the one quotient that overflows.\<close>

definition s_divide :: "i64 \<Rightarrow> i64 \<Rightarrow> t_value result" where
  "s_divide a b =
     (if b = 0 \<or> sint a = - (2 ^ 63) \<and> sint b = - 1 then Inl (Undefined ''division'')
      else Inr (V_integer (word_of_int (sint a sdiv sint b))))"

definition s_modulus :: "i64 \<Rightarrow> i64 \<Rightarrow> t_value result" where
  "s_modulus a b =
     (if b = 0 \<or> sint a = - (2 ^ 63) \<and> sint b = - 1 then Inl (Undefined ''division'')
      else Inr (V_integer (word_of_int (sint a smod sint b))))"

text \<open>\<open>std::modulus\<close> on \<open>uintptr_t\<close> and \<open>intptr_t\<close> converts both operands to \<open>uintptr_t\<close>.\<close>

definition u_modulus :: "i64 \<Rightarrow> i64 \<Rightarrow> t_value result" where
  "u_modulus a b = (if b = 0 then Inl (Undefined ''division'') else Inr (V_integer (a mod b)))"

text \<open>Shifts are undefined unless the count is between 0 and 63.\<close>

definition shift_count :: "i64 \<Rightarrow> nat result" where
  "shift_count b = (if 0 \<le> sint b \<and> sint b < 64 then Inr (unat b) else Inl (Undefined ''shift''))"

definition left_shift :: "i64 \<Rightarrow> i64 \<Rightarrow> t_value result" where
  "left_shift a b = bind_result (shift_count b) (\<lambda>k. Inr (V_integer (push_bit k a)))"

definition u_right_shift :: "i64 \<Rightarrow> i64 \<Rightarrow> t_value result" where
  "u_right_shift a b = bind_result (shift_count b) (\<lambda>k. Inr (V_integer (drop_bit k a)))"

definition s_right_shift :: "i64 \<Rightarrow> i64 \<Rightarrow> t_value result" where
  "s_right_shift a b = bind_result (shift_count b) (\<lambda>k. Inr (V_integer (signed_drop_bit k a)))"

text \<open>\<open>std::multiplies\<close>, \<open>std::less\<close> and the other functors of the arithmetic operators on two
  \<open>intptr_t\<close> (sums and products wrap around), and on two \<open>double\<close>.\<close>

fun arithmetic_ii :: "binop \<Rightarrow> i64 \<Rightarrow> i64 \<Rightarrow> t_value result" where
  "arithmetic_ii B_MULTIPLY a b = Inr (V_integer (a * b))"
| "arithmetic_ii B_DIVIDE a b = s_divide a b"
| "arithmetic_ii B_ADD a b = Inr (V_integer (a + b))"
| "arithmetic_ii B_SUBTRACT a b = Inr (V_integer (a - b))"
| "arithmetic_ii B_LESS a b = Inr (V_bool (sint a < sint b))"
| "arithmetic_ii B_LESS_EQUAL a b = Inr (V_bool (sint a \<le> sint b))"
| "arithmetic_ii B_GREATER a b = Inr (V_bool (sint a > sint b))"
| "arithmetic_ii B_GREATER_EQUAL a b = Inr (V_bool (sint a \<ge> sint b))"
| "arithmetic_ii _ a b = f_throw_not_supported"

fun arithmetic_ff :: "binop \<Rightarrow> float64 \<Rightarrow> float64 \<Rightarrow> t_value result" where
  "arithmetic_ff B_MULTIPLY a b = Inr (V_float (f64_mul a b))"
| "arithmetic_ff B_DIVIDE a b = Inr (V_float (f64_div a b))"
| "arithmetic_ff B_ADD a b = Inr (V_float (f64_add a b))"
| "arithmetic_ff B_SUBTRACT a b = Inr (V_float (f64_sub a b))"
| "arithmetic_ff B_LESS a b = Inr (V_bool (f64_less a b))"
| "arithmetic_ff B_LESS_EQUAL a b = Inr (V_bool (f64_less_equal a b))"
| "arithmetic_ff B_GREATER a b = Inr (V_bool (f64_less b a))"
| "arithmetic_ff B_GREATER_EQUAL a b = Inr (V_bool (f64_less_equal b a))"
| "arithmetic_ff _ a b = f_throw_not_supported"

text \<open>The usual arithmetic conversions of an \<open>intptr_t\<close> operand beside a \<open>double\<close>.\<close>

definition i2f :: "i64 \<Rightarrow> float64" where
  "i2f a = f64_of_int (sint a)"

text \<open>The functors of the integral and bitwise operators on a left operand of type
  \<open>uintptr_t\<close> (\<open>integral_u\<close>) or \<open>intptr_t\<close> (\<open>integral_s\<close>).\<close>

fun integral_u :: "binop \<Rightarrow> i64 \<Rightarrow> i64 \<Rightarrow> t_value result" where
  "integral_u B_MODULUS a b = u_modulus a b"
| "integral_u B_LEFT_SHIFT a b = left_shift a b"
| "integral_u B_RIGHT_SHIFT a b = u_right_shift a b"
| "integral_u B_AND a b = Inr (V_integer (a AND b))"
| "integral_u B_XOR a b = Inr (V_integer (a XOR b))"
| "integral_u B_OR a b = Inr (V_integer (a OR b))"
| "integral_u _ a b = f_throw_not_supported"

fun integral_s :: "binop \<Rightarrow> i64 \<Rightarrow> i64 \<Rightarrow> t_value result" where
  "integral_s B_RIGHT_SHIFT a b = s_right_shift a b"
| "integral_s op a b = integral_u op a b"

fun bitwise_bb :: "binop \<Rightarrow> bool \<Rightarrow> bool \<Rightarrow> bool" where
  "bitwise_bb B_AND a b = (a \<and> b)"
| "bitwise_bb B_XOR a b = (a \<noteq> b)"
| "bitwise_bb _ a b = (a \<or> b)"

text \<open>The prefix \<open>!\<close> or nothing that the equality and identity macros put before the test.\<close>

definition polarity :: "binop \<Rightarrow> bool \<Rightarrow> t_value" where
  "polarity op b = V_bool (if op = B_NOT_EQUALS \<or> op = B_NOT_IDENTICAL then \<not> b else b)"

definition prim :: "t_value result \<Rightarrow> action result" where
  "prim r = bind_result r (\<lambda>v. Inr (Primitive v))"

section \<open>Shared fragments of the instruction bodies\<close>

text \<open>\<open>t_code::f_binary_arithmetic\<close>, \<open>f_binary_integral\<close> and the two \<open>f_binary_equality\<close>.\<close>

definition f_binary_arithmetic :: "store \<Rightarrow> binop \<Rightarrow> float64 \<Rightarrow> t_value \<Rightarrow> t_value result" where
  "f_binary_arithmetic st op a0 a1 =
     (case a1 of
        V_float b \<Rightarrow> arithmetic_ff op a0 b
      | V_integer b \<Rightarrow> arithmetic_ff op a0 (i2f b)
      | _ \<Rightarrow> (case derived_float st a1 of
                 Some b \<Rightarrow> arithmetic_ff op a0 b
               | None \<Rightarrow> f_throw_not_supported))"

definition f_binary_integral :: "store \<Rightarrow> binop \<Rightarrow> i64 \<Rightarrow> t_value \<Rightarrow> t_value result" where
  "f_binary_integral st op a0 a1 =
     (case a1 of
        V_integer b \<Rightarrow> integral_u op a0 b
      | _ \<Rightarrow> (case derived_integer st a1 of
                 Some b \<Rightarrow> integral_u op a0 b
               | None \<Rightarrow> f_throw_not_supported))"

definition f_binary_equality_i :: "store \<Rightarrow> i64 \<Rightarrow> t_value \<Rightarrow> bool" where
  "f_binary_equality_i st a0 a1 =
     (case a1 of
        V_integer b \<Rightarrow> a0 = b
      | V_float b \<Rightarrow> f64_eq (i2f a0) b
      | _ \<Rightarrow> derived_integer st a1 = Some a0)"

definition f_binary_equality_f :: "store \<Rightarrow> float64 \<Rightarrow> t_value \<Rightarrow> bool" where
  "f_binary_equality_f st a0 a1 =
     (case a1 of
        V_float b \<Rightarrow> f64_eq a0 b
      | V_integer b \<Rightarrow> f64_eq a0 (i2f b)
      | _ \<Rightarrow> (case derived_float st a1 of Some b \<Rightarrow> f64_eq a0 b | None \<Rightarrow> False))"

text \<open>\<open>OBJECT_OR_THROW\<close>, \<open>OBJECT_OR_FALSE\<close>, \<open>BINARY_ARITHMETIC_INTEGER\<close>,
  \<open>BINARY_DERIVED_OR_THROW\<close> and \<open>BINARY_DERIVED_OR_FALSE\<close> of code_operator.h.\<close>

definition object_or_throw :: "t_value \<Rightarrow> action result" where
  "object_or_throw a0 = (if c_tag__OBJECT \<le> f_tag a0 then Inr Object_call else f_throw_not_supported)"

definition object_or_false :: "binop \<Rightarrow> t_value \<Rightarrow> action result" where
  "object_or_false op a0 =
     (if c_tag__OBJECT \<le> f_tag a0 then Inr Object_call else Inr (Primitive (polarity op False)))"

definition arithmetic_integer :: "store \<Rightarrow> binop \<Rightarrow> i64 \<Rightarrow> t_value \<Rightarrow> t_value result" where
  "arithmetic_integer st op a0 a1 =
     (case a1 of
        V_integer b \<Rightarrow> arithmetic_ii op a0 b
      | V_float b \<Rightarrow> arithmetic_ff op (i2f a0) b
      | _ \<Rightarrow> (case derived_integer st a1 of
                 Some b \<Rightarrow> arithmetic_ii op a0 b
               | None \<Rightarrow> f_throw_not_supported))"

definition derived_or_throw_i :: "store \<Rightarrow> (i64 \<Rightarrow> t_value result) \<Rightarrow> t_value \<Rightarrow> t_value result" where
  "derived_or_throw_i st f a1 = (case derived_integer st a1 of Some b \<Rightarrow> f b | None \<Rightarrow> f_throw_not_supported)"

definition derived_or_throw_f :: "store \<Rightarrow> (float64 \<Rightarrow> t_value result) \<Rightarrow> t_value \<Rightarrow> t_value result" where
  "derived_or_throw_f st f a1 = (case derived_float st a1 of Some b \<Rightarrow> f b | None \<Rightarrow> f_throw_not_supported)"

definition derived_or_false_i :: "store \<Rightarrow> i64 \<Rightarrow> t_value \<Rightarrow> bool" where
  "derived_or_false_i st a0 a1 = (derived_integer st a1 = Some a0)"

definition derived_or_false_f :: "store \<Rightarrow> float64 \<Rightarrow> t_value \<Rightarrow> bool" where
  "derived_or_false_f st a0 a1 = (case derived_float st a1 of Some b \<Rightarrow> f64_eq a0 b | None \<Rightarrow> False)"

text \<open>\<open>a0.v_p == a1.v_p\<close>: the tag words (or addresses) coincide.\<close>

definition same_p :: "t_value \<Rightarrow> t_value \<Rightarrow> bool" where
  "same_p a0 a1 \<longleftrightarrow> f_tag a0 = f_tag a1"

section \<open>The operand encodings\<close>

text \<open>\<open>BINARY_XX\<close>: variables and temporaries on both sides.\<close>

definition binary_XX :: "store \<Rightarrow> binop \<Rightarrow> t_value \<Rightarrow> t_value \<Rightarrow> action result" where
  "binary_XX st op a0 a1 =
     (case op_kind op of
        K_ARITHMETIC \<Rightarrow>
          (case a0 of
             V_integer a \<Rightarrow> prim (arithmetic_integer st op a a1)
           | V_float a \<Rightarrow> prim (f_binary_arithmetic st op a a1)
           | _ \<Rightarrow> object_or_throw a0)
      | K_INTEGRAL \<Rightarrow>
          (case a0 of V_integer a \<Rightarrow> prim (f_binary_integral st op a a1) | _ \<Rightarrow> object_or_throw a0)
      | K_EQUALITY \<Rightarrow>
          (case a0 of
             V_integer a \<Rightarrow> Inr (Primitive (polarity op (f_binary_equality_i st a a1)))
           | V_float a \<Rightarrow> Inr (Primitive (polarity op (f_binary_equality_f st a a1)))
           | V_object _ \<Rightarrow> if same_p a0 a1 then Inr (Primitive (polarity op True)) else Inr Object_call
           | _ \<Rightarrow> Inr (Primitive (polarity op (same_p a0 a1))))
      | K_IDENTITY \<Rightarrow> Inr (Primitive (polarity op (f_equal a0 a1)))
      | K_BITWISE \<Rightarrow>
          (case a0 of
             V_false \<Rightarrow> Inr (Primitive (V_bool (bitwise_bb op (f_boolean a0) (f_boolean a1))))
           | V_true \<Rightarrow> Inr (Primitive (V_bool (bitwise_bb op (f_boolean a0) (f_boolean a1))))
           | V_integer a \<Rightarrow> prim (f_binary_integral st op a a1)
           | _ \<Rightarrow> object_or_throw a0))"

text \<open>\<open>BINARY_LX\<close>: a literal on the left.\<close>

definition binary_LX :: "store \<Rightarrow> binop \<Rightarrow> t_value \<Rightarrow> t_value \<Rightarrow> action result" where
  "binary_LX st op a0 a1 =
     (case op_kind op of
        K_ARITHMETIC \<Rightarrow> object_or_throw a0
      | K_INTEGRAL \<Rightarrow> object_or_throw a0
      | K_EQUALITY \<Rightarrow>
          (case a0 of
             V_null \<Rightarrow> Inr (Primitive (polarity op (same_p a0 a1)))
           | V_false \<Rightarrow> Inr (Primitive (polarity op (same_p a0 a1)))
           | V_true \<Rightarrow> Inr (Primitive (polarity op (same_p a0 a1)))
           | _ \<Rightarrow> if same_p a0 a1 then Inr (Primitive (polarity op True)) else Inr Object_call)
      | K_IDENTITY \<Rightarrow> Inr (Primitive (polarity op (f_equal a0 a1)))
      | K_BITWISE \<Rightarrow>
          (case a0 of
             V_false \<Rightarrow> Inr (Primitive (V_bool (bitwise_bb op (f_boolean a0) (f_boolean a1))))
           | V_true \<Rightarrow> Inr (Primitive (V_bool (bitwise_bb op (f_boolean a0) (f_boolean a1))))
           | _ \<Rightarrow> object_or_throw a0))"

text \<open>\<open>BINARY_XL\<close>: a literal on the right.\<close>

definition binary_XL :: "store \<Rightarrow> binop \<Rightarrow> t_value \<Rightarrow> t_value \<Rightarrow> action result" where
  "binary_XL st op a0 a1 =
     (case op_kind op of
        K_ARITHMETIC \<Rightarrow>
          (case a0 of
             V_integer a \<Rightarrow> prim (derived_or_throw_i st (arithmetic_ii op a) a1)
           | V_float a \<Rightarrow> prim (derived_or_throw_f st (arithmetic_ff op a) a1)
           | _ \<Rightarrow> object_or_throw a0)
      | K_INTEGRAL \<Rightarrow>
          (case a0 of
             V_integer a \<Rightarrow> prim (derived_or_throw_i st (integral_s op a) a1)
           | _ \<Rightarrow> object_or_throw a0)
      | K_EQUALITY \<Rightarrow>
          (case a0 of
             V_integer a \<Rightarrow> Inr (Primitive (polarity op (derived_or_false_i st a a1)))
           | V_float a \<Rightarrow> Inr (Primitive (polarity op (derived_or_false_f st a a1)))
           | V_object _ \<Rightarrow> if same_p a0 a1 then Inr (Primitive (polarity op True)) else Inr Object_call
           | _ \<Rightarrow> Inr (Primitive (polarity op (same_p a0 a1))))
      | K_IDENTITY \<Rightarrow> Inr (Primitive (polarity op (f_equal a0 a1)))
      | K_BITWISE \<Rightarrow>
          (case a0 of
             V_false \<Rightarrow> Inr (Primitive (V_bool (bitwise_bb op (f_boolean a0) (f_boolean a1))))
           | V_true \<Rightarrow> Inr (Primitive (V_bool (bitwise_bb op (f_boolean a0) (f_boolean a1))))
           | V_integer a \<Rightarrow> prim (derived_or_throw_i st (integral_s op a) a1)
           | _ \<Rightarrow> object_or_throw a0))"

text \<open>\<open>BINARY_LI\<close> and \<open>BINARY_LF\<close>: a literal and a number; the macros are the same.\<close>

definition binary_LN :: "store \<Rightarrow> binop \<Rightarrow> t_value \<Rightarrow> action result" where
  "binary_LN st op a0 =
     (case op_kind op of
        K_ARITHMETIC \<Rightarrow> object_or_throw a0
      | K_INTEGRAL \<Rightarrow> object_or_throw a0
      | K_EQUALITY \<Rightarrow> object_or_false op a0
      | K_IDENTITY \<Rightarrow> Inr (Primitive (polarity op False))
      | K_BITWISE \<Rightarrow> object_or_throw a0)"

text \<open>\<open>BINARY_XI\<close> and \<open>BINARY_XF\<close>: a number literal on the right.\<close>

definition binary_XI :: "store \<Rightarrow> binop \<Rightarrow> t_value \<Rightarrow> i64 \<Rightarrow> action result" where
  "binary_XI st op a0 b =
     (case op_kind op of
        K_ARITHMETIC \<Rightarrow>
          (case a0 of
             V_integer a \<Rightarrow> prim (arithmetic_ii op a b)
           | V_float a \<Rightarrow> prim (arithmetic_ff op a (i2f b))
           | _ \<Rightarrow> object_or_throw a0)
      | K_INTEGRAL \<Rightarrow>
          (case a0 of V_integer a \<Rightarrow> prim (integral_u op a b) | _ \<Rightarrow> object_or_throw a0)
      | K_EQUALITY \<Rightarrow>
          (case a0 of
             V_integer a \<Rightarrow> Inr (Primitive (polarity op (a = b)))
           | V_float a \<Rightarrow> Inr (Primitive (polarity op (f64_eq a (i2f b))))
           | _ \<Rightarrow> object_or_false op a0)
      | K_IDENTITY \<Rightarrow> Inr (Primitive (polarity op (f_equal a0 (V_integer b))))
      | K_BITWISE \<Rightarrow>
          (case a0 of V_integer a \<Rightarrow> prim (integral_s op a b) | _ \<Rightarrow> object_or_throw a0))"

definition binary_XF :: "store \<Rightarrow> binop \<Rightarrow> t_value \<Rightarrow> float64 \<Rightarrow> action result" where
  "binary_XF st op a0 b =
     (case op_kind op of
        K_ARITHMETIC \<Rightarrow>
          (case a0 of
             V_float a \<Rightarrow> prim (arithmetic_ff op a b)
           | V_integer a \<Rightarrow> prim (arithmetic_ff op (i2f a) b)
           | _ \<Rightarrow> object_or_throw a0)
      | K_INTEGRAL \<Rightarrow> object_or_throw a0
      | K_EQUALITY \<Rightarrow>
          (case a0 of
             V_float a \<Rightarrow> Inr (Primitive (polarity op (f64_eq a b)))
           | V_integer a \<Rightarrow> Inr (Primitive (polarity op (f64_eq (i2f a) b)))
           | _ \<Rightarrow> object_or_false op a0)
      | K_IDENTITY \<Rightarrow> Inr (Primitive (polarity op (f_equal a0 (V_float b))))
      | K_BITWISE \<Rightarrow> object_or_throw a0)"

text \<open>\<open>BINARY_IL\<close>, \<open>BINARY_IX\<close>, \<open>BINARY_FL\<close> and \<open>BINARY_FX\<close>: a number literal on the left.\<close>

definition binary_IL :: "store \<Rightarrow> binop \<Rightarrow> i64 \<Rightarrow> t_value \<Rightarrow> action result" where
  "binary_IL st op a a1 =
     (case op_kind op of
        K_ARITHMETIC \<Rightarrow> prim (derived_or_throw_i st (arithmetic_ii op a) a1)
      | K_INTEGRAL \<Rightarrow> prim (derived_or_throw_i st (integral_s op a) a1)
      | K_EQUALITY \<Rightarrow> Inr (Primitive (polarity op (derived_or_false_i st a a1)))
      | K_IDENTITY \<Rightarrow> Inr (Primitive (polarity op False))
      | K_BITWISE \<Rightarrow> prim (derived_or_throw_i st (integral_s op a) a1))"

definition binary_IX :: "store \<Rightarrow> binop \<Rightarrow> i64 \<Rightarrow> t_value \<Rightarrow> action result" where
  "binary_IX st op a a1 =
     (case op_kind op of
        K_ARITHMETIC \<Rightarrow> prim (arithmetic_integer st op a a1)
      | K_INTEGRAL \<Rightarrow> prim (f_binary_integral st op a a1)
      | K_EQUALITY \<Rightarrow> Inr (Primitive (polarity op (f_binary_equality_i st a a1)))
      | K_IDENTITY \<Rightarrow> Inr (Primitive (polarity op (f_equal (V_integer a) a1)))
      | K_BITWISE \<Rightarrow> prim (f_binary_integral st op a a1))"

definition binary_FL :: "store \<Rightarrow> binop \<Rightarrow> float64 \<Rightarrow> t_value \<Rightarrow> action result" where
  "binary_FL st op a a1 =
     (case op_kind op of
        K_ARITHMETIC \<Rightarrow> prim (derived_or_throw_f st (arithmetic_ff op a) a1)
      | K_INTEGRAL \<Rightarrow> f_throw_not_supported
      | K_EQUALITY \<Rightarrow> Inr (Primitive (polarity op (derived_or_false_f st a a1)))
      | K_IDENTITY \<Rightarrow> Inr (Primitive (polarity op False))
      | K_BITWISE \<Rightarrow> f_throw_not_supported)"

definition binary_FX :: "store \<Rightarrow> binop \<Rightarrow> float64 \<Rightarrow> t_value \<Rightarrow> action result" where
  "binary_FX st op a a1 =
     (case op_kind op of
        K_ARITHMETIC \<Rightarrow> prim (f_binary_arithmetic st op a a1)
      | K_INTEGRAL \<Rightarrow> f_throw_not_supported
      | K_EQUALITY \<Rightarrow> Inr (Primitive (polarity op (f_binary_equality_f st a a1)))
      | K_IDENTITY \<Rightarrow> Inr (Primitive (polarity op (f_equal (V_float a) a1)))
      | K_BITWISE \<Rightarrow> f_throw_not_supported)"

text \<open>The unary operators.\<close>

definition unary :: "unop \<Rightarrow> t_value \<Rightarrow> action result" where
  "unary op a0 =
     (case op of
        U_PLUS \<Rightarrow>
          (case a0 of
             V_integer a \<Rightarrow> Inr (Primitive (V_integer a))
           | V_float a \<Rightarrow> Inr (Primitive (V_float a))
           | _ \<Rightarrow> object_or_throw a0)
      | U_MINUS \<Rightarrow>
          (case a0 of
             V_integer a \<Rightarrow> Inr (Primitive (V_integer (- a)))
           | V_float a \<Rightarrow> Inr (Primitive (V_float (f64_neg a)))
           | _ \<Rightarrow> object_or_throw a0)
      | U_NOT \<Rightarrow> Inr (Primitive (V_bool (\<not> f_boolean a0)))
      | U_COMPLEMENT \<Rightarrow>
          (case a0 of V_integer a \<Rightarrow> Inr (Primitive (V_integer (NOT a))) | _ \<Rightarrow> object_or_throw a0))"

section \<open>Methods of the primitive types\<close>

text \<open>
  \<open>t_type_of<intptr_t>::f__multiply\<close>, \<open>f__divide\<close>, \<open>f__add\<close>, \<open>f__subtract\<close>, \<open>f__less\<close>,
  \<open>f__less_equal\<close>, \<open>f__greater\<close> and \<open>f__greater_equal\<close> (src/src/integer.cc) have one shape: the tag
  of the argument selects the integer or the floating-point operation, and an object must derive
  from \<open>intptr_t\<close>.
\<close>

definition intptr_arithmetic :: "store \<Rightarrow> binop \<Rightarrow> i64 \<Rightarrow> t_value \<Rightarrow> t_value result" where
  "intptr_arithmetic st op a_self a_value =
     (case a_value of
        V_integer b \<Rightarrow> arithmetic_ii op a_self b
      | V_float b \<Rightarrow> arithmetic_ff op (i2f a_self) b
      | V_object p \<Rightarrow>
          (case o_integer st p of Some b \<Rightarrow> arithmetic_ii op a_self b | None \<Rightarrow> f_throw_not_supported)
      | _ \<Rightarrow> f_throw_not_supported)"

definition intptr_equals :: "store \<Rightarrow> i64 \<Rightarrow> t_value \<Rightarrow> bool" where
  "intptr_equals st a_self a_value =
     (case a_value of
        V_integer b \<Rightarrow> a_self = b
      | V_float b \<Rightarrow> f64_eq (i2f a_self) b
      | V_object p \<Rightarrow> (case o_integer st p of Some b \<Rightarrow> a_self = b | None \<Rightarrow> False)
      | _ \<Rightarrow> False)"

definition intptr_not_equals :: "store \<Rightarrow> i64 \<Rightarrow> t_value \<Rightarrow> bool" where
  "intptr_not_equals st a_self a_value =
     (case a_value of
        V_integer b \<Rightarrow> a_self \<noteq> b
      | V_float b \<Rightarrow> \<not> f64_eq (i2f a_self) b
      | V_object p \<Rightarrow> (case o_integer st p of Some b \<Rightarrow> a_self \<noteq> b | None \<Rightarrow> True)
      | _ \<Rightarrow> True)"


definition intptr_left_shift :: "i64 \<Rightarrow> i64 \<Rightarrow> t_value result" where
  "intptr_left_shift a_self a_value = left_shift a_self a_value"

definition intptr_right_shift :: "i64 \<Rightarrow> i64 \<Rightarrow> t_value result" where
  "intptr_right_shift a_self a_value = u_right_shift a_self a_value"

text \<open>\<open>f_is<double>\<close> and \<open>f_as<double>\<close> (src/include/xemmai/float.h), and the comparison methods.\<close>

definition double_as :: "store \<Rightarrow> t_value \<Rightarrow> float64 option" where
  "double_as st v =
     (case v of
        V_integer a \<Rightarrow> Some (i2f a)
      | V_float a \<Rightarrow> Some a
      | V_object p \<Rightarrow> o_float st p
      | _ \<Rightarrow> None)"

definition double_equals :: "store \<Rightarrow> float64 \<Rightarrow> t_value \<Rightarrow> bool" where
  "double_equals st a_self a_value =
     (case double_as st a_value of Some b \<Rightarrow> f64_eq a_self b | None \<Rightarrow> False)"

definition double_not_equals :: "store \<Rightarrow> float64 \<Rightarrow> t_value \<Rightarrow> bool" where
  "double_not_equals st a_self a_value =
     (case double_as st a_value of Some b \<Rightarrow> \<not> f64_eq a_self b | None \<Rightarrow> True)"

text \<open>\<open>f_is<intptr_t>\<close> and \<open>f_as<intptr_t>\<close> (src/include/xemmai/integer.h).\<close>

definition intptr_as :: "store \<Rightarrow> t_value \<Rightarrow> i64 option" where
  "intptr_as st v = (case v of V_integer a \<Rightarrow> Some a | V_object p \<Rightarrow> o_integer st p | _ \<Rightarrow> None)"

text \<open>\<open>f_throw_type_error\<close>.\<close>

definition f_throw_type_error :: "string \<Rightarrow> 'a result" where
  "f_throw_type_error name = Inl (Type_error name)"

text \<open>
  The operators of the C++ interface, \<open>t_value::f_multiply\<close> and its kin
  (src/include/xemmai/global.h): one macro per family, as in the interpreter.
\<close>

definition value_binary :: "store \<Rightarrow> binop \<Rightarrow> t_value \<Rightarrow> t_value \<Rightarrow> action result" where
  "value_binary st op a0 a1 =
     (case op_kind op of
        K_ARITHMETIC \<Rightarrow>
          (case a0 of
             V_integer a \<Rightarrow> prim (intptr_arithmetic st op a a1)
           | V_float a \<Rightarrow>
               (case double_as st a1 of
                  Some b \<Rightarrow> prim (arithmetic_ff op a b)
                | None \<Rightarrow> f_throw_type_error ''argument0'')
           | V_object _ \<Rightarrow> Inr Object_call
           | _ \<Rightarrow> f_throw_not_supported)
      | K_INTEGRAL \<Rightarrow>
          (case a0 of
             V_integer a \<Rightarrow>
               (case intptr_as st a1 of
                  Some b \<Rightarrow> prim (integral_u op a b)
                | None \<Rightarrow> f_throw_type_error ''argument0'')
           | V_object _ \<Rightarrow> Inr Object_call
           | _ \<Rightarrow> f_throw_not_supported)
      | K_EQUALITY \<Rightarrow>
          (case a0 of
             V_integer a \<Rightarrow>
               Inr (Primitive (V_bool (if op = B_EQUALS then intptr_equals st a a1 else intptr_not_equals st a a1)))
           | V_float a \<Rightarrow>
               Inr (Primitive (V_bool (if op = B_EQUALS then double_equals st a a1 else double_not_equals st a a1)))
           | V_object _ \<Rightarrow> Inr Object_call
           | _ \<Rightarrow> Inr (Primitive (polarity op (same_p a0 a1))))
      | K_IDENTITY \<Rightarrow> Inr (Primitive (polarity op (f_equal a0 a1)))
      | K_BITWISE \<Rightarrow>
          (case a0 of
             V_false \<Rightarrow> Inr (Primitive (V_bool (bitwise_bb op (f_boolean a0) (f_boolean a1))))
           | V_true \<Rightarrow> Inr (Primitive (V_bool (bitwise_bb op (f_boolean a0) (f_boolean a1))))
           | V_integer a \<Rightarrow>
               (case intptr_as st a1 of
                  Some b \<Rightarrow> prim (integral_s op a b)
                | None \<Rightarrow> f_throw_type_error ''argument0'')
           | V_object _ \<Rightarrow> Inr Object_call
           | _ \<Rightarrow> f_throw_not_supported))"

section \<open>Selection of the encoding\<close>

text \<open>
  The operands as the compiler sees them (\<open>ast::t_operand\<close>), each with the value it has when the
  instruction runs.  \<open>select\<close> is the instruction that \<open>t_binary::f_emit\<close> picks from the
  two tags; two number literals never reach the interpreter, they are folded.
\<close>

datatype rt_operand =
    R_INTEGER i64 | R_FLOAT float64 | R_LITERAL t_value | R_VARIABLE t_value | R_TEMPORARY t_value

fun rt_value :: "rt_operand \<Rightarrow> t_value" where
  "rt_value (R_INTEGER a) = V_integer a"
| "rt_value (R_FLOAT a) = V_float a"
| "rt_value (R_LITERAL v) = v"
| "rt_value (R_VARIABLE v) = v"
| "rt_value (R_TEMPORARY v) = v"

fun is_number :: "rt_operand \<Rightarrow> bool" where
  "is_number (R_INTEGER _) = True"
| "is_number (R_FLOAT _) = True"
| "is_number _ = False"

fun select :: "store \<Rightarrow> binop \<Rightarrow> rt_operand \<Rightarrow> rt_operand \<Rightarrow> action result" where
  "select st op (R_LITERAL a) (R_INTEGER b) = binary_LN st op a"
| "select st op (R_LITERAL a) (R_FLOAT b) = binary_LN st op a"
| "select st op (R_LITERAL a) r = binary_LX st op a (rt_value r)"
| "select st op (R_INTEGER a) (R_LITERAL b) = binary_IL st op a b"
| "select st op (R_INTEGER a) r = binary_IX st op a (rt_value r)"
| "select st op (R_FLOAT a) (R_LITERAL b) = binary_FL st op a b"
| "select st op (R_FLOAT a) r = binary_FX st op a (rt_value r)"
| "select st op l (R_INTEGER b) = binary_XI st op (rt_value l) b"
| "select st op l (R_FLOAT b) = binary_XF st op (rt_value l) b"
| "select st op l (R_LITERAL b) = binary_XL st op (rt_value l) b"
| "select st op l r = binary_XX st op (rt_value l) (rt_value r)"

section \<open>Constant folding\<close>

text \<open>\<open>t_binary::f_emit\<close> on two number literals: the value of the literal that replaces the
  expression, per combination of the operand tags.\<close>

fun fold_ii :: "binop \<Rightarrow> i64 \<Rightarrow> i64 \<Rightarrow> t_value result" where
  "fold_ii B_MULTIPLY a b = Inr (V_integer (a * b))"
| "fold_ii B_DIVIDE a b = s_divide a b"
| "fold_ii B_MODULUS a b = s_modulus a b"
| "fold_ii B_ADD a b = Inr (V_integer (a + b))"
| "fold_ii B_SUBTRACT a b = Inr (V_integer (a - b))"
| "fold_ii B_LEFT_SHIFT a b = left_shift a b"
| "fold_ii B_RIGHT_SHIFT a b = u_right_shift a b"
| "fold_ii B_LESS a b = Inr (V_bool (sint a < sint b))"
| "fold_ii B_LESS_EQUAL a b = Inr (V_bool (sint a \<le> sint b))"
| "fold_ii B_GREATER a b = Inr (V_bool (sint a > sint b))"
| "fold_ii B_GREATER_EQUAL a b = Inr (V_bool (sint a \<ge> sint b))"
| "fold_ii B_EQUALS a b = Inr (V_bool (a = b))"
| "fold_ii B_IDENTICAL a b = Inr (V_bool (a = b))"
| "fold_ii B_NOT_EQUALS a b = Inr (V_bool (a \<noteq> b))"
| "fold_ii B_NOT_IDENTICAL a b = Inr (V_bool (a \<noteq> b))"
| "fold_ii B_AND a b = Inr (V_integer (a AND b))"
| "fold_ii B_XOR a b = Inr (V_integer (a XOR b))"
| "fold_ii B_OR a b = Inr (V_integer (a OR b))"

fun fold_if :: "binop \<Rightarrow> i64 \<Rightarrow> float64 \<Rightarrow> t_value result" where
  "fold_if B_MULTIPLY a b = Inr (V_float (f64_mul (i2f a) b))"
| "fold_if B_DIVIDE a b = Inr (V_float (f64_div (i2f a) b))"
| "fold_if B_ADD a b = Inr (V_float (f64_add (i2f a) b))"
| "fold_if B_SUBTRACT a b = Inr (V_float (f64_sub (i2f a) b))"
| "fold_if B_LESS a b = Inr (V_bool (f64_less (i2f a) b))"
| "fold_if B_LESS_EQUAL a b = Inr (V_bool (f64_less_equal (i2f a) b))"
| "fold_if B_GREATER a b = Inr (V_bool (f64_less b (i2f a)))"
| "fold_if B_GREATER_EQUAL a b = Inr (V_bool (f64_less_equal b (i2f a)))"
| "fold_if B_EQUALS a b = Inr (V_bool (f64_eq (i2f a) b))"
| "fold_if B_NOT_EQUALS a b = Inr (V_bool (\<not> f64_eq (i2f a) b))"
| "fold_if B_IDENTICAL a b = Inr (V_bool False)"
| "fold_if B_NOT_IDENTICAL a b = Inr (V_bool True)"
| "fold_if _ a b = f_throw_not_supported"

fun fold_fi :: "binop \<Rightarrow> float64 \<Rightarrow> i64 \<Rightarrow> t_value result" where
  "fold_fi B_MULTIPLY a b = Inr (V_float (f64_mul a (i2f b)))"
| "fold_fi B_DIVIDE a b = Inr (V_float (f64_div a (i2f b)))"
| "fold_fi B_ADD a b = Inr (V_float (f64_add a (i2f b)))"
| "fold_fi B_SUBTRACT a b = Inr (V_float (f64_sub a (i2f b)))"
| "fold_fi B_LESS a b = Inr (V_bool (f64_less a (i2f b)))"
| "fold_fi B_LESS_EQUAL a b = Inr (V_bool (f64_less_equal a (i2f b)))"
| "fold_fi B_GREATER a b = Inr (V_bool (f64_less (i2f b) a))"
| "fold_fi B_GREATER_EQUAL a b = Inr (V_bool (f64_less_equal (i2f b) a))"
| "fold_fi B_EQUALS a b = Inr (V_bool (f64_eq a (i2f b)))"
| "fold_fi B_NOT_EQUALS a b = Inr (V_bool (\<not> f64_eq a (i2f b)))"
| "fold_fi B_IDENTICAL a b = Inr (V_bool False)"
| "fold_fi B_NOT_IDENTICAL a b = Inr (V_bool True)"
| "fold_fi _ a b = f_throw_not_supported"

fun fold_ff :: "binop \<Rightarrow> float64 \<Rightarrow> float64 \<Rightarrow> t_value result" where
  "fold_ff B_MULTIPLY a b = Inr (V_float (f64_mul a b))"
| "fold_ff B_DIVIDE a b = Inr (V_float (f64_div a b))"
| "fold_ff B_ADD a b = Inr (V_float (f64_add a b))"
| "fold_ff B_SUBTRACT a b = Inr (V_float (f64_sub a b))"
| "fold_ff B_LESS a b = Inr (V_bool (f64_less a b))"
| "fold_ff B_LESS_EQUAL a b = Inr (V_bool (f64_less_equal a b))"
| "fold_ff B_GREATER a b = Inr (V_bool (f64_less b a))"
| "fold_ff B_GREATER_EQUAL a b = Inr (V_bool (f64_less_equal b a))"
| "fold_ff B_EQUALS a b = Inr (V_bool (f64_eq a b))"
| "fold_ff B_IDENTICAL a b = Inr (V_bool (f64_eq a b))"
| "fold_ff B_NOT_EQUALS a b = Inr (V_bool (\<not> f64_eq a b))"
| "fold_ff B_NOT_IDENTICAL a b = Inr (V_bool (\<not> f64_eq a b))"
| "fold_ff _ a b = f_throw_not_supported"

fun fold_binary :: "binop \<Rightarrow> rt_operand \<Rightarrow> rt_operand \<Rightarrow> t_value result option" where
  "fold_binary op (R_INTEGER a) (R_INTEGER b) = Some (fold_ii op a b)"
| "fold_binary op (R_INTEGER a) (R_FLOAT b) = Some (fold_if op a b)"
| "fold_binary op (R_FLOAT a) (R_INTEGER b) = Some (fold_fi op a b)"
| "fold_binary op (R_FLOAT a) (R_FLOAT b) = Some (fold_ff op a b)"
| "fold_binary op _ _ = None"

text \<open>\<open>t_unary::f_emit\<close> on a number literal.\<close>

fun fold_unary :: "unop \<Rightarrow> rt_operand \<Rightarrow> t_value result option" where
  "fold_unary U_PLUS (R_INTEGER a) = Some (Inr (V_integer a))"
| "fold_unary U_MINUS (R_INTEGER a) = Some (Inr (V_integer (- a)))"
| "fold_unary U_NOT (R_INTEGER a) = Some (Inr (V_bool False))"
| "fold_unary U_COMPLEMENT (R_INTEGER a) = Some (Inr (V_integer (NOT a)))"
| "fold_unary U_PLUS (R_FLOAT a) = Some (Inr (V_float a))"
| "fold_unary U_MINUS (R_FLOAT a) = Some (Inr (V_float (f64_neg a)))"
| "fold_unary U_NOT (R_FLOAT a) = Some (Inr (V_bool False))"
| "fold_unary U_COMPLEMENT (R_FLOAT a) = Some f_throw_not_supported"
| "fold_unary op _ = None"

section \<open>Literals\<close>

text \<open>The values a literal operand can have: null, a truth value, or an object of a type that
  does not extend a primitive type (a string, a symbol, a built-in type).\<close>

definition is_literal :: "store \<Rightarrow> t_value \<Rightarrow> bool" where
  "is_literal st v =
     (case v of
        V_integer _ \<Rightarrow> False
      | V_float _ \<Rightarrow> False
      | V_object a \<Rightarrow> o_integer st a = None \<and> o_float st a = None
      | _ \<Rightarrow> True)"

fun well_formed :: "store \<Rightarrow> rt_operand \<Rightarrow> bool" where
  "well_formed st (R_LITERAL v) = is_literal st v"
| "well_formed st _ = True"

text \<open>The one combination in which the specialised encodings differ from the generic one: a bitwise
  operator with a truth value on the left and a number literal on the right.\<close>

definition bitwise_gap :: "binop \<Rightarrow> rt_operand \<Rightarrow> rt_operand \<Rightarrow> bool" where
  "bitwise_gap op l r \<longleftrightarrow>
     op_kind op = K_BITWISE \<and> (rt_value l = V_false \<or> rt_value l = V_true) \<and> is_number r"

section \<open>The specialised encodings implement the generic one\<close>

lemmas operator_defs = binary_XX_def binary_LX_def binary_XL_def binary_LN_def binary_XI_def
  binary_XF_def binary_IL_def binary_IX_def binary_FL_def binary_FX_def

lemmas fragment_defs = object_or_throw_def object_or_false_def arithmetic_integer_def
  f_binary_arithmetic_def f_binary_integral_def f_binary_equality_i_def f_binary_equality_f_def
  derived_or_throw_i_def derived_or_throw_f_def derived_or_false_i_def derived_or_false_f_def
  derived_integer_def derived_float_def same_p_def f_equal_def prim_def f_throw_not_supported_def
  c_tag_defs

lemma binary_LX_XX:
  "is_literal st a \<Longrightarrow> binary_LX st op a b = binary_XX st op a b"
  by (cases a) (auto simp: operator_defs is_literal_def fragment_defs split: op_family.split)

lemma binary_XL_XX:
  "is_literal st b \<Longrightarrow> binary_XL st op a b = binary_XX st op a b"
  by (cases a; cases b) (auto simp: operator_defs is_literal_def fragment_defs split: op_family.split)

lemma binary_LN_XX:
  assumes "is_literal st a" "\<not> bitwise_gap op (R_LITERAL a) r" "is_number r"
  shows "binary_LN st op a = binary_XX st op a (rt_value r)"
  using assms
  by (cases a; cases r)
    (auto simp: operator_defs is_literal_def fragment_defs bitwise_gap_def split: op_family.split)

lemma binary_XI_XX:
  assumes "\<not> bitwise_gap op (R_VARIABLE a) (R_INTEGER b)"
  shows "binary_XI st op a b = binary_XX st op a (V_integer b)"
  using assms
  by (cases a; cases op) (auto simp: operator_defs fragment_defs bitwise_gap_def)

lemma binary_XF_XX:
  assumes "\<not> bitwise_gap op (R_VARIABLE a) (R_FLOAT b)"
  shows "binary_XF st op a b = binary_XX st op a (V_float b)"
  using assms
  by (cases a; cases op) (auto simp: operator_defs fragment_defs bitwise_gap_def)

lemma binary_IL_XX:
  "is_literal st b \<Longrightarrow> binary_IL st op a b = binary_XX st op (V_integer a) b"
  by (cases b) (auto simp: operator_defs is_literal_def fragment_defs split: op_family.split)

lemma binary_IX_XX: "binary_IX st op a b = binary_XX st op (V_integer a) b"
  by (auto simp: operator_defs split: op_family.split)

lemma binary_FL_XX:
  "is_literal st b \<Longrightarrow> binary_FL st op a b = binary_XX st op (V_float a) b"
  by (cases b) (auto simp: operator_defs is_literal_def fragment_defs split: op_family.split)

lemma binary_FX_XX: "binary_FX st op a b = binary_XX st op (V_float a) b"
  by (auto simp: operator_defs fragment_defs split: op_family.split)

lemma bitwise_gap_variable:
  "bitwise_gap op l r = bitwise_gap op (R_VARIABLE (rt_value l)) r"
  by (simp add: bitwise_gap_def)

lemmas encoding_XX = binary_LX_XX binary_XL_XX binary_LN_XX binary_XI_XX binary_XF_XX binary_IL_XX
  binary_IX_XX binary_FL_XX binary_FX_XX

lemma select_XX:
  assumes "well_formed st l" "well_formed st r" "\<not> bitwise_gap op l r"
  shows "select st op l r = binary_XX st op (rt_value l) (rt_value r)"
  using assms
  by (cases l; cases r) (simp_all add: encoding_XX bitwise_gap_variable[of op "R_TEMPORARY _"])

lemma fold_binary_XX:
  assumes "fold_binary op l r = Some res" "op \<noteq> B_MODULUS"
  shows "prim res = binary_XX st op (rt_value l) (rt_value r)"
  using assms
  by (cases l; cases r; cases op)
    (auto simp: binary_XX_def fragment_defs polarity_def object_or_throw_def)

lemma fold_unary_unary:
  assumes "fold_unary op l = Some res"
  shows "prim res = unary op (rt_value l)"
  using assms
  by (cases l; cases op) (auto simp: unary_def prim_def object_or_throw_def f_throw_not_supported_def f_boolean_def c_tag_defs)

section \<open>Properties\<close>

text \<open>C5: every specialised operand encoding computes what the generic instruction computes on the
  values of the operands, whatever the operator, except where \<^const>\<open>bitwise_gap\<close> holds.\<close>

theorem select_generic:
  assumes "well_formed st l" "well_formed st r" "\<not> bitwise_gap op l r"
  shows "select st op l r = binary_XX st op (rt_value l) (rt_value r)"
  using assms by (rule select_XX)

theorem select_generic_witness:
  "select \<lparr>o_integer = \<lambda>_. None, o_float = \<lambda>_. None\<rparr> B_ADD (R_LITERAL (V_object 0)) (R_INTEGER 1) =
     binary_XX \<lparr>o_integer = \<lambda>_. None, o_float = \<lambda>_. None\<rparr> B_ADD (V_object 0) (V_integer 1)"
  using select_generic[of "\<lparr>o_integer = \<lambda>_. None, o_float = \<lambda>_. None\<rparr>" "R_LITERAL (V_object 0)" "R_INTEGER 1" B_ADD]
  by (simp add: is_literal_def bitwise_gap_def)


text \<open>C6: the value that replaces an expression on two number literals is the value the generic
  instruction would have computed, errors included, for every operator but the modulus.\<close>

theorem fold_binary_generic:
  assumes "fold_binary op l r = Some res" "op \<noteq> B_MODULUS"
  shows "prim res = binary_XX st op (rt_value l) (rt_value r)"
  using assms by (rule fold_binary_XX)

theorem fold_binary_generic_witness:
  "prim (Inr (V_integer 7)) =
     binary_XX \<lparr>o_integer = \<lambda>_. None, o_float = \<lambda>_. None\<rparr> B_ADD (V_integer 3) (V_integer 4)"
  using fold_binary_generic[of B_ADD "R_INTEGER 3" "R_INTEGER 4" "Inr (V_integer 7)"] by simp

text \<open>C21: folding of the modulus agrees with the generic instruction on operands that are not
  negative.\<close>

theorem fold_modulus_nonnegative:
  assumes "0 \<le> sint a" "0 \<le> sint b"
  shows "prim (fold_ii B_MODULUS a b) = binary_XX st B_MODULUS (V_integer a) (V_integer b)"
proof -
  have ua: "sint a = uint a" and ub: "sint b = uint b"
    using assms by (simp_all add: sint_eq_uint_nonneg)
  have "sint a smod sint b = uint (a mod b)"
    using assms by (cases "a = 0") (simp_all add: ua ub uint_mod signed_modulo_int_def)
  moreover have "\<not> sint b = - 1"
    using assms(2) by simp
  ultimately show ?thesis
    by (simp add: s_modulus_def u_modulus_def binary_XX_def f_binary_integral_def)
qed

theorem fold_modulus_nonnegative_witness:
  "prim (fold_ii B_MODULUS 10 9) =
     binary_XX \<lparr>o_integer = \<lambda>_. None, o_float = \<lambda>_. None\<rparr> B_MODULUS (V_integer 10) (V_integer 9)"
  using fold_modulus_nonnegative[of 10 9] by simp


text \<open>C19: the folding of a unary operator on a number literal yields what the instruction computes on the
  number, errors included.\<close>

theorem fold_unary_generic:
  assumes "fold_unary op l = Some res"
  shows "prim res = unary op (rt_value l)"
  using assms by (rule fold_unary_unary)

theorem fold_unary_generic_witness:
  "prim (Inr (V_integer (NOT 5))) = unary U_COMPLEMENT (V_integer 5)"
  using fold_unary_generic[of U_COMPLEMENT "R_INTEGER 5" "Inr (V_integer (NOT 5))"] by simp

text \<open>C20: the equality operators of the C++ interface (\<open>t_value::f_equals\<close>, \<open>f_not_equals\<close>) and the
  comparison instructions give the same answer on every pair of values whose left one is not an
  object.\<close>

theorem interface_equality_agrees:
  assumes "op = B_EQUALS \<or> op = B_NOT_EQUALS" "f_tag a0 < c_tag__OBJECT"
  shows "value_binary st op a0 a1 = binary_XX st op a0 a1"
  using assms
  by (cases a0; cases a1)
    (auto simp: value_binary_def binary_XX_def fragment_defs polarity_def intptr_equals_def intptr_not_equals_def
      double_equals_def double_not_equals_def double_as_def split: option.splits)

theorem interface_equality_agrees_witness:
  "value_binary \<lparr>o_integer = \<lambda>_. None, o_float = \<lambda>_. None\<rparr> B_EQUALS (V_integer 3) (V_float (f64_of_int 3)) =
   binary_XX \<lparr>o_integer = \<lambda>_. None, o_float = \<lambda>_. None\<rparr> B_EQUALS (V_integer 3) (V_float (f64_of_int 3))"
  using interface_equality_agrees[of B_EQUALS "V_integer 3"] by (simp add: c_tag_defs)

end
