(* ===== verification/Xm_List.thy ===== *)
theory Xm_List
  imports Xm_Value
begin

text \<open>
  The built-in list (src/include/xemmai/list.h, src/src/list.cc): a ring buffer in a tuple that
  grows and shrinks with its contents.  \<open>t_list\<close> is the object's state, one definition follows
  each member function, and the loops of \<open>f_resize\<close>, \<open>f_move_forward\<close> and \<open>f_move_backward\<close> are
  recursive functions over the array.  \<open>list_rep l xs\<close> says that the buffer holds the sequence
  \<open>xs\<close> and that every cell outside the window is null (a removed element is never kept alive).
  The properties show that each operation refines the operation on sequences.

  Sizes and capacities are natural numbers: they count cells of allocated memory and stay far below
  \<open>2\<^sup>6\<^sup>4\<close>.  Indices and pointer offsets are integers, because \<open>f_insert\<close> forms an offset below the
  start of the array.
\<close>

section \<open>Layout of objects\<close>

text \<open>\<open>sizeof(t_object)\<close> and \<open>offsetof(t_object, v_data)\<close> on a 64-bit target
  (src/include/xemmai/object.h), and the conversions between capacities and sizes.\<close>

definition sizeof_t_object :: nat where "sizeof_t_object = 128"
definition offsetof_v_data :: nat where "offsetof_v_data = 72"

definition f_align_for_fields :: "nat \<Rightarrow> nat" where
  "f_align_for_fields a_native = (a_native + 8 - 1) div 8 * 8"

definition f_fields_offset :: "nat \<Rightarrow> nat" where
  "f_fields_offset a_native = offsetof_v_data + f_align_for_fields a_native"

definition f_capacity_to_size :: "nat \<Rightarrow> nat \<Rightarrow> nat \<Rightarrow> nat" where
  "f_capacity_to_size sizeof_object sizeof_element a_size =
     (f_fields_offset sizeof_object + a_size * sizeof_element + sizeof_t_object - 1)
       div sizeof_t_object * sizeof_t_object"

definition f_size_to_capacity :: "nat \<Rightarrow> nat \<Rightarrow> nat \<Rightarrow> nat" where
  "f_size_to_capacity sizeof_object sizeof_element a_size =
     (a_size - f_fields_offset sizeof_object) div sizeof_element"

lemmas layout_defs = sizeof_t_object_def offsetof_v_data_def f_align_for_fields_def
  f_fields_offset_def f_capacity_to_size_def f_size_to_capacity_def

text \<open>The two instances \<open>f_list_*\<close> use: \<open><t_tuple, t_slot>\<close>, a header and elements of 8 bytes.\<close>

abbreviation tuple_capacity_to_size :: "nat \<Rightarrow> nat" where
  "tuple_capacity_to_size \<equiv> f_capacity_to_size 8 8"

abbreviation tuple_size_to_capacity :: "nat \<Rightarrow> nat" where
  "tuple_size_to_capacity \<equiv> f_size_to_capacity 8 8"

section \<open>State and operations\<close>

record t_list =
  v_tuple :: "t_value list option"
  v_head :: nat
  v_size :: nat
  v_grow :: nat
  v_shrink :: nat

definition t_list_new :: t_list where
  "t_list_new = \<lparr>v_tuple = None, v_head = 0, v_size = 0, v_grow = 0, v_shrink = 0\<rparr>"

function f_move_forward :: "t_value list \<Rightarrow> int \<Rightarrow> int \<Rightarrow> t_value list \<times> int" where
  "f_move_forward xs a_p a_q =
     (if a_p < a_q then f_move_forward (xs[nat a_q := xs ! nat (a_q - 1)]) a_p (a_q - 1)
      else (xs, a_q))"
  by pat_completeness auto
termination
  by (relation "measure (\<lambda>(xs, p, q). nat (q - p))") auto

function f_move_backward :: "t_value list \<Rightarrow> int \<Rightarrow> int \<Rightarrow> t_value list \<times> int" where
  "f_move_backward xs a_p a_q =
     (if a_p < a_q then f_move_backward (xs[nat a_p := xs ! nat (a_p + 1)]) (a_p + 1) a_q
      else (xs, a_p))"
  by pat_completeness auto
termination
  by (relation "measure (\<lambda>(xs, p, q). nat (q - p))") auto

declare f_move_forward.simps [simp del] f_move_backward.simps [simp del]

text \<open>\<open>*f_move_forward(...) = v\<close>: a store through the pointer a block move returns; the stored value is
  read after the move.\<close>

definition store_at :: "t_value list \<times> int \<Rightarrow> (t_value list \<Rightarrow> t_value) \<Rightarrow> t_value list" where
  "store_at r v = (fst r)[nat (snd r) := v (fst r)]"

text \<open>The three copying loops of \<open>f_resize\<close>.\<close>

function resize_wrap :: "t_value list \<Rightarrow> nat \<Rightarrow> nat \<Rightarrow> t_value list \<Rightarrow> t_value list" where
  "resize_wrap tuple0 n head acc =
     (let acc' = acc @ [tuple0 ! head]
      in if Suc head < n then resize_wrap tuple0 n (Suc head) acc' else acc')"
  by pat_completeness auto
termination
  by (relation "measure (\<lambda>(tuple0, n, head, acc). n - head)") auto

function resize_copy :: "t_value list \<Rightarrow> nat \<Rightarrow> nat \<Rightarrow> t_value list \<Rightarrow> t_value list" where
  "resize_copy tuple0 a_size head acc =
     (let acc' = acc @ [tuple0 ! head]
      in if length acc' < a_size then resize_copy tuple0 a_size (Suc head) acc' else acc')"
  by pat_completeness auto
termination
  by (relation "measure (\<lambda>(tuple0, a_size, head, acc). a_size - length acc)") auto

function resize_fill :: "nat \<Rightarrow> t_value list \<Rightarrow> t_value list" where
  "resize_fill grow acc =
     (let acc' = acc @ [V_null] in if length acc' < grow then resize_fill grow acc' else acc')"
  by pat_completeness auto
termination
  by (relation "measure (\<lambda>(grow, acc). grow - length acc)") auto

declare resize_wrap.simps [simp del] resize_copy.simps [simp del] resize_fill.simps [simp del]

definition t_list_f_resize :: "t_list \<Rightarrow> t_list" where
  "t_list_f_resize l =
     (let bytes = tuple_capacity_to_size (v_size l);
          grow = tuple_size_to_capacity (bytes * 2);
          shrink = (if bytes < sizeof_t_object * 2 then 0 else tuple_size_to_capacity (bytes div 2));
          tuple0 = the (v_tuple l);
          n = length tuple0;
          (part, head) = (if n < v_head l + v_size l then (resize_wrap tuple0 n (v_head l) [], 0)
                          else ([], v_head l));
          copied = resize_copy tuple0 (v_size l) head part
      in l\<lparr>v_tuple := Some (resize_fill grow copied), v_head := 0, v_grow := grow, v_shrink := shrink\<rparr>)"

definition t_list_f_grow :: "t_list \<Rightarrow> t_list" where
  "t_list_f_grow l =
     (if v_size l = 0
      then let grow = tuple_size_to_capacity sizeof_t_object
           in l\<lparr>v_grow := grow, v_tuple := Some (replicate grow V_null)\<rparr>
      else t_list_f_resize l)"

definition t_list_f_shrink :: "t_list \<Rightarrow> t_list" where
  "t_list_f_shrink l =
     (if v_size l = 0 then l\<lparr>v_tuple := None, v_head := 0, v_grow := 0\<rparr> else t_list_f_resize l)"

definition t_list_f_validate :: "t_list \<Rightarrow> int \<Rightarrow> int result" where
  "t_list_f_validate l a_index =
     (if a_index < 0
      then let i = a_index + int (v_size l) in if i < 0 then f_throw_out_of_range else Inr i
      else if int (v_size l) \<le> a_index then f_throw_out_of_range else Inr a_index)"

text \<open>The cell \<open>f_at\<close> refers to.\<close>

definition t_list_f_at :: "t_list \<Rightarrow> nat \<Rightarrow> nat" where
  "t_list_f_at l a_index =
     (let i = a_index + v_head l; n = length (the (v_tuple l)) in if i < n then i else i - n)"

definition t_list_cell :: "t_list \<Rightarrow> nat \<Rightarrow> t_value" where
  "t_list_cell l p = the (v_tuple l) ! p"

definition t_list_put :: "nat \<Rightarrow> t_value \<Rightarrow> t_list \<Rightarrow> t_list" where
  "t_list_put p v l = l\<lparr>v_tuple := Some ((the (v_tuple l))[p := v])\<rparr>"

definition t_list_f_clear :: "t_list \<Rightarrow> t_list" where
  "t_list_f_clear l = l\<lparr>v_tuple := None, v_head := 0, v_size := 0, v_grow := 0, v_shrink := 0\<rparr>"

definition t_list_f_size :: "t_list \<Rightarrow> nat" where
  "t_list_f_size l = v_size l"

text \<open>\<open>operator[]\<close> as a read (\<open>__get_at\<close>) and as a write (\<open>__set_at\<close>).\<close>

definition t_list_get_at :: "t_list \<Rightarrow> int \<Rightarrow> t_value result" where
  "t_list_get_at l a_index =
     bind_result (t_list_f_validate l a_index) (\<lambda>i. Inr (t_list_cell l (t_list_f_at l (nat i))))"

definition t_list_set_at :: "t_list \<Rightarrow> int \<Rightarrow> t_value \<Rightarrow> t_list result" where
  "t_list_set_at l a_index a_value =
     bind_result (t_list_f_validate l a_index) (\<lambda>i. Inr (t_list_put (t_list_f_at l (nat i)) a_value l))"

definition t_list_f_push :: "t_value \<Rightarrow> t_list \<Rightarrow> t_list" where
  "t_list_f_push a_value l0 =
     (let l = (if v_grow l0 \<le> v_size l0 then t_list_f_grow l0 else l0)
      in (t_list_put (t_list_f_at l (v_size l)) a_value l)\<lparr>v_size := Suc (v_size l)\<rparr>)"

definition t_list_f_pop :: "t_list \<Rightarrow> (t_value \<times> t_list) result" where
  "t_list_f_pop l0 =
     (if v_size l0 = 0 then Inl (Thrown ''empty list.'')
      else let l = l0\<lparr>v_size := v_size l0 - 1\<rparr>;
               x = t_list_f_at l (v_size l);
               p = t_list_cell l x;
               l' = t_list_put x V_null l
           in Inr (p, if v_size l' \<le> v_shrink l' then t_list_f_shrink l' else l'))"

definition t_list_f_unshift :: "t_value \<Rightarrow> t_list \<Rightarrow> t_list" where
  "t_list_f_unshift a_value l0 =
     (let l = (if v_grow l0 \<le> v_size l0 then t_list_f_grow l0 else l0);
          head = (if 0 < v_head l then v_head l else length (the (v_tuple l))) - 1
      in (t_list_put head a_value (l\<lparr>v_head := head\<rparr>))\<lparr>v_size := Suc (v_size l)\<rparr>)"

definition t_list_f_shift :: "t_list \<Rightarrow> (t_value \<times> t_list) result" where
  "t_list_f_shift l =
     (if v_size l = 0 then Inl (Thrown ''empty list.'')
      else let p = t_list_cell l (v_head l);
               l' = t_list_put (v_head l) V_null l;
               head = Suc (v_head l');
               l'' = l'\<lparr>v_head := (if length (the (v_tuple l')) \<le> head then 0 else head), v_size := v_size l' - 1\<rparr>
           in Inr (p, if v_size l'' \<le> v_shrink l'' then t_list_f_shrink l'' else l''))"

text \<open>\<open>f_insert\<close>, after \<open>f_validate\<close> and \<open>f_grow\<close>: the array and the head it leaves.  \<open>i\<close> and \<open>j\<close> are
  the unwrapped positions of the index and of the end.\<close>

definition insert_move :: "t_value list \<Rightarrow> int \<Rightarrow> int \<Rightarrow> int \<Rightarrow> t_value \<Rightarrow> t_value list \<times> int" where
  "insert_move p head a_size a_index a_value =
     (let i = head + a_index; j = head + a_size; n = int (length p)
      in if a_index < a_size - a_index then
           (if n < i then
              let p1 = store_at (f_move_backward p (head - 1) (n - 1)) (\<lambda>q. q ! 0)
              in (store_at (f_move_backward p1 0 (i - 1 - n)) (\<lambda>_. a_value), head - 1)
            else if 0 < head then
              (store_at (f_move_backward p (head - 1) (i - 1)) (\<lambda>_. a_value), head - 1)
            else
              let p1 = p[nat (n - 1) := p ! 0]
              in (store_at (f_move_backward p1 0 (i - 1)) (\<lambda>_. a_value), n - 1))
         else
           (if n \<le> i then
              (store_at (f_move_forward p (i - n) (j - n)) (\<lambda>_. a_value), head)
            else if n \<le> j then
              let p1 = store_at (f_move_forward p 0 (j - n)) (\<lambda>q. q ! nat (n - 1))
              in (store_at (f_move_forward p1 i (n - 1)) (\<lambda>_. a_value), head)
            else
              (store_at (f_move_forward p i j) (\<lambda>_. a_value), head)))"

definition t_list_f_insert :: "int \<Rightarrow> t_value \<Rightarrow> t_list \<Rightarrow> t_list result" where
  "t_list_f_insert a_index0 a_value l0 =
     (if a_index0 = int (v_size l0) then Inr (t_list_f_push a_value l0)
      else if a_index0 = 0 then Inr (t_list_f_unshift a_value l0)
      else bind_result (t_list_f_validate l0 a_index0) (\<lambda>a_index.
        let l = (if v_grow l0 \<le> v_size l0 then t_list_f_grow l0 else l0);
            (p, head) = insert_move (the (v_tuple l)) (int (v_head l)) (int (v_size l)) a_index a_value
        in Inr (l\<lparr>v_tuple := Some p, v_head := nat head, v_size := Suc (v_size l)\<rparr>)))"

text \<open>\<open>f_remove\<close>, after \<open>f_validate\<close>: the array and the head it leaves.\<close>

definition remove_move :: "t_value list \<Rightarrow> int \<Rightarrow> int \<Rightarrow> int \<Rightarrow> t_value list \<times> int" where
  "remove_move p head a_size a_index =
     (let i = head + a_index; j = head + a_size; n = int (length p)
      in if a_index < a_size - a_index then
           (let p' = (if n \<le> i then
                        let p1 = store_at (f_move_forward p 0 (i - n)) (\<lambda>q. q ! nat (n - 1))
                        in store_at (f_move_forward p1 head (n - 1)) (\<lambda>_. V_null)
                      else store_at (f_move_forward p head i) (\<lambda>_. V_null))
            in (p', if n \<le> head + 1 then 0 else head + 1))
         else
           (if n \<le> i then
              (store_at (f_move_backward p (i - n) (j - 1 - n)) (\<lambda>_. V_null), head)
            else if n < j then
              let p1 = store_at (f_move_backward p i (n - 1)) (\<lambda>q. q ! 0)
              in (store_at (f_move_backward p1 0 (j - 1 - n)) (\<lambda>_. V_null), head)
            else
              (store_at (f_move_backward p i (j - 1)) (\<lambda>_. V_null), head)))"

definition t_list_f_remove :: "int \<Rightarrow> t_list \<Rightarrow> (t_value \<times> t_list) result" where
  "t_list_f_remove a_index0 l =
     bind_result (t_list_f_validate l a_index0) (\<lambda>a_index.
       let q = t_list_cell l (t_list_f_at l (nat a_index));
           (p, head) = remove_move (the (v_tuple l)) (int (v_head l)) (int (v_size l)) a_index;
           l' = l\<lparr>v_tuple := Some p, v_head := nat head, v_size := v_size l - 1\<rparr>
       in Inr (q, if v_size l' \<le> v_shrink l' then t_list_f_shrink l' else l'))"

text \<open>\<open>f_do_construct\<close>: the arguments are pushed in order.\<close>

definition t_list_f_do_construct :: "t_value list \<Rightarrow> t_list" where
  "t_list_f_do_construct args = fold t_list_f_push args t_list_new"

text \<open>\<open>sort\<close>: the tuple is detached, rotated when the window wraps, its window sorted and the tuple
  put back.  \<open>sort_range\<close> stands for \<open>std::sort\<close> with the callable \<open>a_less\<close>, which the C++ standard
  specifies only up to the order of equivalent elements; the list is empty while the callable runs.\<close>

definition std_rotate :: "nat \<Rightarrow> 'a list \<Rightarrow> 'a list" where
  "std_rotate m p = drop m p @ take m p"

definition t_list_f_sort :: "(t_value list \<Rightarrow> t_value list) \<Rightarrow> t_list \<Rightarrow> t_list" where
  "t_list_f_sort sort_range l =
     (case v_tuple l of
        None \<Rightarrow> t_list_new
      | Some tuple0 \<Rightarrow>
          let (p, head) = (if length tuple0 < v_head l + v_size l then (std_rotate (v_head l) tuple0, 0)
                           else (tuple0, v_head l));
              sorted = take head p @ sort_range (take (v_size l) (drop head p)) @ drop (head + v_size l) p
          in \<lparr>v_tuple = Some sorted, v_head = head, v_size = v_size l, v_grow = v_grow l, v_shrink = v_shrink l\<rparr>)"

section \<open>Representation\<close>

definition ring :: "nat \<Rightarrow> t_value list \<Rightarrow> nat \<Rightarrow> t_value list \<Rightarrow> bool" where
  "ring n p head xs \<longleftrightarrow>
     length p = n \<and> head < n \<and> length xs \<le> n \<and>
     (\<forall>i < n. p ! wrap n (head + i) = (if i < length xs then xs ! i else V_null))"

definition list_rep :: "t_list \<Rightarrow> t_value list \<Rightarrow> bool" where
  "list_rep l xs \<longleftrightarrow>
     v_size l = length xs \<and>
     (case v_tuple l of
        None \<Rightarrow> xs = [] \<and> v_head l = 0 \<and> v_grow l = 0 \<and> v_shrink l = 0
      | Some p \<Rightarrow> ring (v_grow l) p (v_head l) xs \<and> v_shrink l < length xs)"

section \<open>Loops\<close>

lemma f_move_forward_spec:
  assumes "p \<le> q" "q < length xs"
  shows "snd (f_move_forward xs (int p) (int q)) = int p
    \<and> length (fst (f_move_forward xs (int p) (int q))) = length xs
    \<and> (\<forall>k < length xs. fst (f_move_forward xs (int p) (int q)) ! k =
         (if p < k \<and> k \<le> q then xs ! (k - 1) else xs ! k))"
  using assms
proof (induction "q - p" arbitrary: q xs)
  case 0
  then show ?case by (auto simp: f_move_forward.simps)
next
  case (Suc d)
  then have q: "p < q" by simp
  define ys where "ys = xs[q := xs ! (q - 1)]"
  have step: "f_move_forward xs (int p) (int q) = f_move_forward ys (int p) (int (q - 1))"
    using q by (subst f_move_forward.simps) (simp add: ys_def of_nat_diff nat_diff_distrib')
  have "snd (f_move_forward ys (int p) (int (q - 1))) = int p
    \<and> length (fst (f_move_forward ys (int p) (int (q - 1)))) = length ys
    \<and> (\<forall>k < length ys. fst (f_move_forward ys (int p) (int (q - 1))) ! k =
         (if p < k \<and> k \<le> q - 1 then ys ! (k - 1) else ys ! k))"
    using Suc q by (intro Suc.hyps) (auto simp: ys_def)
  then show ?case
    unfolding step using Suc.prems q by (auto simp: ys_def nth_list_update)
qed

lemma f_move_backward_spec:
  assumes "p \<le> q" "q < length xs"
  shows "snd (f_move_backward xs (int p) (int q)) = int q
    \<and> length (fst (f_move_backward xs (int p) (int q))) = length xs
    \<and> (\<forall>k < length xs. fst (f_move_backward xs (int p) (int q)) ! k =
         (if p \<le> k \<and> k < q then xs ! (k + 1) else xs ! k))"
  using assms
proof (induction "q - p" arbitrary: p xs)
  case 0
  then show ?case by (auto simp: f_move_backward.simps)
next
  case (Suc d)
  then have q: "p < q" by simp
  define ys where "ys = xs[p := xs ! (p + 1)]"
  have step: "f_move_backward xs (int p) (int q) = f_move_backward ys (int (p + 1)) (int q)"
    using q by (subst f_move_backward.simps) (simp add: ys_def nat_add_distrib add.commute)
  have "snd (f_move_backward ys (int (p + 1)) (int q)) = int q
    \<and> length (fst (f_move_backward ys (int (p + 1)) (int q))) = length ys
    \<and> (\<forall>k < length ys. fst (f_move_backward ys (int (p + 1)) (int q)) ! k =
         (if p + 1 \<le> k \<and> k < q then ys ! (k + 1) else ys ! k))"
    using Suc q by (intro Suc.hyps) (auto simp: ys_def)
  moreover have "(if p + 1 \<le> k \<and> k < q then ys ! (k + 1) else ys ! k) =
      (if p \<le> k \<and> k < q then xs ! (k + 1) else xs ! k)" if "k < length xs" for k
    using that Suc.prems q by (cases "k = p") (auto simp: ys_def nth_list_update)
  ultimately show ?case
    unfolding step by (simp add: ys_def)
qed

text \<open>The array a store through the result of a block move leaves, cell by cell.\<close>

lemma store_forward [xm_array]:
  assumes "p \<le> q" "q < length xs"
  shows "length (store_at (f_move_forward xs (int p) (int q)) v) = length xs"
    and "k < length xs \<Longrightarrow> store_at (f_move_forward xs (int p) (int q)) v ! k =
      (if k = p then v (fst (f_move_forward xs (int p) (int q)))
       else if p < k \<and> k \<le> q then xs ! (k - 1) else xs ! k)"
  using f_move_forward_spec[OF assms] assms by (auto simp: store_at_def nth_list_update)

lemma store_backward [xm_array]:
  assumes "p \<le> q" "q < length xs"
  shows "length (store_at (f_move_backward xs (int p) (int q)) v) = length xs"
    and "k < length xs \<Longrightarrow> store_at (f_move_backward xs (int p) (int q)) v ! k =
      (if k = q then v (fst (f_move_backward xs (int p) (int q)))
       else if p \<le> k \<and> k < q then xs ! (k + 1) else xs ! k)"
  using f_move_backward_spec[OF assms] assms by (auto simp: store_at_def nth_list_update)

lemma resize_wrap_eq:
  "head < n \<Longrightarrow> n = length tuple0 \<Longrightarrow> resize_wrap tuple0 n head acc = acc @ drop head tuple0"
proof (induction tuple0 n head acc rule: resize_wrap.induct)
  case (1 tuple0 n head acc)
  then show ?case
    by (subst resize_wrap.simps) (auto simp: Let_def Cons_nth_drop_Suc[symmetric] not_less
        intro!: Suc_leI)
qed

lemma resize_copy_eq:
  "length acc < a_size \<Longrightarrow> head + (a_size - length acc) \<le> length tuple0 \<Longrightarrow>
   resize_copy tuple0 a_size head acc = acc @ take (a_size - length acc) (drop head tuple0)"
proof (induction tuple0 a_size head acc rule: resize_copy.induct)
  case (1 tuple0 a_size head acc)
  obtain m where m: "a_size - length acc = Suc m"
    using "1.prems"(1) by (cases "a_size - length acc") auto
  have d: "drop head tuple0 = tuple0 ! head # drop (Suc head) tuple0"
    using "1.prems" m by (intro Cons_nth_drop_Suc[symmetric]) simp
  have "a_size - length (acc @ [tuple0 ! head]) = m" using m by simp
  then show ?case
    using "1.IH"[OF refl] "1.prems" m by (subst resize_copy.simps) (auto simp: Let_def d)
qed

lemma resize_fill_eq:
  "length acc < grow \<Longrightarrow> resize_fill grow acc = acc @ replicate (grow - length acc) V_null"
proof (induction grow acc rule: resize_fill.induct)
  case (1 grow acc)
  obtain m where m: "grow - length acc = Suc m"
    using "1.prems"(1) by (cases "grow - length acc") auto
  have "grow - length (acc @ [V_null]) = m" using m by simp
  then show ?case
    using "1.IH"[OF refl] "1.prems" m by (subst resize_fill.simps) (auto simp: Let_def)
qed

section \<open>The ring\<close>

lemma ringD:
  assumes "ring n p head xs"
  shows "length p = n" "head < n" "length xs \<le> n"
    "\<And>i. i < length xs \<Longrightarrow> p ! wrap n (head + i) = xs ! i"
    "\<And>i. i < n \<Longrightarrow> length xs \<le> i \<Longrightarrow> p ! wrap n (head + i) = V_null"
  using assms by (auto simp: ring_def)

text \<open>The cell at an absolute position, as an element of the sequence.\<close>

lemma ring_cell:
  assumes "ring n p head xs" "k < n"
  shows "p ! k =
    (let i = (if head \<le> k then k - head else k + n - head) in if i < length xs then xs ! i else V_null)"
proof -
  define i where "i = (if head \<le> k then k - head else k + n - head)"
  have "i < n" "wrap n (head + i) = k"
    using assms by (auto simp: i_def ring_def wrap_def)
  then show ?thesis
    using assms(1) by (auto simp: ring_def Let_def simp flip: i_def)
qed

lemma ring_intro:
  assumes "length p = n" "head < n" "length xs \<le> n"
    and "\<And>k. k < n \<Longrightarrow> p ! k =
      (if head \<le> k then (if k - head < length xs then xs ! (k - head) else V_null)
       else if k + n - head < length xs then xs ! (k + n - head) else V_null)"
  shows "ring n p head xs"
  unfolding ring_def
proof (intro conjI allI impI)
  fix i assume i: "i < n"
  show "p ! wrap n (head + i) = (if i < length xs then xs ! i else V_null)"
    using assms(2) i by (subst assms(4)) (auto simp: wrap_def)
qed (use assms in auto)

lemma ring_zero:
  assumes "length xs \<le> n" "0 < n"
  shows "ring n (xs @ replicate (n - length xs) V_null) 0 xs"
  using assms by (auto simp: ring_def wrap_def nth_append)

lemma ring_contents:
  assumes "ring n p head xs" "n < head + length xs"
  shows "drop head p @ take (length xs - (n - head)) p = xs"
proof (rule nth_equalityI)
  show "length (drop head p @ take (length xs - (n - head)) p) = length xs"
    using assms by (auto simp: ring_def)
  fix i assume "i < length (drop head p @ take (length xs - (n - head)) p)"
  then have i: "i < length xs"
    using assms by (auto simp: ring_def)
  have "xs ! i = p ! wrap n (head + i)" "length p = n" "head < n" "length xs \<le> n"
    using ringD[OF assms(1)] i by simp_all
  then show "(drop head p @ take (length xs - (n - head)) p) ! i = xs ! i"
    using i assms(2) by (cases "i < n - head") (auto simp: nth_append wrap_def algebra_simps)
qed

lemma ring_contents_straight:
  assumes "ring n p head xs" "head + length xs \<le> n"
  shows "take (length xs) (drop head p) = xs"
proof (rule nth_equalityI)
  show "length (take (length xs) (drop head p)) = length xs"
    using assms by (auto simp: ring_def)
  fix i assume "i < length (take (length xs) (drop head p))"
  then have i: "i < length xs" by simp
  show "take (length xs) (drop head p) ! i = xs ! i"
    using i assms ringD[OF assms(1)] ringD(4)[OF assms(1) i] by (auto simp: wrap_def)
qed

section \<open>Growing and shrinking\<close>

lemma capacity_bounds:
  assumes "0 < m"
  shows "m < tuple_size_to_capacity (tuple_capacity_to_size m * 2)"
    and "sizeof_t_object * 2 \<le> tuple_capacity_to_size m \<Longrightarrow>
      tuple_size_to_capacity (tuple_capacity_to_size m div 2) < m"
proof -
  define k where "k = (80 + m * 8 + 127) div 128"
  have c: "tuple_capacity_to_size m = k * 128"
    by (simp add: layout_defs k_def)
  have k: "80 + m * 8 \<le> k * 128" "k * 128 \<le> 80 + m * 8 + 127"
    by (auto simp: k_def)
  show "m < tuple_size_to_capacity (tuple_capacity_to_size m * 2)"
    unfolding c using k by (simp add: layout_defs)
  show "tuple_size_to_capacity (tuple_capacity_to_size m div 2) < m"
    if "sizeof_t_object * 2 \<le> tuple_capacity_to_size m"
    using that k assms unfolding c by (simp add: layout_defs)
qed

lemma resize_rep:
  assumes "v_tuple l = Some p" "ring n p (v_head l) xs" "v_size l = length xs" "xs \<noteq> []"
  shows "list_rep (t_list_f_resize l) xs" "length xs < v_grow (t_list_f_resize l)"
proof -
  define bytes where "bytes = tuple_capacity_to_size (length xs)"
  define grow where "grow = tuple_size_to_capacity (bytes * 2)"
  define shrink where "shrink = (if bytes < sizeof_t_object * 2 then 0 else tuple_size_to_capacity (bytes div 2))"
  have g: "length xs < grow" and s: "shrink < length xs"
    using capacity_bounds[of "length xs"] assms(4) by (auto simp: grow_def shrink_def bytes_def)
  have r: "t_list_f_resize l =
      l\<lparr>v_tuple := Some (resize_fill grow xs), v_head := 0, v_grow := grow, v_shrink := shrink\<rparr>"
  proof (cases "n < v_head l + length xs")
    case True
    then have "resize_wrap p n (v_head l) [] = drop (v_head l) p"
      using ringD[OF assms(2)] by (simp add: resize_wrap_eq)
    moreover have "resize_copy p (length xs) 0 (drop (v_head l) p) = xs"
      using True ringD[OF assms(2)] ring_contents[OF assms(2) True] by (simp add: resize_copy_eq)
    ultimately show ?thesis
      using True ringD(1)[OF assms(2)] assms
      by (simp add: t_list_f_resize_def Let_def bytes_def grow_def shrink_def)
  next
    case False
    then have "resize_copy p (length xs) (v_head l) [] = xs"
      using ringD[OF assms(2)] ring_contents_straight[OF assms(2)] assms(4) by (simp add: resize_copy_eq)
    then show ?thesis
      using False ringD(1)[OF assms(2)] assms
      by (simp add: t_list_f_resize_def Let_def bytes_def grow_def shrink_def)
  qed
  show "list_rep (t_list_f_resize l) xs"
    using g s ring_zero[of xs grow] assms(3) by (simp add: r list_rep_def resize_fill_eq)
  show "length xs < v_grow (t_list_f_resize l)"
    using g by (simp add: r)
qed

text \<open>The state between \<open>f_grow\<close> and the store of the new element: room for one more.\<close>

definition list_room :: "t_list \<Rightarrow> t_value list \<Rightarrow> bool" where
  "list_room l xs \<longleftrightarrow>
     v_size l = length xs \<and> length xs < v_grow l \<and> v_shrink l \<le> length xs \<and>
     (\<exists>p. v_tuple l = Some p \<and> ring (v_grow l) p (v_head l) xs)"

lemma grow_room:
  assumes "list_rep l xs"
  shows "list_room (if v_grow l \<le> v_size l then t_list_f_grow l else l) xs"
proof (cases "v_tuple l")
  case None
  then have "xs = []" "l = t_list_new"
    using assms by (auto simp: list_rep_def t_list_new_def)
  then show ?thesis
    using ring_zero[of "[]" 6]
    by (simp add: list_room_def t_list_f_grow_def t_list_new_def layout_defs)
next
  case (Some p)
  then have p: "ring (v_grow l) p (v_head l) xs" "v_size l = length xs" "v_shrink l < length xs"
    using assms by (auto simp: list_rep_def)
  show ?thesis
  proof (cases "v_grow l \<le> v_size l")
    case True
    have "xs \<noteq> []" using p(3) by auto
    then have "list_rep (t_list_f_resize l) xs" "length xs < v_grow (t_list_f_resize l)"
      using resize_rep[OF Some p(1,2)] by auto
    then show ?thesis
      using True \<open>xs \<noteq> []\<close> p(2)
      by (auto simp: list_room_def list_rep_def t_list_f_grow_def split: option.splits)
  next
    case False
    then show ?thesis using p Some by (auto simp: list_room_def)
  qed
qed

lemma shrink_rep:
  assumes "v_tuple l = Some p" "ring (v_grow l) p (v_head l) xs" "v_size l = length xs"
    and "v_shrink l \<le> length xs" "xs = [] \<Longrightarrow> v_shrink l = 0"
  shows "list_rep (if v_size l \<le> v_shrink l then t_list_f_shrink l else l) xs"
proof (cases "xs = []")
  case True
  then show ?thesis using assms by (simp add: list_rep_def t_list_f_shrink_def)
next
  case False
  then have "t_list_f_shrink l = t_list_f_resize l"
    using assms(3) by (simp add: t_list_f_shrink_def)
  then have "list_rep (t_list_f_shrink l) xs"
    using resize_rep(1)[OF assms(1,2,3) False] by simp
  moreover have "list_rep l xs" if "\<not> v_size l \<le> v_shrink l"
    using that assms by (simp add: list_rep_def)
  ultimately show ?thesis by simp
qed

section \<open>Block moves and single stores on the ring\<close>

text \<open>The cell a store at a relative position changes.\<close>

lemma ring_store:
  assumes "ring n p head xs" "j < n" "i < n"
  shows "p[wrap n (head + j) := v] ! wrap n (head + i) =
    (if i = j then v else if i < length xs then xs ! i else V_null)"
proof -
  have "wrap n (head + i) = wrap n (head + j) \<longleftrightarrow> i = j"
    using assms wrap_inj[of n head i j] ringD(2)[OF assms(1)] by auto
  moreover have "wrap n (head + j) < length p"
    using assms ringD[OF assms(1)] by (auto intro: wrap_less)
  moreover have "p ! wrap n (head + i) = (if i < length xs then xs ! i else V_null)"
    using assms by (simp add: ring_def)
  ultimately show ?thesis by (simp add: nth_list_update_if)
qed

lemma ring_push:
  assumes "ring n p head xs" "length xs < n"
  shows "ring n (p[wrap n (head + length xs) := v]) head (xs @ [v])"
  using assms ringD[OF assms(1)] by (auto simp: ring_def[of _ _ _ "xs @ [v]"] ring_store nth_append)

lemma ring_pop:
  assumes "ring n p head (xs @ [v])"
  shows "ring n (p[wrap n (head + length xs) := V_null]) head xs"
    and "p ! wrap n (head + length xs) = v"
proof -
  show "ring n (p[wrap n (head + length xs) := V_null]) head xs"
    using ringD[OF assms(1)] assms
    by (auto simp: ring_def[of _ _ _ xs] ring_store[OF assms] nth_append)
  show "p ! wrap n (head + length xs) = v"
    using ringD(4)[OF assms, of "length xs"] by simp
qed

lemma ring_update:
  assumes "ring n p head xs" "i < length xs"
  shows "ring n (p[wrap n (head + i) := v]) head (xs[i := v])"
  using assms ringD[OF assms(1)]
  by (auto simp: ring_def[of _ _ _ "xs[i := v]"] ring_store[OF assms(1)] nth_list_update)

text \<open>Moving the head by one cell: the last relative position of the one frame is the first of the
  other.\<close>

lemma ring_unshift:
  assumes "ring n p head xs" "length xs < n"
  shows "ring n (p[(if 0 < head then head else n) - 1 := v]) ((if 0 < head then head else n) - 1) (v # xs)"
proof -
  define h where "h = (if 0 < head then head else n) - 1"
  have n: "head < n" "length p = n" using ringD[OF assms(1)] by auto
  have h: "h = wrap n (head + (n - 1))" "h < n"
    using n by (auto simp: h_def wrap_def)
  have s: "wrap n (h + Suc i) = wrap n (head + i)" if "Suc i < n" for i
    using that n by (auto simp: h_def wrap_def)
  have "p[h := v] ! wrap n (h + i) = (if i < length (v # xs) then (v # xs) ! i else V_null)" if "i < n" for i
  proof (cases i)
    case 0
    then show ?thesis using h(2) n by (simp add: wrap_def)
  next
    case (Suc j)
    then show ?thesis
      using that ring_store[OF assms(1), of "n - 1" j v] n s[of j] unfolding h(1)[symmetric] by auto
  qed
  then show ?thesis
    using n h(2) assms(2) by (simp add: ring_def h_def)
qed

lemma ring_shift:
  assumes "ring n p head (v # xs)"
  shows "ring n (p[head := V_null]) (if n \<le> Suc head then 0 else Suc head) xs"
    and "p ! head = v"
proof -
  define h where "h = (if n \<le> Suc head then 0 else Suc head)"
  have n: "head < n" "length p = n" "Suc (length xs) \<le> n" using ringD[OF assms(1)] by auto
  have s: "wrap n (h + i) = wrap n (head + Suc i)" if "Suc i < n" for i
    using that n by (auto simp: h_def wrap_def)
  have l: "wrap n (h + (n - 1)) = head"
    using n by (auto simp: h_def wrap_def)
  have "p[head := V_null] ! wrap n (h + i) = (if i < length xs then xs ! i else V_null)" if "i < n" for i
  proof (cases "Suc i < n")
    case True
    then show ?thesis
      using that ring_store[OF assms(1), of 0 "Suc i" V_null] n s[of i] by (simp add: wrap_def[of n head])
  next
    case False
    then have "i = n - 1" "\<not> i < length xs" using that n by linarith+
    then show ?thesis using l n by simp
  qed
  then show "ring n (p[head := V_null]) (if n \<le> Suc head then 0 else Suc head) xs"
    using n by (simp add: ring_def h_def)
  show "p ! head = v"
    using ringD(4)[OF assms, of 0] ringD(2)[OF assms] by (simp add: wrap_def)
qed

section \<open>Insertion and removal in the middle\<close>


definition list_insert :: "nat \<Rightarrow> 'a \<Rightarrow> 'a list \<Rightarrow> 'a list" where
  "list_insert k v xs = take k xs @ v # drop k xs"

definition list_remove :: "nat \<Rightarrow> 'a list \<Rightarrow> 'a list" where
  "list_remove k xs = take k xs @ drop (Suc k) xs"

lemma length_list_insert [simp]: "k \<le> length xs \<Longrightarrow> length (list_insert k v xs) = Suc (length xs)"
  by (simp add: list_insert_def)

lemma length_list_remove [simp]: "k < length xs \<Longrightarrow> length (list_remove k xs) = length xs - 1"
  by (simp add: list_remove_def)

text \<open>The cell at a relative position, and the element of a sequence there, null past the end.\<close>

definition rel :: "nat \<Rightarrow> t_value list \<Rightarrow> nat \<Rightarrow> nat \<Rightarrow> t_value" where
  "rel n p head i = p ! wrap n (head + i)"

definition elem :: "t_value list \<Rightarrow> nat \<Rightarrow> t_value" where
  "elem xs i = (if i < length xs then xs ! i else V_null)"

lemma elem_null [simp]: "length xs \<le> i \<Longrightarrow> elem xs i = V_null"
  by (simp add: elem_def)

lemma elem_list_insert:
  "k \<le> length xs \<Longrightarrow> elem (list_insert k v xs) i = (if i < k then elem xs i else if i = k then v else elem xs (i - 1))"
  by (auto simp: elem_def list_insert_def nth_append nth_Cons' min_def)

lemma elem_list_remove:
  "k < length xs \<Longrightarrow> elem (list_remove k xs) i = (if i < k then elem xs i else elem xs (Suc i))"
  by (auto simp: elem_def list_remove_def nth_append min_def)

lemma ring_rel: "ring n p head xs \<longleftrightarrow>
    length p = n \<and> head < n \<and> length xs \<le> n \<and> (\<forall>i < n. rel n p head i = elem xs i)"
  by (simp add: ring_def rel_def elem_def)

text \<open>Which cells of the array a block move with a store takes from where, in the form the proofs use:
  \<open>m\<close> is the source of \<open>j\<close>.\<close>

lemma store_forward_cells:
  fixes v :: "t_value list \<Rightarrow> t_value"
  assumes "p \<le> q" "q < length xs"
  defines "ys \<equiv> store_at (f_move_forward xs (int p) (int q)) v"
  shows "\<And>j. j = p \<Longrightarrow> (\<And>zs. length zs = length xs \<Longrightarrow> (\<And>i. i < p \<or> q < i \<Longrightarrow> i < length xs \<Longrightarrow> zs ! i = xs ! i) \<Longrightarrow> v zs = w) \<Longrightarrow> ys ! j = w"
    and "\<And>j m. p < j \<Longrightarrow> j \<le> q \<Longrightarrow> Suc m = j \<Longrightarrow> ys ! j = xs ! m"
    and "\<And>j m. j < p \<or> q < j \<Longrightarrow> j < length xs \<Longrightarrow> m = j \<Longrightarrow> ys ! j = xs ! m"
    and "length ys = length xs"
proof -
  show "ys ! j = w" if "j = p" "\<And>zs. length zs = length xs \<Longrightarrow>
      (\<And>i. i < p \<or> q < i \<Longrightarrow> i < length xs \<Longrightarrow> zs ! i = xs ! i) \<Longrightarrow> v zs = w" for j
  proof -
    have "v (fst (f_move_forward xs (int p) (int q))) = w"
      using f_move_forward_spec[OF assms(1,2)] by (intro that(2)) auto
    then show ?thesis
      using store_forward(2)[OF assms(1,2) order_le_less_trans[OF assms(1,2)]] that(1) by (simp add: ys_def)
  qed
qed (use store_forward[OF assms(1,2)] assms(1,2) in \<open>auto simp: ys_def\<close>)

lemma store_backward_cells:
  fixes v :: "t_value list \<Rightarrow> t_value"
  assumes "p \<le> q" "q < length xs"
  defines "ys \<equiv> store_at (f_move_backward xs (int p) (int q)) v"
  shows "\<And>j. j = q \<Longrightarrow> (\<And>zs. length zs = length xs \<Longrightarrow> (\<And>i. i < p \<or> q < i \<Longrightarrow> i < length xs \<Longrightarrow> zs ! i = xs ! i) \<Longrightarrow> v zs = w) \<Longrightarrow> ys ! j = w"
    and "\<And>j m. p \<le> j \<Longrightarrow> j < q \<Longrightarrow> Suc j = m \<Longrightarrow> ys ! j = xs ! m"
    and "\<And>j m. j < p \<or> q < j \<Longrightarrow> j < length xs \<Longrightarrow> m = j \<Longrightarrow> ys ! j = xs ! m"
    and "length ys = length xs"
proof -
  show "ys ! j = w" if "j = q" "\<And>zs. length zs = length xs \<Longrightarrow>
      (\<And>i. i < p \<or> q < i \<Longrightarrow> i < length xs \<Longrightarrow> zs ! i = xs ! i) \<Longrightarrow> v zs = w" for j
  proof -
    have "v (fst (f_move_backward xs (int p) (int q))) = w"
      using f_move_backward_spec[OF assms(1,2)] by (intro that(2)) auto
    then show ?thesis
      using store_backward(2)[OF assms(1,2) assms(2)] that(1) by (simp add: ys_def)
  qed
qed (use store_backward[OF assms(1,2)] assms(1,2) in \<open>auto simp: ys_def\<close>)


text \<open>Insertion and removal in relative positions: the tail moves up or down, or the head does.\<close>

lemma ring_insert_tail:
  assumes r: "ring n p head xs" and k: "k < length xs" "length xs < n" and q: "length q = n"
    and v: "rel n q head k = v"
    and moved: "\<And>i. k < i \<Longrightarrow> i \<le> length xs \<Longrightarrow> rel n q head i = rel n p head (i - 1)"
    and kept: "\<And>i. i < k \<or> length xs < i \<Longrightarrow> i < n \<Longrightarrow> rel n q head i = rel n p head i"
  shows "ring n q head (list_insert k v xs)"
proof -
  have "rel n q head i = elem (list_insert k v xs) i" if "i < n" for i
  proof -
    consider "i = k" | "k < i" "i \<le> length xs" | "i < k" | "length xs < i" by linarith
    then show ?thesis
      by cases (use that k v r moved[of i] kept[of i] in \<open>auto simp: elem_list_insert ring_rel\<close>)
  qed
  then show ?thesis using r k q by (simp add: ring_rel)
qed

lemma ring_insert_head:
  assumes r: "ring n p head xs" and k: "k \<le> length xs" "length xs < n" and q: "length q = n"
    and h: "h = (if 0 < head then head else n) - 1"
    and v: "rel n q h k = v"
    and moved: "\<And>i. i < k \<Longrightarrow> rel n q h i = rel n p head i"
    and kept: "\<And>i. k < i \<Longrightarrow> i < n \<Longrightarrow> rel n q h i = rel n p h i"
  shows "ring n q h (list_insert k v xs)"
proof -
  have s: "rel n p h i = rel n p head (i - 1)" if "0 < i" "i < n" for i
    unfolding rel_def using r that by (intro arg_cong[where f = "(!) p"]) (auto simp: ring_def h wrap_def)
  have "rel n q h i = elem (list_insert k v xs) i" if "i < n" for i
  proof -
    consider "i = k" | "k < i" | "i < k" by linarith
    then show ?thesis
      by cases (use that k v r moved[of i] kept[of i] s[of i] in \<open>auto simp: elem_list_insert ring_rel\<close>)
  qed
  then show ?thesis using r k q by (auto simp: ring_rel h)
qed

lemma ring_remove_tail:
  assumes r: "ring n p head xs" and k: "k < length xs" and q: "length q = n"
    and v: "rel n q head (length xs - 1) = V_null"
    and moved: "\<And>i. k \<le> i \<Longrightarrow> Suc i < length xs \<Longrightarrow> rel n q head i = rel n p head (Suc i)"
    and kept: "\<And>i. i < k \<or> length xs \<le> i \<Longrightarrow> i < n \<Longrightarrow> rel n q head i = rel n p head i"
  shows "ring n q head (list_remove k xs)"
proof -
  have "rel n q head i = elem (list_remove k xs) i" if "i < n" for i
  proof -
    consider "i = length xs - 1" "k \<le> i" | "k \<le> i" "Suc i < length xs" | "i < k" | "length xs \<le> i"
      using k by linarith
    then show ?thesis
      by cases (use that k v r moved[of i] kept[of i] in \<open>auto simp: elem_list_remove ring_rel\<close>)
  qed
  then show ?thesis using r k q by (auto simp: ring_rel)
qed

lemma ring_remove_head:
  assumes r: "ring n p head xs" and k: "k < length xs" and q: "length q = n"
    and h: "h = (if n \<le> Suc head then 0 else Suc head)"
    and v: "rel n q head 0 = V_null"
    and moved: "\<And>i. i < k \<Longrightarrow> rel n q head (Suc i) = rel n p head i"
    and kept: "\<And>i. k < i \<Longrightarrow> i < n \<Longrightarrow> rel n q head i = rel n p head i"
  shows "ring n q h (list_remove k xs)"
proof -
  have s: "rel n q h i = rel n q head (if Suc i < n then Suc i else 0)" if "i < n" for i
    unfolding rel_def using r that by (intro arg_cong[where f = "(!) q"]) (auto simp: ring_def h wrap_def)
  have "rel n q h i = elem (list_remove k xs) i" if i: "i < n" for i
  proof -
    consider "i < k" | "k \<le> i" "Suc i < n" | "Suc i = n" "k \<le> i" using i by (metis Suc_lessI not_less)
    then show ?thesis
      by cases (use i k v r moved[of i] kept[of "Suc i"] s[of i] in \<open>auto simp: elem_list_remove ring_rel\<close>)
  qed
  then show ?thesis using r k q by (auto simp: ring_rel h)
qed


text \<open>The branches of \<open>f_insert\<close>.\<close>

lemma insert_tail_straight:
  assumes r: "ring n p head xs" and k: "k < length xs" "length xs < n"
    and ab: "a = head + k \<and> b = head + length xs \<or> a + n = head + k \<and> b + n = head + length xs" "b < n"
  shows "ring n (store_at (f_move_forward p (int a) (int b)) (\<lambda>_. v)) head (list_insert k v xs)"
proof -
  note f = ab k ringD(1,2)[OF r]
  have le: "a \<le> b" "b < length p" using f by auto
  note c = store_forward_cells[OF le]
  show ?thesis
  proof (rule ring_insert_tail[OF r k], unfold rel_def)
    show "store_at (f_move_forward p (int a) (int b)) (\<lambda>_. v) ! wrap n (head + k) = v"
      by (rule c(1)) (use f in \<open>auto simp: wrap_def\<close>)
    show "store_at (f_move_forward p (int a) (int b)) (\<lambda>_. v) ! wrap n (head + i) = p ! wrap n (head + (i - 1))"
      if "k < i" "i \<le> length xs" for i
      by (rule c(2)) (use f that in \<open>auto simp: wrap_def\<close>)
    show "store_at (f_move_forward p (int a) (int b)) (\<lambda>_. v) ! wrap n (head + i) = p ! wrap n (head + i)"
      if "i < k \<or> length xs < i" "i < n" for i
      by (rule c(3)) (use f that in \<open>auto simp: wrap_def\<close>)
  qed (use c(4) f in simp)
qed

lemma insert_tail_split:
  assumes r: "ring n p head xs" and k: "k < length xs" "length xs < n"
    and ab: "a = head + k" "a < n" "b + n = head + length xs"
  shows "ring n (store_at (f_move_forward (store_at (f_move_forward p 0 (int b)) (\<lambda>q. q ! (n - 1))) (int a) (int (n - 1))) (\<lambda>_. v))
    head (list_insert k v xs)"
proof -
  define p1 where "p1 = store_at (f_move_forward p (int 0) (int b)) (\<lambda>q. q ! (n - 1))"
  define q where "q = store_at (f_move_forward p1 (int a) (int (n - 1))) (\<lambda>_. v)"
  note f = ab k ringD(1,2)[OF r]
  have le1: "0 \<le> b" "b < length p" using f by auto
  note c1 = store_forward_cells[OF le1, where v = "\<lambda>q. q ! (n - 1)", folded p1_def]
  have le2: "a \<le> n - 1" "n - 1 < length p1" using f c1(4) by auto
  note c2 = store_forward_cells[OF le2, where v = "\<lambda>_. v", folded q_def]
  have p1_0: "p1 ! 0 = p ! (n - 1)"
    by (rule c1(1)) (use f in auto)
  have "ring n q head (list_insert k v xs)"
  proof (rule ring_insert_tail[OF r k], unfold rel_def)
    show "q ! wrap n (head + k) = v"
      by (rule c2(1)) (use f in \<open>auto simp: wrap_def\<close>)
    show "q ! wrap n (head + i) = p ! wrap n (head + (i - 1))" if i: "k < i" "i \<le> length xs" for i
    proof (cases "head + i < n")
      case True
      then have "q ! wrap n (head + i) = p1 ! wrap n (head + (i - 1))"
        by (intro c2(2)) (use f i in \<open>auto simp: wrap_def\<close>)
      also have "\<dots> = p ! wrap n (head + (i - 1))"
        by (rule c1(3)) (use f i True c1(4) in \<open>auto simp: wrap_def\<close>)
      finally show ?thesis .
    next
      case False
      then have "q ! wrap n (head + i) = p1 ! wrap n (head + i)"
        by (intro c2(3)) (use f i c1(4) in \<open>auto simp: wrap_def\<close>)
      also have "\<dots> = p ! wrap n (head + (i - 1))"
      proof (cases "head + i = n")
        case True
        then show ?thesis using p1_0 f i by (simp add: wrap_def)
      next
        case False
        then show ?thesis
          by (intro c1(2)) (use f i \<open>\<not> head + i < n\<close> in \<open>auto simp: wrap_def\<close>)
      qed
      finally show ?thesis .
    qed
    show "q ! wrap n (head + i) = p ! wrap n (head + i)" if i: "i < k \<or> length xs < i" "i < n" for i
    proof -
      have "q ! wrap n (head + i) = p1 ! wrap n (head + i)"
        by (rule c2(3)) (use f i c1(4) in \<open>auto simp: wrap_def\<close>)
      also have "\<dots> = p ! wrap n (head + i)"
        by (rule c1(3)) (use f i in \<open>auto simp: wrap_def\<close>)
      finally show ?thesis .
    qed
  qed (use c1(4) c2(4) f in simp)
  then show ?thesis by (simp add: q_def p1_def)
qed

lemma insert_head_straight:
  assumes r: "ring n p (Suc h) xs" and k: "k < length xs" "length xs < n" and ab: "b = h + k" "b < n"
  shows "ring n (store_at (f_move_backward p (int h) (int b)) (\<lambda>_. v)) h (list_insert k v xs)"
proof -
  note f = ab k ringD(1,2)[OF r]
  have le: "h \<le> b" "b < length p" using f by auto
  note c = store_backward_cells[OF le]
  show ?thesis
  proof (rule ring_insert_head[OF r less_imp_le[OF k(1)] k(2)], unfold rel_def)
    show "store_at (f_move_backward p (int h) (int b)) (\<lambda>_. v) ! wrap n (h + k) = v"
      by (rule c(1)) (use f in \<open>auto simp: wrap_def\<close>)
    show "store_at (f_move_backward p (int h) (int b)) (\<lambda>_. v) ! wrap n (h + i) = p ! wrap n (Suc h + i)"
      if "i < k" for i
      by (rule c(2)) (use f that in \<open>auto simp: wrap_def\<close>)
    show "store_at (f_move_backward p (int h) (int b)) (\<lambda>_. v) ! wrap n (h + i) = p ! wrap n (h + i)"
      if "k < i" "i < n" for i
      by (rule c(3)) (use f that in \<open>auto simp: wrap_def\<close>)
  qed (use c(4) f in auto)
qed

lemma insert_head_split:
  assumes r: "ring n p head xs" and k: "k < length xs" "length xs < n"
    and h: "h = (if 0 < head then head else n) - 1" and ab: "b + n = h + k"
    and p1: "length p1 = n" "p1 ! (n - 1) = p ! 0"
      "\<And>j m. h \<le> j \<Longrightarrow> j < n - 1 \<Longrightarrow> Suc j = m \<Longrightarrow> p1 ! j = p ! m"
      "\<And>j m. j < h \<Longrightarrow> m = j \<Longrightarrow> p1 ! j = p ! m"
  shows "ring n (store_at (f_move_backward p1 0 (int b)) (\<lambda>_. v)) h (list_insert k v xs)"
proof -
  define q where "q = store_at (f_move_backward p1 (int 0) (int b)) (\<lambda>_. v)"
  note f = ab k p1(1) ringD(1,2)[OF r]
  have hn: "h < n" using h f by auto
  have le: "0 \<le> b" "b < length p1" using f hn by auto
  note c = store_backward_cells[OF le, where v = "\<lambda>_. v", folded q_def]
  have next_cell: "wrap n (h + i) < n - 1 \<and> Suc (wrap n (h + i)) = wrap n (head + i) \<or>
      wrap n (h + i) = n - 1 \<and> wrap n (head + i) = 0" if "i < n" for i
    using that f h by (auto simp: wrap_def)
  have "ring n q h (list_insert k v xs)"
  proof (rule ring_insert_head[OF r less_imp_le[OF k(1)] k(2) _ h], unfold rel_def)
    show "q ! wrap n (h + k) = v"
      by (rule c(1)) (use f hn in \<open>auto simp: wrap_def\<close>)
    show "q ! wrap n (h + i) = p ! wrap n (head + i)" if i: "i < k" for i
    proof (cases "h + i < n")
      case True
      then have "q ! wrap n (h + i) = p1 ! wrap n (h + i)"
        by (intro c(3)) (use f i hn in \<open>auto simp: wrap_def\<close>)
      also have "\<dots> = p ! wrap n (head + i)"
        using next_cell[of i] True i k p1(2) p1(3)[of "wrap n (h + i)"] by (auto simp: wrap_def[of n "h + i"])
      finally show ?thesis .
    next
      case False
      then have "q ! wrap n (h + i) = p1 ! wrap n (head + i)"
        using next_cell[of i] by (intro c(2)) (use f i hn in \<open>auto simp: wrap_def\<close>)
      also have "\<dots> = p ! wrap n (head + i)"
        by (rule p1(4)) (use False f i h hn in \<open>auto simp: wrap_def split: if_splits\<close>)
      finally show ?thesis .
    qed
    show "q ! wrap n (h + i) = p ! wrap n (h + i)" if i: "k < i" "i < n" for i
    proof -
      have "q ! wrap n (h + i) = p1 ! wrap n (h + i)"
        by (rule c(3)) (use f i hn in \<open>auto simp: wrap_def\<close>)
      also have "\<dots> = p ! wrap n (h + i)"
        by (rule p1(4)) (use f i hn in \<open>auto simp: wrap_def\<close>)
      finally show ?thesis .
    qed
  qed (use c(4) f in simp)
  then show ?thesis by (simp add: q_def)
qed

text \<open>The branches of \<open>f_remove\<close>.\<close>

lemma remove_head_straight:
  assumes r: "ring n p head xs" and k: "k < length xs" and a: "a = head + k" "a < n"
  shows "ring n (store_at (f_move_forward p (int head) (int a)) (\<lambda>_. V_null))
    (if n \<le> Suc head then 0 else Suc head) (list_remove k xs)"
proof -
  define q where "q = store_at (f_move_forward p (int head) (int a)) (\<lambda>_. V_null)"
  note f = a k ringD(1,2)[OF r]
  have le: "head \<le> a" "a < length p" using f by auto
  note c = store_forward_cells[OF le, where v = "\<lambda>_. V_null", folded q_def]
  show ?thesis unfolding q_def[symmetric]
  proof (rule ring_remove_head[OF r k], unfold rel_def)
    show "q ! wrap n (head + 0) = V_null"
      by (rule c(1)) (use f in \<open>auto simp: wrap_def\<close>)
    show "q ! wrap n (head + Suc i) = p ! wrap n (head + i)" if "i < k" for i
      by (rule c(2)) (use f that in \<open>auto simp: wrap_def\<close>)
    show "q ! wrap n (head + i) = p ! wrap n (head + i)" if "k < i" "i < n" for i
      by (rule c(3)) (use f that in \<open>auto simp: wrap_def\<close>)
  qed (use c(4) f in auto)
qed

lemma remove_head_split:
  assumes r: "ring n p head xs" and k: "k < length xs" and a: "a + n = head + k"
  shows "ring n (store_at (f_move_forward (store_at (f_move_forward p 0 (int a)) (\<lambda>q. q ! (n - 1))) (int head) (int (n - 1))) (\<lambda>_. V_null))
    (if n \<le> Suc head then 0 else Suc head) (list_remove k xs)"
proof -
  define p1 where "p1 = store_at (f_move_forward p (int 0) (int a)) (\<lambda>q. q ! (n - 1))"
  define q where "q = store_at (f_move_forward p1 (int head) (int (n - 1))) (\<lambda>_. V_null)"
  note f = a k ringD(1-3)[OF r]
  have le1: "0 \<le> a" "a < length p" using f by auto
  note c1 = store_forward_cells[OF le1, where v = "\<lambda>q. q ! (n - 1)", folded p1_def]
  have le2: "head \<le> n - 1" "n - 1 < length p1" using f c1(4) by auto
  note c2 = store_forward_cells[OF le2, where v = "\<lambda>_. V_null", folded q_def]
  have p1_0: "p1 ! 0 = p ! (n - 1)"
    by (rule c1(1)) (use f in auto)
  have "ring n q (if n \<le> Suc head then 0 else Suc head) (list_remove k xs)"
  proof (rule ring_remove_head[OF r k], unfold rel_def)
    show "q ! wrap n (head + 0) = V_null"
      by (rule c2(1)) (use f in \<open>auto simp: wrap_def\<close>)
    show "q ! wrap n (head + Suc i) = p ! wrap n (head + i)" if i: "i < k" for i
    proof (cases "head + Suc i < n")
      case True
      then have "q ! wrap n (head + Suc i) = p1 ! wrap n (head + i)"
        by (intro c2(2)) (use f i in \<open>auto simp: wrap_def\<close>)
      also have "\<dots> = p ! wrap n (head + i)"
        by (rule c1(3)) (use f i True c1(4) in \<open>auto simp: wrap_def\<close>)
      finally show ?thesis .
    next
      case False
      then have "q ! wrap n (head + Suc i) = p1 ! wrap n (head + Suc i)"
        by (intro c2(3)) (use f i c1(4) in \<open>auto simp: wrap_def\<close>)
      also have "\<dots> = p ! wrap n (head + i)"
      proof (cases "head + Suc i = n")
        case True
        then show ?thesis using p1_0 f i by (auto simp: wrap_def)
      next
        case False
        then show ?thesis
          by (intro c1(2)) (use f i \<open>\<not> head + Suc i < n\<close> in \<open>auto simp: wrap_def\<close>)
      qed
      finally show ?thesis .
    qed
    show "q ! wrap n (head + i) = p ! wrap n (head + i)" if i: "k < i" "i < n" for i
    proof -
      have "q ! wrap n (head + i) = p1 ! wrap n (head + i)"
        by (rule c2(3)) (use f i c1(4) in \<open>auto simp: wrap_def\<close>)
      also have "\<dots> = p ! wrap n (head + i)"
        by (rule c1(3)) (use f i in \<open>auto simp: wrap_def\<close>)
      finally show ?thesis .
    qed
  qed (use c1(4) c2(4) f in auto)
  then show ?thesis by (simp add: q_def p1_def)
qed

lemma remove_tail_straight:
  assumes r: "ring n p head xs" and k: "k < length xs"
    and ab: "a = head + k \<and> Suc b = head + length xs \<or> a + n = head + k \<and> Suc b + n = head + length xs" "b < n"
  shows "ring n (store_at (f_move_backward p (int a) (int b)) (\<lambda>_. V_null)) head (list_remove k xs)"
proof -
  define q where "q = store_at (f_move_backward p (int a) (int b)) (\<lambda>_. V_null)"
  note f = ab k ringD(1-3)[OF r]
  have le: "a \<le> b" "b < length p" using f by auto
  note c = store_backward_cells[OF le, where v = "\<lambda>_. V_null", folded q_def]
  show ?thesis unfolding q_def[symmetric]
  proof (rule ring_remove_tail[OF r k], unfold rel_def)
    show "q ! wrap n (head + (length xs - 1)) = V_null"
      by (rule c(1)) (use f in \<open>auto simp: wrap_def\<close>)
    show "q ! wrap n (head + i) = p ! wrap n (head + Suc i)" if "k \<le> i" "Suc i < length xs" for i
      by (rule c(2)) (use f that in \<open>auto simp: wrap_def\<close>)
    show "q ! wrap n (head + i) = p ! wrap n (head + i)" if "i < k \<or> length xs \<le> i" "i < n" for i
      by (rule c(3)) (use f that in \<open>auto simp: wrap_def\<close>)
  qed (use c(4) f in auto)
qed

lemma remove_tail_split:
  assumes r: "ring n p head xs" and k: "k < length xs"
    and ab: "a = head + k" "a < n" "Suc b + n = head + length xs"
  shows "ring n (store_at (f_move_backward (store_at (f_move_backward p (int a) (int (n - 1))) (\<lambda>q. q ! 0)) 0 (int b)) (\<lambda>_. V_null))
    head (list_remove k xs)"
proof -
  define p1 where "p1 = store_at (f_move_backward p (int a) (int (n - 1))) (\<lambda>q. q ! 0)"
  define q where "q = store_at (f_move_backward p1 (int 0) (int b)) (\<lambda>_. V_null)"
  note f = ab k ringD(1-3)[OF r]
  have le1: "a \<le> n - 1" "n - 1 < length p" using f by auto
  note c1 = store_backward_cells[OF le1, where v = "\<lambda>q. q ! 0", folded p1_def]
  have le2: "0 \<le> b" "b < length p1" using f c1(4) by auto
  note c2 = store_backward_cells[OF le2, where v = "\<lambda>_. V_null", folded q_def]
  have p1_last: "p1 ! (n - 1) = p ! 0"
    by (rule c1(1)) (use f in auto)
  have "ring n q head (list_remove k xs)"
  proof (rule ring_remove_tail[OF r k], unfold rel_def)
    show "q ! wrap n (head + (length xs - 1)) = V_null"
      by (rule c2(1)) (use f in \<open>auto simp: wrap_def\<close>)
    show "q ! wrap n (head + i) = p ! wrap n (head + Suc i)" if i: "k \<le> i" "Suc i < length xs" for i
    proof (cases "head + i < n")
      case True
      then have "q ! wrap n (head + i) = p1 ! wrap n (head + i)"
        by (intro c2(3)) (use f i c1(4) in \<open>auto simp: wrap_def\<close>)
      also have "\<dots> = p ! wrap n (head + Suc i)"
      proof (cases "head + Suc i = n")
        case True
        then show ?thesis using p1_last f i by (auto simp: wrap_def)
      next
        case False
        then show ?thesis
          by (intro c1(2)) (use f i \<open>head + i < n\<close> in \<open>auto simp: wrap_def\<close>)
      qed
      finally show ?thesis .
    next
      case False
      then have "q ! wrap n (head + i) = p1 ! wrap n (head + Suc i)"
        by (intro c2(2)) (use f i in \<open>auto simp: wrap_def\<close>)
      also have "\<dots> = p ! wrap n (head + Suc i)"
        by (rule c1(3)) (use f i False in \<open>auto simp: wrap_def\<close>)
      finally show ?thesis .
    qed
    show "q ! wrap n (head + i) = p ! wrap n (head + i)" if i: "i < k \<or> length xs \<le> i" "i < n" for i
    proof -
      have "q ! wrap n (head + i) = p1 ! wrap n (head + i)"
        by (rule c2(3)) (use f i c1(4) in \<open>auto simp: wrap_def\<close>)
      also have "\<dots> = p ! wrap n (head + i)"
        by (rule c1(3)) (use f i in \<open>auto simp: wrap_def\<close>)
      finally show ?thesis .
    qed
  qed (use c1(4) c2(4) f in auto)
  then show ?thesis by (simp add: q_def p1_def)
qed

lemma remove_move_ring:
  assumes r: "ring n p head xs" and k: "k < length xs"
  shows "case remove_move p (int head) (int (length xs)) (int k) of (q, h) \<Rightarrow> ring n q (nat h) (list_remove k xs)"
proof -
  note f = k ringD(1-3)[OF r]
  show ?thesis
  proof (cases "int k < int (length xs) - int k")
    case True
    have h: "nat (if int n \<le> int head + 1 then 0 else int head + 1) = (if n \<le> Suc head then 0 else Suc head)"
      by auto
    show ?thesis
    proof (cases "n \<le> head + k")
      case n: True
      define a where "a = head + k - n"
      have a: "a + n = head + k" "int head + int k - int n = int a" "int n - 1 = int (n - 1)"
        using n f by (auto simp: a_def)
      have "int n \<le> int head + int k" using n by simp
      then have "remove_move p (int head) (int (length xs)) (int k) =
          (store_at (f_move_forward (store_at (f_move_forward p 0 (int a)) (\<lambda>q. q ! (n - 1)))
             (int head) (int (n - 1))) (\<lambda>_. V_null), if int n \<le> int head + 1 then 0 else int head + 1)"
        unfolding remove_move_def Let_def f(2) a(2,3) using True by simp
      then show ?thesis
        using remove_head_split[OF r k a(1)] h by simp
    next
      case False
      then show ?thesis
        using True f remove_head_straight[OF r k refl] h
        by (simp add: remove_move_def Let_def)
    qed
  next
    case tail: False
    consider "n \<le> head + k" | "head + k < n" "n < head + length xs" | "head + length xs \<le> n" "head + k < n"
      by linarith
    then show ?thesis
    proof cases
      case 1
      define a b where "a = head + k - n" and "b = head + length xs - 1 - n"
      have ab: "a = head + k \<and> Suc b = head + length xs \<or> a + n = head + k \<and> Suc b + n = head + length xs" "b < n"
        "int head + int k - int n = int a" "int head + int (length xs) - 1 - int n = int b"
        using 1 f by (auto simp: a_def b_def)
      show ?thesis
        using tail 1 f remove_tail_straight[OF r k ab(1,2)]
        by (simp add: remove_move_def Let_def ab(3,4))
    next
      case 2
      define b where "b = head + length xs - 1 - n"
      have b: "Suc b + n = head + length xs" "int head + int (length xs) - 1 - int n = int b" "int n - 1 = int (n - 1)"
        using 2 f by (auto simp: b_def)
      have "\<not> int n \<le> int head + int k" "int n < int head + int (length xs)" using 2 by simp_all
      then have "remove_move p (int head) (int (length xs)) (int k) =
          (store_at (f_move_backward (store_at (f_move_backward p (int (head + k)) (int (n - 1))) (\<lambda>q. q ! 0))
             0 (int b)) (\<lambda>_. V_null), int head)"
        unfolding remove_move_def Let_def f(2) b(2,3) using tail by simp
      then show ?thesis
        using remove_tail_split[OF r k refl 2(1) b(1)] by simp
    next
      case 3
      define b where "b = head + length xs - 1"
      have b: "head + k = head + k \<and> Suc b = head + length xs \<or> head + k + n = head + k \<and> Suc b + n = head + length xs" "b < n"
        "int head + int (length xs) - 1 = int b"
        using 3 f by (auto simp: b_def)
      show ?thesis
        using tail 3 f remove_tail_straight[OF r k b(1,2)]
        by (simp add: remove_move_def Let_def b(3))
    qed
  qed
qed

lemma insert_move_ring:
  assumes r: "ring n p head xs" and k: "k < length xs" "length xs < n" and pos: "0 < k \<or> 0 < head"
  shows "case insert_move p (int head) (int (length xs)) (int k) v of (q, h) \<Rightarrow> ring n q (nat h) (list_insert k v xs)"
proof -
  note f = k ringD(1-3)[OF r]
  show ?thesis
  proof (cases "int k < int (length xs) - int k")
    case True
    consider "n < head + k" | h where "head + k \<le> n" "head = Suc h" | "head + k \<le> n" "head = 0"
      by (metis not_less not0_implies_Suc)
    then show ?thesis
    proof cases
      case 1
      define h b where "h = head - 1" and "b = head + k - 1 - n"
      have b: "b + n = h + k" "int head + int k - 1 - int n = int b" "int n - 1 = int (n - 1)"
        "int head - 1 = int h" "h = (if 0 < head then head else n) - 1" "head = Suc h"
        using 1 f by (auto simp: b_def h_def)
      have le: "h \<le> n - 1" "n - 1 < length p" using f(3,4) by (auto simp: h_def)
      define p1 where "p1 = store_at (f_move_backward p (int h) (int (n - 1))) (\<lambda>q. q ! 0)"
      note c = store_backward_cells[OF le, where v = "\<lambda>q. q ! 0", folded p1_def]
      have "ring n (store_at (f_move_backward p1 0 (int b)) (\<lambda>_. v)) h (list_insert k v xs)"
      proof (rule insert_head_split[OF r k b(5) b(1)])
        have "0 < h" "0 < length p" using 1 f unfolding h_def by linarith+
        then show "p1 ! (n - 1) = p ! 0" by (intro c(1)) auto
        show "p1 ! j = p ! m" if "j < h" "m = j" for j m by (rule c(3)) (use that le in auto)
      qed (use c(2,4) f in auto)
      moreover have "int n < int head + int k" using 1 by simp
      then have "insert_move p (int head) (int (length xs)) (int k) v =
          (store_at (f_move_backward p1 0 (int b)) (\<lambda>_. v), int h)"
        unfolding insert_move_def Let_def f(3) b(2,3,4) p1_def using True by simp
      ultimately show ?thesis by simp
    next
      case 2
      have "insert_move p (int head) (int (length xs)) (int k) v =
          (store_at (f_move_backward p (int h) (int (h + k))) (\<lambda>_. v), int h)"
        using True 2 f by (simp add: insert_move_def Let_def)
      then show ?thesis
        using insert_head_straight[OF r[unfolded 2(2)] k refl] 2 f by simp
    next
      case 3
      define b where "b = k - 1"
      have b: "b + n = n - 1 + k" "int k - 1 = int b" "int n - 1 = int (n - 1)" "0 < k"
        using f pos 3 by (auto simp: b_def)
      have "ring n (store_at (f_move_backward (p[n - 1 := p ! 0]) 0 (int b)) (\<lambda>_. v)) (n - 1) (list_insert k v xs)"
        by (rule insert_head_split[OF r k _ b(1)]) (use f 3 in auto)
      moreover have "insert_move p (int head) (int (length xs)) (int k) v =
          (store_at (f_move_backward (p[n - 1 := p ! 0]) 0 (int b)) (\<lambda>_. v), int (n - 1))"
        using True 3 f(3) by (simp add: insert_move_def Let_def b(2,3))
      ultimately show ?thesis by simp
    qed
  next
    case tail: False
    consider "n \<le> head + k" | "head + k < n" "n \<le> head + length xs" | "head + length xs < n"
      by linarith
    then show ?thesis
    proof cases
      case 1
      define a b where "a = head + k - n" and "b = head + length xs - n"
      have ab: "a = head + k \<and> b = head + length xs \<or> a + n = head + k \<and> b + n = head + length xs" "b < n"
        "int head + int k - int n = int a" "int head + int (length xs) - int n = int b"
        using 1 f by (auto simp: a_def b_def)
      show ?thesis
        using tail 1 f insert_tail_straight[OF r k ab(1,2)]
        by (simp add: insert_move_def Let_def ab(3,4))
    next
      case 2
      define b where "b = head + length xs - n"
      have b: "b + n = head + length xs" "int head + int (length xs) - int n = int b" "int n - 1 = int (n - 1)" "nat (int n - 1) = n - 1"
        using 2 f by (auto simp: b_def)
      have "\<not> int n \<le> int head + int k" "int n \<le> int head + int (length xs)" using 2 by simp_all
      then have "insert_move p (int head) (int (length xs)) (int k) v =
          (store_at (f_move_forward (store_at (f_move_forward p 0 (int b)) (\<lambda>q. q ! (n - 1)))
             (int (head + k)) (int (n - 1))) (\<lambda>_. v), int head)"
        unfolding insert_move_def Let_def f(3) b(2,3) using tail by (simp add: b(4))
      then show ?thesis
        using insert_tail_split[OF r k refl 2(1) b(1)] by simp
    next
      case 3
      show ?thesis
        using tail 3 f insert_tail_straight[OF r k _ 3, of "head + k" v]
        by (simp add: insert_move_def Let_def)
    qed
  qed
qed
section \<open>The operations refine the operations on sequences\<close>

lemma list_rep_new: "list_rep t_list_new []"
  by (simp add: list_rep_def t_list_new_def)

lemma list_rep_clear: "list_rep (t_list_f_clear l) []"
  by (simp add: list_rep_def t_list_f_clear_def)

lemma list_rep_size: "list_rep l xs \<Longrightarrow> t_list_f_size l = length xs"
  by (simp add: list_rep_def t_list_f_size_def)

lemma list_repE:
  assumes "list_rep l xs" "xs \<noteq> []"
  obtains p where "v_tuple l = Some p" "ring (v_grow l) p (v_head l) xs" "length p = v_grow l"
    "v_size l = length xs" "v_shrink l < length xs"
  using assms by (auto simp: list_rep_def ring_def split: option.splits)

lemma list_roomE:
  assumes "list_room l xs"
  obtains p where "v_tuple l = Some p" "ring (v_grow l) p (v_head l) xs" "length p = v_grow l"
    "v_size l = length xs" "v_shrink l \<le> length xs" "length xs < v_grow l"
  using assms by (auto simp: list_room_def ring_def)

lemma f_at_wrap: "v_tuple l = Some p \<Longrightarrow> t_list_f_at l i = wrap (length p) (v_head l + i)"
  by (simp add: t_list_f_at_def wrap_def Let_def add.commute)

lemma f_push_rep:
  assumes "list_rep l xs"
  shows "list_rep (t_list_f_push v l) (xs @ [v])"
  using grow_room[OF assms]
  by (auto simp: t_list_f_push_def Let_def t_list_put_def f_at_wrap list_rep_def ring_push
      simp del: fun_upd_apply elim!: list_roomE)

lemma f_unshift_rep:
  assumes "list_rep l xs"
  shows "list_rep (t_list_f_unshift v l) (v # xs)"
proof -
  define m where "m = (if v_grow l \<le> v_size l then t_list_f_grow l else l)"
  obtain p where p: "v_tuple m = Some p" "ring (v_grow m) p (v_head m) xs" "length p = v_grow m"
    "v_size m = length xs" "v_shrink m \<le> length xs" "length xs < v_grow m"
    using grow_room[OF assms] by (auto simp: m_def elim: list_roomE)
  show ?thesis
    using p ring_unshift[OF p(2,6), of v]
    by (auto simp: t_list_f_unshift_def t_list_put_def list_rep_def Let_def simp flip: m_def split: if_splits)
qed

lemma f_pop_rep:
  assumes "list_rep l (xs @ [v])"
  shows "\<exists>l'. t_list_f_pop l = Inr (v, l') \<and> list_rep l' xs"
proof -
  obtain p where p: "v_tuple l = Some p" "ring (v_grow l) p (v_head l) (xs @ [v])" "length p = v_grow l"
    "v_size l = Suc (length xs)" "v_shrink l < Suc (length xs)"
    using assms by (auto elim: list_repE)
  define m where "m = l\<lparr>v_size := length xs, v_tuple := Some (p[wrap (v_grow l) (v_head l + length xs) := V_null])\<rparr>"
  have "list_rep (if v_size m \<le> v_shrink m then t_list_f_shrink m else m) xs"
    using p ring_pop(1)[OF p(2)] by (intro shrink_rep) (auto simp: m_def)
  moreover have "t_list_f_pop l = Inr (v, if v_size m \<le> v_shrink m then t_list_f_shrink m else m)"
    using p ring_pop(2)[OF p(2)]
    by (simp add: t_list_f_pop_def t_list_put_def t_list_cell_def f_at_wrap m_def)
  ultimately show ?thesis by blast
qed

lemma f_shift_rep:
  assumes "list_rep l (v # xs)"
  shows "\<exists>l'. t_list_f_shift l = Inr (v, l') \<and> list_rep l' xs"
proof -
  obtain p where p: "v_tuple l = Some p" "ring (v_grow l) p (v_head l) (v # xs)" "length p = v_grow l"
    "v_size l = Suc (length xs)" "v_shrink l < Suc (length xs)"
    using assms by (auto elim: list_repE)
  define m where "m = l\<lparr>v_tuple := Some (p[v_head l := V_null]),
    v_head := (if v_grow l \<le> Suc (v_head l) then 0 else Suc (v_head l)), v_size := length xs\<rparr>"
  have "list_rep (if v_size m \<le> v_shrink m then t_list_f_shrink m else m) xs"
    using p ring_shift(1)[OF p(2)] by (intro shrink_rep) (auto simp: m_def)
  moreover have "t_list_f_shift l = Inr (v, if v_size m \<le> v_shrink m then t_list_f_shrink m else m)"
    using p ring_shift(2)[OF p(2)]
    by (simp add: t_list_f_shift_def t_list_put_def t_list_cell_def m_def)
  ultimately show ?thesis by blast
qed

text \<open>The index an operation accepts, and the cell it selects.\<close>

definition list_index :: "nat \<Rightarrow> int \<Rightarrow> nat result" where
  "list_index n i =
     (if 0 \<le> i \<and> i < int n then Inr (nat i)
      else if i < 0 \<and> - int n \<le> i then Inr (nat (i + int n))
      else f_throw_out_of_range)"

lemma list_index_less: "list_index n i = Inr k \<Longrightarrow> k < n"
  by (auto simp: list_index_def f_throw_out_of_range_def split: if_splits)

lemma f_validate_index:
  "list_rep l xs \<Longrightarrow> t_list_f_validate l i = map_sum id int (list_index (length xs) i)"
  by (auto simp: t_list_f_validate_def list_index_def list_rep_def Let_def f_throw_out_of_range_def)

lemma f_get_at_rep:
  assumes "list_rep l xs"
  shows "t_list_get_at l i = bind_result (list_index (length xs) i) (\<lambda>k. Inr (xs ! k))"
proof (cases "list_index (length xs) i")
  case (Inr k)
  then have k: "k < length xs" by (rule list_index_less)
  with assms obtain p where "v_tuple l = Some p" "ring (v_grow l) p (v_head l) xs" "length p = v_grow l"
    by (auto elim: list_repE)
  with k show ?thesis
    by (simp add: t_list_get_at_def f_validate_index[OF assms] Inr t_list_cell_def f_at_wrap ringD(4))
qed (simp add: t_list_get_at_def f_validate_index[OF assms])

lemma f_set_at_rep:
  assumes "list_rep l xs" "list_index (length xs) i = Inr k"
  shows "\<exists>l'. t_list_set_at l i v = Inr l' \<and> list_rep l' (xs[k := v])"
proof -
  have k: "k < length xs" using assms(2) by (rule list_index_less)
  with assms(1) obtain p where "v_tuple l = Some p" "ring (v_grow l) p (v_head l) xs" "length p = v_grow l"
    "v_size l = length xs" "v_shrink l < length xs"
    by (auto elim: list_repE)
  with k show ?thesis
    by (auto simp: t_list_set_at_def f_validate_index[OF assms(1)] assms(2) t_list_put_def f_at_wrap
        list_rep_def ring_update)
qed

text \<open>\<open>f_insert\<close> past its guards, on the grown list.\<close>

lemma f_insert_grown:
  assumes "list_rep l xs" "list_index (length xs) i = Inr k" "i \<noteq> 0"
  obtains m p where
    "v_tuple m = Some p" "ring (v_grow m) p (v_head m) xs" "length xs < v_grow m"
    "m = (if v_grow l \<le> v_size l then t_list_f_grow l else l)"
    "\<And>q h. insert_move p (int (v_head m)) (int (length xs)) (int k) v = (q, h) \<Longrightarrow>
       t_list_f_insert i v l = Inr (m\<lparr>v_tuple := Some q, v_head := nat h, v_size := Suc (length xs)\<rparr>)"
    "v_shrink m \<le> length xs"
proof -
  define m where "m = (if v_grow l \<le> v_size l then t_list_f_grow l else l)"
  obtain p where p: "v_tuple m = Some p" "ring (v_grow m) p (v_head m) xs" "length p = v_grow m"
    "v_size m = length xs" "v_shrink m \<le> length xs" "length xs < v_grow m"
    using grow_room[OF assms(1)] by (auto simp: m_def elim: list_roomE)
  have "i \<noteq> int (v_size l)"
    using assms(1,2) by (auto simp: list_rep_def list_index_def f_throw_out_of_range_def)
  then have "t_list_f_insert i v l = Inr (m\<lparr>v_tuple := Some q, v_head := nat h, v_size := Suc (length xs)\<rparr>)"
    if "insert_move p (int (v_head m)) (int (length xs)) (int k) v = (q, h)" for q h
    unfolding t_list_f_insert_def f_validate_index[OF assms(1)] m_def[symmetric]
    using assms(2,3) that p by simp
  with p show ?thesis by (intro that[of m p]) (auto simp: m_def)
qed

lemma f_insert_rep:
  assumes "list_rep l xs" "list_index (length xs) i = Inr k" "i \<noteq> 0" "0 < k"
  shows "\<exists>l'. t_list_f_insert i v l = Inr l' \<and> list_rep l' (list_insert k v xs)"
proof -
  from f_insert_grown[OF assms(1-3), of v] obtain m p where m:
    "v_tuple m = Some p" "ring (v_grow m) p (v_head m) xs" "length xs < v_grow m" "v_shrink m \<le> length xs"
    "\<And>q h. insert_move p (int (v_head m)) (int (length xs)) (int k) v = (q, h) \<Longrightarrow>
       t_list_f_insert i v l = Inr (m\<lparr>v_tuple := Some q, v_head := nat h, v_size := Suc (length xs)\<rparr>)"
    by metis
  have k: "k < length xs" using assms(2) by (rule list_index_less)
  obtain q h where q: "insert_move p (int (v_head m)) (int (length xs)) (int k) v = (q, h)" by force
  have "ring (v_grow m) q (nat h) (list_insert k v xs)"
    using insert_move_ring[OF m(2) k m(3), of v] assms(4) q by simp
  then show ?thesis
    using m(5)[OF q] m(4) k by (simp add: list_rep_def)
qed

text \<open>The first position, counted from the end, when the window starts at cell 0: the old first element
  stays first.\<close>

lemma f_insert_first_misplaced:
  assumes "list_rep l xs" "list_index (length xs) i = Inr 0" "i \<noteq> 0"
    and "v_head (if v_grow l \<le> v_size l then t_list_f_grow l else l) = 0"
  shows "\<exists>l'. t_list_f_insert i v l = Inr l' \<and> list_rep l' (list_insert 1 v xs)"
proof -
  obtain m p where m':
    "v_tuple m = Some p" "ring (v_grow m) p (v_head m) xs" "length xs < v_grow m"
    "m = (if v_grow l \<le> v_size l then t_list_f_grow l else l)"
    "\<And>q h. insert_move p (int (v_head m)) (int (length xs)) (int 0) v = (q, h) \<Longrightarrow>
       t_list_f_insert i v l = Inr (m\<lparr>v_tuple := Some q, v_head := nat h, v_size := Suc (length xs)\<rparr>)"
    "v_shrink m \<le> length xs"
    by (rule f_insert_grown[OF assms(1-3), of v]) blast
  have h: "v_head m = 0" using m'(4) assms(4) by simp
  note m = m'(1) m'(2)[unfolded h] m'(3,6) h m'(5)[unfolded h of_nat_0]
  have k: "1 \<le> length xs" using list_index_less[OF assms(2)] by linarith
  define n where "n = v_grow m"
  note f = ringD(1-3)[OF m(2), folded n_def]
  define q where "q = p[n - 1 := p ! 0, 0 := v]"
  have "insert_move p 0 (int (length xs)) 0 v = (q, int (n - 1))"
    using k f by (auto simp: insert_move_def Let_def f_move_backward.simps store_at_def q_def nat_diff_distrib')
  moreover have "ring n q (n - 1) (list_insert 1 v xs)"
  proof (rule ring_insert_head[OF m(2)[folded n_def] k])
    show "rel n q (n - 1) i = rel n p 0 i" if "i < 1" for i
      using that m(3) f k by (auto simp: rel_def wrap_def q_def nth_list_update n_def)
    show "rel n q (n - 1) i = rel n p (n - 1) i" if "1 < i" "i < n" for i
      using that m(3) f k by (auto simp: rel_def wrap_def q_def nth_list_update)
  qed (use m(3) f k in \<open>auto simp: rel_def wrap_def q_def n_def\<close>)
  ultimately show ?thesis
    using m k by (auto simp: list_rep_def n_def nat_diff_distrib')
qed

lemma f_remove_rep:
  assumes "list_rep l xs" "list_index (length xs) i = Inr k"
  shows "\<exists>l'. t_list_f_remove i l = Inr (xs ! k, l') \<and> list_rep l' (list_remove k xs)"
proof -
  have k: "k < length xs" using assms(2) by (rule list_index_less)
  then obtain p where p: "v_tuple l = Some p" "ring (v_grow l) p (v_head l) xs" "length p = v_grow l"
    "v_size l = length xs" "v_shrink l < length xs"
    using assms(1) by (auto elim: list_repE)
  obtain q h where q: "remove_move p (int (v_head l)) (int (length xs)) (int k) = (q, h)" by force
  define m where "m = l\<lparr>v_tuple := Some q, v_head := nat h, v_size := length xs - 1\<rparr>"
  have "ring (v_grow l) q (nat h) (list_remove k xs)"
    using remove_move_ring[OF p(2) k] q by simp
  then have "list_rep (if v_size m \<le> v_shrink m then t_list_f_shrink m else m) (list_remove k xs)"
    using p k by (intro shrink_rep[of _ q]) (auto simp: m_def simp flip: length_0_conv)
  moreover have "t_list_f_remove i l = Inr (xs ! k, if v_size m \<le> v_shrink m then t_list_f_shrink m else m)"
    using p k q
    by (simp add: t_list_f_remove_def f_validate_index[OF assms(1)] assms(2) t_list_cell_def f_at_wrap
        ringD(4)[OF p(2)] m_def)
  ultimately show ?thesis by blast
qed

lemma sort_rep:
  assumes "list_rep l xs" "length (sort_range xs) = length xs"
  shows "list_rep (t_list_f_sort sort_range l) (sort_range xs)"
proof (cases "v_tuple l")
  case None
  then show ?thesis
    using assms by (auto simp: t_list_f_sort_def list_rep_def t_list_new_def)
next
  case (Some p)
  then have r: "ring (v_grow l) p (v_head l) xs" "v_size l = length xs" "v_shrink l < length xs"
    using assms(1) by (auto simp: list_rep_def)
  define ys where "ys = sort_range xs"
  have ys: "length ys = length xs" using assms(2) by (simp add: ys_def)
  note f = ringD[OF r(1)]
  show ?thesis
  proof (cases "length p < v_head l + v_size l")
    case True
    define q where "q = std_rotate (v_head l) p"
    have "take (length xs) q = xs"
      using ring_contents[OF r(1)] True f r(2) by (simp add: q_def std_rotate_def ac_simps)
    moreover have "q ! i = V_null" if "length xs \<le> i" "i < v_grow l" for i
      using f(5)[of i] that f(1-3) True r(2)
      by (auto simp: q_def std_rotate_def nth_append wrap_def add.commute)
    moreover have "length q = v_grow l" using f by (simp add: q_def std_rotate_def)
    ultimately show ?thesis
      using True Some r f ys
      by (auto simp: t_list_f_sort_def list_rep_def ring_def wrap_def nth_append simp flip: q_def ys_def)
  next
    case False
    then have "take (length xs) (drop (v_head l) p) = xs"
      using ring_contents_straight[OF r(1)] f r(2) by simp
    moreover have "ring (v_grow l) (take (v_head l) p @ ys @ drop (v_head l + length xs) p) (v_head l) ys"
    proof (rule ring_intro)
      fix j assume j: "j < v_grow l"
      show "(take (v_head l) p @ ys @ drop (v_head l + length xs) p) ! j =
        (if v_head l \<le> j then if j - v_head l < length ys then ys ! (j - v_head l) else V_null
         else if j + v_grow l - v_head l < length ys then ys ! (j + v_grow l - v_head l) else V_null)"
        using j False f(1-3) ys r(2) ring_cell[OF r(1) j] by (auto simp: nth_append Let_def)
    qed (use False f(1-3) ys r(2) in auto)
    ultimately show ?thesis
      using False Some r ys by (simp add: t_list_f_sort_def list_rep_def flip: ys_def)
  qed
qed

section \<open>The list as a sequence\<close>

text \<open>The operations a program can ask for, on the object and on the sequence it stands for.  A failed
  operation raises and leaves the object as it was.\<close>

datatype list_op =
    Op_push t_value
  | Op_pop
  | Op_unshift t_value
  | Op_shift
  | Op_insert int t_value
  | Op_remove int
  | Op_get int
  | Op_set int t_value
  | Op_size
  | Op_clear

datatype list_reply = R_none | R_value t_value | R_size nat

definition reply :: "('a \<Rightarrow> list_reply) \<Rightarrow> ('a \<times> 's) result \<Rightarrow> (list_reply \<times> 's) result" where
  "reply f r = bind_result r (\<lambda>(x, s). Inr (f x, s))"

definition finish :: "'s result \<Rightarrow> (list_reply \<times> 's) result" where
  "finish r = bind_result r (\<lambda>s. Inr (R_none, s))"

fun list_step :: "list_op \<Rightarrow> t_list \<Rightarrow> (list_reply \<times> t_list) result" where
  "list_step (Op_push v) l = Inr (R_none, t_list_f_push v l)"
| "list_step Op_pop l = reply R_value (t_list_f_pop l)"
| "list_step (Op_unshift v) l = Inr (R_none, t_list_f_unshift v l)"
| "list_step Op_shift l = reply R_value (t_list_f_shift l)"
| "list_step (Op_insert i v) l = finish (t_list_f_insert i v l)"
| "list_step (Op_remove i) l = reply R_value (t_list_f_remove i l)"
| "list_step (Op_get i) l = bind_result (t_list_get_at l i) (\<lambda>v. Inr (R_value v, l))"
| "list_step (Op_set i v) l = finish (t_list_set_at l i v)"
| "list_step Op_size l = Inr (R_size (t_list_f_size l), l)"
| "list_step Op_clear l = Inr (R_none, t_list_f_clear l)"

fun seq_step :: "list_op \<Rightarrow> t_value list \<Rightarrow> (list_reply \<times> t_value list) result" where
  "seq_step (Op_push v) xs = Inr (R_none, xs @ [v])"
| "seq_step Op_pop xs = (if xs = [] then Inl (Thrown ''empty list.'') else Inr (R_value (last xs), butlast xs))"
| "seq_step (Op_unshift v) xs = Inr (R_none, v # xs)"
| "seq_step Op_shift xs = (if xs = [] then Inl (Thrown ''empty list.'') else Inr (R_value (hd xs), tl xs))"
| "seq_step (Op_insert i v) xs =
     (if i = int (length xs) then Inr (R_none, xs @ [v])
      else bind_result (list_index (length xs) i) (\<lambda>k. Inr (R_none, list_insert k v xs)))"
| "seq_step (Op_remove i) xs =
     bind_result (list_index (length xs) i) (\<lambda>k. Inr (R_value (xs ! k), list_remove k xs))"
| "seq_step (Op_get i) xs = bind_result (list_index (length xs) i) (\<lambda>k. Inr (R_value (xs ! k), xs))"
| "seq_step (Op_set i v) xs = bind_result (list_index (length xs) i) (\<lambda>k. Inr (R_none, xs[k := v]))"
| "seq_step Op_size xs = Inr (R_size (length xs), xs)"
| "seq_step Op_clear xs = Inr (R_none, [])"

text \<open>The one index \<open>f_insert\<close> gets wrong.\<close>

fun first_from_end :: "list_op \<Rightarrow> nat \<Rightarrow> bool" where
  "first_from_end (Op_insert i v) n \<longleftrightarrow> i = - int n \<and> 0 < n"
| "first_from_end _ n \<longleftrightarrow> False"

definition agrees :: "(list_reply \<times> t_list) result \<Rightarrow> (list_reply \<times> t_value list) result \<Rightarrow> bool" where
  "agrees r s =
     (case s of Inl e \<Rightarrow> r = Inl e | Inr (x, xs) \<Rightarrow> (\<exists>l. r = Inr (x, l) \<and> list_rep l xs))"

text \<open>A deque over any representation: what its first-in first-out clients rely on.\<close>

fun drain :: "('s \<Rightarrow> ('a \<times> 's) result) \<Rightarrow> nat \<Rightarrow> 's \<Rightarrow> ('a list \<times> 's) result" where
  "drain take_one 0 s = Inr ([], s)"
| "drain take_one (Suc n) s =
     bind_result (take_one s) (\<lambda>(x, s'). bind_result (drain take_one n s') (\<lambda>(xs, s''). Inr (x # xs, s'')))"

locale deque =
  fixes rep :: "'s \<Rightarrow> 'a list \<Rightarrow> bool"
    and empty :: 's
    and push :: "'a \<Rightarrow> 's \<Rightarrow> 's"
    and pop :: "'s \<Rightarrow> ('a \<times> 's) result"
    and unshift :: "'a \<Rightarrow> 's \<Rightarrow> 's"
    and shift :: "'s \<Rightarrow> ('a \<times> 's) result"
  assumes rep_empty: "rep empty []"
    and rep_push: "rep s xs \<Longrightarrow> rep (push x s) (xs @ [x])"
    and rep_pop: "rep s (xs @ [x]) \<Longrightarrow> \<exists>s'. pop s = Inr (x, s') \<and> rep s' xs"
    and rep_unshift: "rep s xs \<Longrightarrow> rep (unshift x s) (x # xs)"
    and rep_shift: "rep s (x # xs) \<Longrightarrow> \<exists>s'. shift s = Inr (x, s') \<and> rep s' xs"
begin

lemma rep_fold_push: "rep s xs \<Longrightarrow> rep (fold push ys s) (xs @ ys)"
proof (induction ys arbitrary: s xs)
  case (Cons y ys)
  then show ?case using Cons.IH[OF rep_push[OF Cons.prems, of y]] by simp
qed simp

lemma rep_fold_unshift: "rep s xs \<Longrightarrow> rep (fold unshift ys s) (rev ys @ xs)"
  by (induction ys arbitrary: s xs) (auto dest: rep_unshift)

lemma drain_shift: "rep s (xs @ ys) \<Longrightarrow> \<exists>s'. drain shift (length xs) s = Inr (xs, s') \<and> rep s' ys"
proof (induction xs arbitrary: s)
  case (Cons x xs)
  then obtain t where t: "shift s = Inr (x, t)" "rep t (xs @ ys)"
    using rep_shift[of s x "xs @ ys"] by auto
  with Cons.IH[OF t(2)] show ?case by auto
qed simp

lemma drain_pop: "rep s (xs @ ys) \<Longrightarrow> \<exists>s'. drain pop (length ys) s = Inr (rev ys, s') \<and> rep s' xs"
proof (induction ys arbitrary: s rule: rev_induct)
  case (snoc y ys)
  then obtain t where t: "pop s = Inr (y, t)" "rep t (xs @ ys)"
    using rep_pop[of s "xs @ ys" y] by auto
  with snoc.IH[OF t(2)] show ?case by auto
qed simp

lemma queue_order: "\<exists>s. drain shift (length xs) (fold push xs empty) = Inr (xs, s) \<and> rep s []"
  using drain_shift[of "fold push xs empty" xs "[]"] rep_fold_push[OF rep_empty, of xs] by simp

lemma stack_order: "\<exists>s. drain pop (length xs) (fold push xs empty) = Inr (rev xs, s) \<and> rep s []"
  using drain_pop[of "fold push xs empty" "[]" xs] rep_fold_push[OF rep_empty, of xs] by simp

end

interpretation list_deque: deque list_rep t_list_new t_list_f_push t_list_f_pop t_list_f_unshift t_list_f_shift
  by unfold_locales (auto intro: list_rep_new f_push_rep f_pop_rep f_unshift_rep f_shift_rep)

lemma reply_agrees:
  "agrees (reply R_value (Inr (x, l))) (Inr (R_value y, xs)) \<longleftrightarrow> x = y \<and> list_rep l xs"
  by (auto simp: agrees_def reply_def)

lemma agrees_Inl: "agrees (Inl e) (Inl e)"
  by (simp add: agrees_def)

lemma pop_agrees: "list_rep l xs \<Longrightarrow> agrees (list_step Op_pop l) (seq_step Op_pop xs)"
  using f_pop_rep[of l "butlast xs" "last xs"] list_rep_size[of l xs]
  by (cases "xs = []") (auto simp: reply_agrees agrees_def reply_def t_list_f_pop_def t_list_f_size_def)

lemma shift_agrees: "list_rep l xs \<Longrightarrow> agrees (list_step Op_shift l) (seq_step Op_shift xs)"
  using f_shift_rep[of l "hd xs" "tl xs"] list_rep_size[of l xs]
  by (cases "xs = []") (auto simp: agrees_def reply_def t_list_f_shift_def t_list_f_size_def)

lemma insert_agrees:
  assumes "list_rep l xs" "\<not> first_from_end (Op_insert i v) (length xs)"
  shows "agrees (list_step (Op_insert i v) l) (seq_step (Op_insert i v) xs)"
proof (cases "i = int (length xs) \<or> i = 0")
  case True
  then show ?thesis
    using assms(1) list_rep_size[OF assms(1)] f_push_rep[OF assms(1), of v] f_unshift_rep[OF assms(1), of v]
    by (auto simp: agrees_def finish_def t_list_f_insert_def t_list_f_size_def list_index_def list_insert_def)
next
  case False
  have s: "v_size l = length xs" using assms(1) by (simp add: list_rep_def)
  show ?thesis
  proof (cases "list_index (length xs) i")
    case (Inl e)
    then show ?thesis
      using False s by (simp add: agrees_def finish_def t_list_f_insert_def f_validate_index[OF assms(1)])
  next
    case (Inr k)
    then have "0 < k"
      using assms(2) False by (auto simp: list_index_def f_throw_out_of_range_def split: if_splits)
    then show ?thesis
      using f_insert_rep[OF assms(1) Inr, of v] False Inr by (auto simp: agrees_def finish_def)
  qed
qed

lemma remove_agrees:
  assumes "list_rep l xs"
  shows "agrees (list_step (Op_remove i) l) (seq_step (Op_remove i) xs)"
proof (cases "list_index (length xs) i")
  case (Inl e)
  then show ?thesis
    by (simp add: agrees_def reply_def t_list_f_remove_def f_validate_index[OF assms])
next
  case (Inr k)
  then show ?thesis
    using f_remove_rep[OF assms Inr] by (auto simp: agrees_def reply_def)
qed

lemma set_agrees:
  assumes "list_rep l xs"
  shows "agrees (list_step (Op_set i v) l) (seq_step (Op_set i v) xs)"
proof (cases "list_index (length xs) i")
  case (Inl e)
  then show ?thesis
    by (simp add: agrees_def finish_def t_list_set_at_def f_validate_index[OF assms])
next
  case (Inr k)
  then show ?thesis
    using f_set_at_rep[OF assms Inr, of v] by (auto simp: agrees_def finish_def)
qed

lemma get_agrees:
  assumes "list_rep l xs"
  shows "agrees (list_step (Op_get i) l) (seq_step (Op_get i) xs)"
  using f_get_at_rep[OF assms, of i] assms
  by (cases "list_index (length xs) i") (auto simp: agrees_def)

lemma step_agrees:
  assumes "list_rep l xs" "\<not> first_from_end op (length xs)"
  shows "agrees (list_step op l) (seq_step op xs)"
proof (cases op)
  case (Op_insert i v)
  then show ?thesis using insert_agrees assms by simp
qed (use assms in \<open>auto simp: agrees_def list_rep_clear list_rep_size f_push_rep f_unshift_rep
      simp del: list_step.simps(2,4,6-8) seq_step.simps(2,4,6-8)
      intro: pop_agrees[unfolded agrees_def] shift_agrees[unfolded agrees_def] remove_agrees[unfolded agrees_def]
        set_agrees[unfolded agrees_def] get_agrees[unfolded agrees_def]\<close>)

text \<open>A program of operations: the replies, errors included, and the state it leaves.\<close>

fun run :: "('op \<Rightarrow> 's \<Rightarrow> ('r \<times> 's) result) \<Rightarrow> 'op list \<Rightarrow> 's \<Rightarrow> 'r result list \<times> 's" where
  "run step [] s = ([], s)"
| "run step (op # ops) s =
     (case step op s of
        Inl e \<Rightarrow> (let (rs, s') = run step ops s in (Inl e # rs, s'))
      | Inr (r, s1) \<Rightarrow> (let (rs, s') = run step ops s1 in (Inr r # rs, s')))"

fun insertions_ok :: "list_op list \<Rightarrow> t_value list \<Rightarrow> bool" where
  "insertions_ok [] xs \<longleftrightarrow> True"
| "insertions_ok (op # ops) xs \<longleftrightarrow>
     \<not> first_from_end op (length xs) \<and>
     insertions_ok ops (case seq_step op xs of Inl _ \<Rightarrow> xs | Inr (_, ys) \<Rightarrow> ys)"

lemma run_simulates:
  assumes "list_rep l xs" "insertions_ok ops xs"
  shows "fst (run list_step ops l) = fst (run seq_step ops xs) \<and>
    list_rep (snd (run list_step ops l)) (snd (run seq_step ops xs))"
  using assms
proof (induction ops arbitrary: l xs)
  case (Cons op ops)
  then have a: "agrees (list_step op l) (seq_step op xs)" by (simp add: step_agrees)
  show ?case
  proof (cases "seq_step op xs")
    case (Inl e)
    with a Cons show ?thesis by (simp add: agrees_def split: prod.splits) (metis fst_conv snd_conv)
  next
    case (Inr r)
    then obtain x ys where r: "seq_step op xs = Inr (x, ys)" by (cases r) auto
    with a obtain l' where l': "list_step op l = Inr (x, l')" "list_rep l' ys"
      by (auto simp: agrees_def)
    have "insertions_ok ops ys" using Cons.prems(2) r by simp
    with Cons.IH[OF l'(2)] l'(1) r show ?thesis
      by (auto split: prod.splits)
  qed
qed simp

lemma list_rep_construct: "list_rep (t_list_f_do_construct xs) xs"
  using list_deque.rep_fold_push[OF list_rep_new, of xs] by (simp add: t_list_f_do_construct_def)

section \<open>Properties\<close>

text \<open>C1: A list behaves as a sequence.  For every program of \<open>push\<close>, \<open>pop\<close>, \<open>unshift\<close>, \<open>shift\<close>,
  \<open>insert\<close>, \<open>remove\<close>, reads, writes, \<open>size\<close> and \<open>clear\<close> run on a new list, every reply and every
  error is the one the operation has on sequences, a failed operation changes nothing, and the ring
  buffer the program leaves holds the sequence with every other cell null.  The one operation left
  out is \<open>insert\<close> at index \<open>- size\<close>.\<close>

theorem list_refines_sequence:
  assumes "insertions_ok ops []"
  shows "fst (run list_step ops t_list_new) = fst (run seq_step ops []) \<and>
    list_rep (snd (run list_step ops t_list_new)) (snd (run seq_step ops []))"
  using run_simulates[OF list_rep_new assms] .

theorem list_refines_sequence_witness:
  "insertions_ok [Op_push V_true, Op_unshift V_false, Op_insert 1 V_null, Op_remove (- 1), Op_get 5] [] \<and>
   fst (run list_step [Op_push V_true, Op_unshift V_false, Op_insert 1 V_null, Op_remove (- 1), Op_get 5] t_list_new) =
     [Inr R_none, Inr R_none, Inr R_none, Inr (R_value V_true), f_throw_out_of_range]"
  using list_refines_sequence[of "[Op_push V_true, Op_unshift V_false, Op_insert 1 V_null, Op_remove (- 1), Op_get 5]"]
  by (simp add: list_index_def list_insert_def list_remove_def f_throw_out_of_range_def)

text \<open>C18: \<open>insert\<close> at index \<open>- size\<close>, the first position counted from the end, puts the value second
  when the window starts at cell 0 of the tuple: the offset \<open>--i\<close> falls below the start of the array,
  the block move does nothing and the old first element stays in front of the new one.\<close>

theorem list_insert_first_from_end:
  assumes "list_rep l xs" "xs \<noteq> []"
    and "v_head (if v_grow l \<le> v_size l then t_list_f_grow l else l) = 0"
  shows "\<exists>l'. t_list_f_insert (- int (length xs)) v l = Inr l' \<and> list_rep l' (hd xs # v # tl xs)"
proof -
  have "list_insert 1 v xs = hd xs # v # tl xs"
    using assms(2) by (cases xs) (auto simp: list_insert_def)
  then show ?thesis
    using f_insert_first_misplaced[OF assms(1) _ _ assms(3), of "- int (length xs)" v] assms(2)
    by (simp add: list_index_def)
qed

theorem list_insert_first_from_end_witness:
  "list_rep (t_list_f_do_construct [V_true, V_false]) [V_true, V_false] \<and>
   (\<exists>l'. t_list_f_insert (- 2) V_null (t_list_f_do_construct [V_true, V_false]) = Inr l' \<and>
     list_rep l' [V_true, V_null, V_false])"
proof -
  have "v_head (if v_grow (t_list_f_do_construct [V_true, V_false]) \<le> v_size (t_list_f_do_construct [V_true, V_false])
      then t_list_f_grow (t_list_f_do_construct [V_true, V_false]) else t_list_f_do_construct [V_true, V_false]) = 0"
    by code_simp
  from list_insert_first_from_end[OF list_rep_construct _ this, of V_null] list_rep_construct
  show ?thesis by auto
qed

text \<open>C17: First in, first out: shifting all the elements off a list constructed from arguments yields
  the arguments in order and leaves an empty list, and popping them yields the reverse.\<close>

theorem list_construct_order:
  "(\<exists>l. drain t_list_f_shift (length xs) (t_list_f_do_construct xs) = Inr (xs, l) \<and> list_rep l []) \<and>
   (\<exists>l. drain t_list_f_pop (length xs) (t_list_f_do_construct xs) = Inr (rev xs, l) \<and> list_rep l [])"
  unfolding t_list_f_do_construct_def using list_deque.queue_order list_deque.stack_order by blast

text \<open>C16: \<open>sort\<close> sorts the sequence the list holds, wherever its window lies in the tuple and whether
  or not it wraps: with the range sort a permutation, the list afterwards holds the sorted range, no
  element is lost or duplicated and the cells outside the window are still null.\<close>

theorem list_sort_permutes:
  assumes "list_rep l xs" "\<And>ys. mset (sort_range ys) = mset ys"
  shows "list_rep (t_list_f_sort sort_range l) (sort_range xs) \<and> mset (sort_range xs) = mset xs"
proof -
  have "length (sort_range xs) = length xs" using assms(2) by (metis size_mset)
  then show ?thesis using sort_rep[OF assms(1)] assms(2) by simp
qed

theorem list_sort_permutes_witness:
  "list_rep (t_list_f_sort (sort_key f_tag) (t_list_f_do_construct [V_true, V_null, V_false]))
     [V_null, V_false, V_true]"
  using list_sort_permutes[OF list_rep_construct, of "sort_key f_tag" "[V_true, V_null, V_false]"]
  by (simp add: c_tag_defs)

end
