(* ===== verification/Xm_Map.thy ===== *)
theory Xm_Map
  imports Xm_Operators
begin

text \<open>
  The built-in map (src/include/xemmai/map.h, src/src/map.cc): an open-addressing hash table whose
  entries carry the length of their probe sequence, \<open>v_gap\<close> (1 at the home slot, 0 for a free
  entry).  A search stops as soon as an entry is nearer to its home than the key would be, an
  insertion displaces such entries, and a removal pulls the last entry of the following run back.

  \<open>t_table\<close> and \<open>t_map\<close> are the objects' states; a pointer to an entry is its index and \<open>v_end\<close> the
  length of the array.  The hash and the equality of keys are methods of the key objects: they are
  parameters here, as total functions without effects.  The counter of a loop never exceeds the gaps
  in the table, which gives most loops a measure; \<open>t_table_f_put\<close> needs a free entry to stop and has
  the capacity as fuel, which the lemmas show to be enough.
\<close>

section \<open>State and operations\<close>

record t_entry =
  v_gap :: nat
  v_hash :: i64
  v_key :: t_value
  v_value :: t_value

definition t_entry_new :: t_entry where
  "t_entry_new = \<lparr>v_gap = 0, v_hash = 0, v_key = V_null, v_value = V_null\<rparr>"

text \<open>\<open>v_ranks\<close>: the capacities; \<open>v_upper\<close> and \<open>v_lower\<close> are derived by the constructor of \<open>t_rank\<close>.\<close>

definition v_ranks :: "nat list" where
  "v_ranks =
     [11, 23, 53, 97, 193, 389, 769,
      1543, 3079, 6151, 12289, 24593, 49157, 98317,
      196613, 393241, 786433, 1572869, 3145739, 6291469, 12582917,
      25165843, 50331653, 100663319, 201326611, 402653189, 805306457, 1610612741]"

definition v_capacity :: "nat \<Rightarrow> nat" where
  "v_capacity rank = v_ranks ! rank"

definition v_upper :: "nat \<Rightarrow> nat" where
  "v_upper rank = v_capacity rank div 2"

definition v_lower :: "nat \<Rightarrow> nat" where
  "v_lower rank = (if rank = 0 then 0 else v_capacity rank div 4)"

definition f_slot :: "nat \<Rightarrow> i64 \<Rightarrow> nat" where
  "f_slot capacity a_hash = unat a_hash mod capacity"

record t_table =
  v_rank :: nat
  f_entries :: "t_entry list"

definition t_table_f_instantiate :: "nat \<Rightarrow> t_table" where
  "t_table_f_instantiate a_rank =
     \<lparr>v_rank = a_rank, f_entries = replicate (v_capacity a_rank) t_entry_new\<rparr>"

text \<open>\<open>if (++p >= v_end) p = f_entries()\<close>, and the gap of the entry at an index.\<close>

definition next_entry :: "t_entry list \<Rightarrow> nat \<Rightarrow> nat" where
  "next_entry es p = (if length es \<le> Suc p then 0 else Suc p)"

definition gap_at :: "t_entry list \<Rightarrow> nat \<Rightarrow> nat" where
  "gap_at es p = (if p < length es then v_gap (es ! p) else 0)"

lemma gap_at_bound: "gap_at es p \<le> sum_list (map v_gap es)"
  by (auto simp: gap_at_def intro: member_le_sum_list)

definition t_table_f_equals :: "(t_value \<Rightarrow> t_value \<Rightarrow> bool) \<Rightarrow> t_entry \<Rightarrow> i64 \<Rightarrow> t_value \<Rightarrow> bool" where
  "t_table_f_equals eq a_p a_hash a_key \<longleftrightarrow> v_hash a_p = a_hash \<and> eq (v_key a_p) a_key"

text \<open>The loops of the two \<open>f_find\<close>: entries of earlier homes are skipped, then the run of the key's
  home is searched.\<close>

function find_skip :: "t_entry list \<Rightarrow> nat \<Rightarrow> nat \<Rightarrow> nat \<times> nat" where
  "find_skip es p gap =
     (if gap < gap_at es p then find_skip es (next_entry es p) (Suc gap) else (p, gap))"
  by pat_completeness auto
termination
  by (relation "measure (\<lambda>(es, p, gap). sum_list (map v_gap es) - gap)")
    (auto intro: diff_less_mono2 less_le_trans gap_at_bound)

function find_run :: "(t_entry \<Rightarrow> bool) \<Rightarrow> t_entry list \<Rightarrow> nat \<Rightarrow> nat \<Rightarrow> nat option" where
  "find_run equals es p gap =
     (if gap_at es p = gap
      then if equals (es ! p) then Some p else find_run equals es (next_entry es p) (Suc gap)
      else None)"
  by pat_completeness auto
termination
  by (relation "measure (\<lambda>(equals, es, p, gap). Suc (sum_list (map v_gap es)) - gap)")
    (auto simp: Suc_diff_le gap_at_bound)

function find_place :: "(t_entry \<Rightarrow> bool) \<Rightarrow> t_entry list \<Rightarrow> nat \<Rightarrow> nat \<Rightarrow> nat \<times> nat" where
  "find_place equals es p gap =
     (if gap \<le> gap_at es p \<and> \<not> equals (es ! p)
      then find_place equals es (next_entry es p) (Suc gap)
      else (p, gap))"
  by pat_completeness auto
termination
  by (relation "measure (\<lambda>(equals, es, p, gap). Suc (sum_list (map v_gap es)) - gap)")
    (auto simp: Suc_diff_le le_trans[OF _ gap_at_bound])

declare find_skip.simps [simp del] find_run.simps [simp del] find_place.simps [simp del]

definition t_table_f_find :: "(t_value \<Rightarrow> i64) \<Rightarrow> (t_value \<Rightarrow> t_value \<Rightarrow> bool) \<Rightarrow> t_entry list \<Rightarrow> t_value \<Rightarrow> nat option" where
  "t_table_f_find h eq es a_key =
     (let hash = h a_key;
          (p, gap) = find_skip es (f_slot (length es) hash) 1
      in find_run (\<lambda>e. t_table_f_equals eq e hash a_key) es p gap)"

definition t_table_f_find2 :: "(t_value \<Rightarrow> t_value \<Rightarrow> bool) \<Rightarrow> t_entry list \<Rightarrow> i64 \<Rightarrow> t_value \<Rightarrow> nat \<times> nat" where
  "t_table_f_find2 eq es a_hash a_key =
     (let (p, gap) = find_skip es (f_slot (length es) a_hash) 1
      in find_place (\<lambda>e. t_table_f_equals eq e a_hash a_key) es p gap)"

text \<open>\<open>t_table::f_put\<close>: the entry carried takes the place of the one found there, which is carried on
  past the rest of its run.  The carried entry has the fields \<open>a_gap\<close>, \<open>a_hash\<close>, \<open>a_key\<close> and
  \<open>a_value\<close>.\<close>

function put_skip :: "t_entry list \<Rightarrow> nat \<Rightarrow> nat \<Rightarrow> nat \<times> nat" where
  "put_skip es p gap =
     (if Suc gap \<le> gap_at es (next_entry es p) then put_skip es (next_entry es p) (Suc gap)
      else (next_entry es p, Suc gap))"
  by pat_completeness auto
termination
  by (relation "measure (\<lambda>(es, p, gap). sum_list (map v_gap es) - gap)")
    (auto intro!: diff_less_mono2 intro: less_le_trans[OF _ gap_at_bound] simp: Suc_le_eq)

declare put_skip.simps [simp del]

fun t_table_f_put :: "nat \<Rightarrow> t_entry list \<Rightarrow> nat \<Rightarrow> t_entry \<Rightarrow> t_entry list option" where
  "t_table_f_put 0 es a_p a = None"
| "t_table_f_put (Suc fuel) es a_p a =
     (if gap_at es a_p = 0 then Some (es[a_p := a])
      else let carried = es ! a_p;
               es' = es[a_p := a];
               (p, gap) = put_skip es' a_p (v_gap carried)
           in t_table_f_put fuel es' p (carried\<lparr>v_gap := gap\<rparr>))"

text \<open>\<open>f_rehash\<close>: the search for the place of an entry of the old table, and the loop over them.\<close>

function rehash_place :: "t_entry list \<Rightarrow> nat \<Rightarrow> nat \<Rightarrow> nat \<times> nat" where
  "rehash_place es q gap =
     (if Suc gap \<le> gap_at es q then rehash_place es (next_entry es q) (Suc gap) else (q, Suc gap))"
  by pat_completeness auto
termination
  by (relation "measure (\<lambda>(es, q, gap). sum_list (map v_gap es) - gap)")
    (auto intro!: diff_less_mono2 intro: less_le_trans[OF _ gap_at_bound] simp: Suc_le_eq)

declare rehash_place.simps [simp del]

fun rehash_entries :: "t_entry list \<Rightarrow> t_entry list \<Rightarrow> t_entry list option" where
  "rehash_entries [] table1 = Some table1"
| "rehash_entries (p # ps) table1 =
     (if v_gap p = 0 then rehash_entries ps table1
      else let (q, gap) = rehash_place table1 (f_slot (length table1) (v_hash p)) 0
           in case t_table_f_put (length table1) table1 q (p\<lparr>v_gap := gap\<rparr>) of
                None \<Rightarrow> None
              | Some table1' \<Rightarrow> rehash_entries ps table1')"

record t_map =
  v_table :: t_table
  v_size :: nat

definition t_map_new :: t_map where
  "t_map_new = \<lparr>v_table = t_table_f_instantiate 0, v_size = 0\<rparr>"

definition t_map_f_rehash :: "nat \<Rightarrow> t_map \<Rightarrow> t_map option" where
  "t_map_f_rehash a_rank m =
     map_option (\<lambda>es. m\<lparr>v_table := \<lparr>v_rank = a_rank, f_entries = es\<rparr>\<rparr>)
       (rehash_entries (f_entries (v_table m)) (f_entries (t_table_f_instantiate a_rank)))"

definition t_map_f_clear :: "t_map \<Rightarrow> t_map" where
  "t_map_f_clear m = m\<lparr>v_table := t_table_f_instantiate 0, v_size := 0\<rparr>"

definition t_map_f_size :: "t_map \<Rightarrow> nat" where
  "t_map_f_size m = v_size m"

definition t_map_f_get :: "(t_value \<Rightarrow> i64) \<Rightarrow> (t_value \<Rightarrow> t_value \<Rightarrow> bool) \<Rightarrow> t_map \<Rightarrow> t_value \<Rightarrow> t_value result" where
  "t_map_f_get h eq m a_key =
     (case t_table_f_find h eq (f_entries (v_table m)) a_key of
        None \<Rightarrow> Inl (Thrown ''key not found.'')
      | Some p \<Rightarrow> Inr (v_value (f_entries (v_table m) ! p)))"

definition t_map_f_has :: "(t_value \<Rightarrow> i64) \<Rightarrow> (t_value \<Rightarrow> t_value \<Rightarrow> bool) \<Rightarrow> t_map \<Rightarrow> t_value \<Rightarrow> bool" where
  "t_map_f_has h eq m a_key = (t_table_f_find h eq (f_entries (v_table m)) a_key \<noteq> None)"

text \<open>\<open>t_map::f_put\<close>.  The outer option is the fuel of the table's loops.\<close>

definition t_map_f_put :: "(t_value \<Rightarrow> i64) \<Rightarrow> (t_value \<Rightarrow> t_value \<Rightarrow> bool) \<Rightarrow> t_value \<Rightarrow> t_value \<Rightarrow> t_map \<Rightarrow> t_map result option" where
  "t_map_f_put h eq a_key a_value m =
     (let es = f_entries (v_table m);
          hash = h a_key;
          (p, gap) = t_table_f_find2 eq es hash a_key
      in if gap_at es p = gap
         then Some (Inr (m\<lparr>v_table := (v_table m)\<lparr>f_entries := es[p := (es ! p)\<lparr>v_value := a_value\<rparr>]\<rparr>\<rparr>))
         else if v_upper (v_rank (v_table m)) \<le> v_size m \<and> length v_ranks \<le> Suc (v_rank (v_table m))
         then Some (Inl (Thrown ''cannot grow.''))
         else do {
           m' \<leftarrow> (if v_upper (v_rank (v_table m)) \<le> v_size m
                  then t_map_f_rehash (Suc (v_rank (v_table m))) m else Some m);
           let es' = f_entries (v_table m');
           let (p', gap') = (if v_upper (v_rank (v_table m)) \<le> v_size m
                             then t_table_f_find2 eq es' hash a_key else (p, gap));
           es'' \<leftarrow> t_table_f_put (length es') es' p'
                    \<lparr>v_gap = gap', v_hash = hash, v_key = a_key, v_value = a_value\<rparr>;
           Some (Inr (m'\<lparr>v_table := (v_table m')\<lparr>f_entries := es''\<rparr>, v_size := Suc (v_size m')\<rparr>))
         })"

text \<open>\<open>f_remove\<close>: the last entry of the run that follows, and the loop that pulls runs back.\<close>

function run_last :: "t_entry list \<Rightarrow> nat \<Rightarrow> nat \<Rightarrow> nat" where
  "run_last es q g =
     (if gap_at es (next_entry es q) < Suc g then q else run_last es (next_entry es q) (Suc g))"
  by pat_completeness auto
termination
  by (relation "measure (\<lambda>(es, q, g). sum_list (map v_gap es) - g)")
    (auto intro!: diff_less_mono2 intro: less_le_trans[OF _ gap_at_bound] simp: Suc_le_eq not_less)

declare run_last.simps [simp del]


lemma run_last_gap: "g \<le> gap_at es q \<Longrightarrow> g \<le> gap_at es (run_last es q g)"
proof (induction es q g rule: run_last.induct)
  case (1 es q g)
  then show ?case by (subst run_last.simps) fastforce
qed

definition erase :: "t_entry \<Rightarrow> t_entry" where
  "erase e = e\<lparr>v_gap := 0, v_key := V_null, v_value := V_null\<rparr>"

definition pull_back :: "t_entry list \<Rightarrow> nat \<Rightarrow> nat \<Rightarrow> nat \<Rightarrow> t_entry list" where
  "pull_back es p gap q = (es[p := (es ! q)\<lparr>v_gap := gap - 1\<rparr>])[q := erase (es ! q)]"

lemma sum_gaps_update:
  "k < length es \<Longrightarrow> sum_list (map v_gap (es[k := e])) + v_gap (es ! k) = sum_list (map v_gap es) + v_gap e"
proof (induction es arbitrary: k)
  case (Cons a es)
  then show ?case by (cases k) force+
qed simp

lemma pull_back_less:
  assumes "1 < gap" "gap \<le> gap_at es q"
  shows "sum_list (map v_gap (pull_back es p gap q)) < sum_list (map v_gap es)"
proof -
  define es1 where "es1 = es[p := (es ! q)\<lparr>v_gap := gap - 1\<rparr>]"
  have q: "q < length es" "gap \<le> v_gap (es ! q)" using assms by (auto simp: gap_at_def split: if_splits)
  have *: "sum_list (map v_gap (es1[q := erase (es ! q)])) + v_gap (es1 ! q) = sum_list (map v_gap es1)"
    using sum_gaps_update[of q es1 "erase (es ! q)"] q by (simp add: es1_def erase_def)
  have "sum_list (map v_gap es1) < sum_list (map v_gap es) + v_gap (es1 ! q)"
  proof (cases "p < length es")
    case True
    then show ?thesis
      using sum_gaps_update[of p es "(es ! q)\<lparr>v_gap := gap - 1\<rparr>"] q assms(1)
      by (cases "p = q") (auto simp: es1_def)
  next
    case False
    then show ?thesis using q assms(1) by (simp add: es1_def list_update_beyond)
  qed
  then show ?thesis using * by (simp add: pull_back_def es1_def)
qed

function remove_shift :: "t_entry list \<Rightarrow> nat \<Rightarrow> t_entry list" where
  "remove_shift es p =
     (let gap = gap_at es (next_entry es p)
      in if gap \<le> 1 then es
         else let q = run_last es (next_entry es p) gap in remove_shift (pull_back es p gap q) q)"
  by pat_completeness auto
termination
  by (relation "measure (\<lambda>(es, p). sum_list (map v_gap es))")
    (auto simp: not_le Let_def intro!: pull_back_less run_last_gap)

declare remove_shift.simps [simp del]

definition t_map_f_remove :: "(t_value \<Rightarrow> i64) \<Rightarrow> (t_value \<Rightarrow> t_value \<Rightarrow> bool) \<Rightarrow> t_value \<Rightarrow> t_map \<Rightarrow> (t_value \<times> t_map) result option" where
  "t_map_f_remove h eq a_key m =
     (let es = f_entries (v_table m)
      in case t_table_f_find h eq es a_key of
           None \<Rightarrow> Some (Inl (Thrown ''key not found.''))
         | Some p \<Rightarrow>
             let v = v_value (es ! p);
                 m' = m\<lparr>v_table := (v_table m)\<lparr>f_entries := remove_shift (es[p := erase (es ! p)]) p\<rparr>,
                        v_size := v_size m - 1\<rparr>
             in if v_size m' < v_lower (v_rank (v_table m))
                then map_option (\<lambda>m''. Inr (v, m'')) (t_map_f_rehash (v_rank (v_table m) - 1) m')
                else Some (Inr (v, m')))"

text \<open>\<open>t_iterator\<close>: the constructor and \<open>f_next\<close> move to the next entry in use.\<close>

function iterator_seek :: "t_entry list \<Rightarrow> nat \<Rightarrow> nat option" where
  "iterator_seek es p =
     (if p < length es then if v_gap (es ! p) \<noteq> 0 then Some p else iterator_seek es (Suc p) else None)"
  by pat_completeness auto
termination
  by (relation "measure (\<lambda>(es, p). length es - p)") auto

declare iterator_seek.simps [simp del]

definition t_iterator_new :: "t_map \<Rightarrow> nat option" where
  "t_iterator_new m = iterator_seek (f_entries (v_table m)) 0"

definition t_iterator_f_next :: "t_map \<Rightarrow> nat \<Rightarrow> nat option" where
  "t_iterator_f_next m p = iterator_seek (f_entries (v_table m)) (Suc p)"




section \<open>Hash and equality of values\<close>

text \<open>\<open>t_value::f_hash\<close> and \<open>t_value::f_equals\<close> (src/include/xemmai/global.h).  \<open>std_hash\<close> is
  \<open>std::hash<double>\<close>; the methods of objects are parameters.\<close>

definition value_hash :: "(float64 \<Rightarrow> i64) \<Rightarrow> (nat \<Rightarrow> i64) \<Rightarrow> t_value \<Rightarrow> i64" where
  "value_hash std_hash object_hash v =
     (case v of
        V_integer a \<Rightarrow> a
      | V_float a \<Rightarrow> std_hash a
      | V_object p \<Rightarrow> object_hash p
      | _ \<Rightarrow> of_nat (f_tag v))"

definition value_equals :: "store \<Rightarrow> (nat \<Rightarrow> t_value \<Rightarrow> bool) \<Rightarrow> t_value \<Rightarrow> t_value \<Rightarrow> bool" where
  "value_equals st object_equals a0 a1 =
     (case a0 of
        V_integer a \<Rightarrow> intptr_equals st a a1
      | V_float a \<Rightarrow> double_equals st a a1
      | V_object p \<Rightarrow> object_equals p a1
      | _ \<Rightarrow> a0 = a1)"

text \<open>Keys whose classes override neither method: the defaults of \<open>t_type_of<t_object>\<close>, \<open>f__hash\<close> and
  \<open>f__equals\<close>, on a heap without objects derived from numbers.\<close>

definition plain_hash :: "(float64 \<Rightarrow> i64) \<Rightarrow> t_value \<Rightarrow> i64" where
  "plain_hash std_hash = value_hash std_hash (\<lambda>p. of_nat (f_tag (V_object p)))"

definition plain_equals :: "t_value \<Rightarrow> t_value \<Rightarrow> bool" where
  "plain_equals = value_equals \<lparr>o_integer = \<lambda>_. None, o_float = \<lambda>_. None\<rparr> (\<lambda>p v. f_equal (V_object p) v)"


section \<open>Probe sequences\<close>

lemma next_entry_mod: "p < length es \<Longrightarrow> next_entry es p = Suc p mod length es"
  by (auto simp: next_entry_def mod_Suc)

lemma next_entry_less [simp]: "es \<noteq> [] \<Longrightarrow> next_entry es p < length es"
  by (auto simp: next_entry_def)

lemma next_entry_update [simp]: "next_entry (es[i := e]) p = next_entry es p"
  by (simp add: next_entry_def)

lemma next_entry_inj: "next_entry es p = next_entry es q \<Longrightarrow> p < length es \<Longrightarrow> q < length es \<Longrightarrow> p = q"
  by (auto simp: next_entry_def split: if_splits)

lemma next_entry_neq: "1 < length es \<Longrightarrow> p < length es \<Longrightarrow> next_entry es p \<noteq> p"
  by (auto simp: next_entry_def)

lemma gap_at_update: "p < length es \<Longrightarrow> gap_at (es[p := e]) q = (if q = p then v_gap e else gap_at es q)"
  by (simp add: gap_at_def)

text \<open>The entry \<open>i\<close> steps after \<open>s\<close>, and its gap.\<close>

definition probe :: "t_entry list \<Rightarrow> nat \<Rightarrow> nat \<Rightarrow> nat" where
  "probe es s i = (s + i) mod length es"

lemma probe_less [simp]: "es \<noteq> [] \<Longrightarrow> probe es s i < length es"
  by (simp add: probe_def)

lemma probe_0: "s < length es \<Longrightarrow> probe es s 0 = s"
  by (simp add: probe_def)

lemma next_probe: "es \<noteq> [] \<Longrightarrow> next_entry es (probe es s i) = probe es s (Suc i)"
  by (simp add: next_entry_mod probe_def mod_Suc_eq)

lemma probe_update [simp]: "probe (es[p := e]) s i = probe es s i"
  by (simp add: probe_def)

lemma probe_inj: "probe es s i = probe es s j \<Longrightarrow> i < length es \<Longrightarrow> j < length es \<Longrightarrow> i = j"
  unfolding probe_def
proof (induction i j rule: linorder_wlog)
  case (le i j)
  then have "length es dvd (s + j) - (s + i)" by (metis mod_eq_dvd_iff_nat add_left_mono)
  then show ?case using le by (auto dest!: dvd_imp_le)
qed simp

lemma probe_reach: "s < length es \<Longrightarrow> p < length es \<Longrightarrow> \<exists>i < length es. probe es s i = p"
proof (cases "s \<le> p")
  case True
  assume "s < length es" "p < length es"
  with True show ?thesis by (intro exI[of _ "p - s"]) (simp add: probe_def)
next
  case False
  assume "s < length es" "p < length es"
  with False show ?thesis by (intro exI[of _ "p + length es - s"]) (simp add: probe_def)
qed

text \<open>Gaps grow by at most one from an entry to the next, and every entry in use lies as many steps from
  the home slot of its hash as its gap says.\<close>

definition homed :: "t_entry list \<Rightarrow> nat \<Rightarrow> t_entry \<Rightarrow> bool" where
  "homed es p e \<longleftrightarrow> probe es (f_slot (length es) (v_hash e)) (v_gap e - 1) = p"

definition table_ok :: "t_entry list \<Rightarrow> bool" where
  "table_ok es \<longleftrightarrow>
     1 < length es \<and>
     (\<forall>p < length es. gap_at es (next_entry es p) \<le> Suc (gap_at es p)) \<and>
     (\<forall>p < length es. v_gap (es ! p) \<noteq> 0 \<longrightarrow> homed es p (es ! p))"

lemma table_ok_nonempty: "table_ok es \<Longrightarrow> es \<noteq> []"
  by (auto simp: table_ok_def)

lemma probe_step:
  assumes "table_ok es"
  shows "gap_at es (probe es s (Suc i)) \<le> Suc (gap_at es (probe es s i))"
  using assms next_probe[OF table_ok_nonempty[OF assms], of s i] probe_less[OF table_ok_nonempty[OF assms]]
  unfolding table_ok_def by metis

lemma probe_steps: "table_ok es \<Longrightarrow> gap_at es (probe es s (i + j)) \<le> gap_at es (probe es s i) + j"
proof (induction j)
  case (Suc j)
  then show ?case using probe_step[OF Suc.prems, of s "i + j"] by simp
qed simp

text \<open>With a free entry, no gap reaches the capacity.\<close>

lemma gap_less:
  assumes "table_ok es" "f < length es" "gap_at es f = 0" "p < length es"
  shows "gap_at es p < length es"
proof -
  obtain i where i: "i < length es" "probe es f i = p"
    using probe_reach assms by blast
  have "gap_at es (probe es f (0 + i)) \<le> gap_at es (probe es f 0) + i"
    by (rule probe_steps[OF assms(1)])
  then show ?thesis using i assms by (simp add: probe_0)
qed

section \<open>Loops\<close>

lemma from_Suc: "P i \<Longrightarrow> \<forall>l. Suc i \<le> l \<and> l < j \<longrightarrow> P l \<Longrightarrow> \<forall>l. i \<le> l \<and> l < j \<longrightarrow> P l"
  by (metis Suc_leI le_eq_less_or_eq)

lemma find_skip_spec:
  assumes "es \<noteq> []"
  shows "\<exists>j \<ge> i. find_skip es (probe es s i) (Suc i) = (probe es s j, Suc j) \<and>
    gap_at es (probe es s j) \<le> Suc j \<and> (\<forall>l. i \<le> l \<and> l < j \<longrightarrow> Suc l < gap_at es (probe es s l))"
proof (induction "sum_list (map v_gap es) - i" arbitrary: i rule: less_induct)
  case less
  show ?case
  proof (cases "Suc i < gap_at es (probe es s i)")
    case False
    then show ?thesis by (intro exI[of _ i]) (subst find_skip.simps, auto)
  next
    case True
    then have lt: "i < sum_list (map v_gap es)" using gap_at_bound[of es "probe es s i"] by simp
    obtain j where j: "Suc i \<le> j"
      "find_skip es (probe es s (Suc i)) (Suc (Suc i)) = (probe es s j, Suc j)"
      "gap_at es (probe es s j) \<le> Suc j" "\<forall>l. Suc i \<le> l \<and> l < j \<longrightarrow> Suc l < gap_at es (probe es s l)"
      using less[of "Suc i", OF diff_less_mono2[OF lessI lt]] by blast
    have "find_skip es (probe es s i) (Suc i) = (probe es s j, Suc j)"
      using True j(2) by (subst find_skip.simps) (simp add: next_probe[OF assms])
    then show ?thesis
      using j True from_Suc[of "\<lambda>l. Suc l < gap_at es (probe es s l)" i j]
      by (intro exI[of _ j]) simp
  qed
qed

lemma find_place_spec:
  assumes "es \<noteq> []"
  shows "\<exists>k \<ge> j. find_place equals es (probe es s j) (Suc j) = (probe es s k, Suc k) \<and>
    \<not> (Suc k \<le> gap_at es (probe es s k) \<and> \<not> equals (es ! probe es s k)) \<and>
    (\<forall>l. j \<le> l \<and> l < k \<longrightarrow> Suc l \<le> gap_at es (probe es s l) \<and> \<not> equals (es ! probe es s l))"
proof (induction "sum_list (map v_gap es) - j" arbitrary: j rule: less_induct)
  case less
  show ?case
  proof (cases "Suc j \<le> gap_at es (probe es s j) \<and> \<not> equals (es ! probe es s j)")
    case False
    then show ?thesis by (intro exI[of _ j]) (subst find_place.simps, auto)
  next
    case True
    then have lt: "j < sum_list (map v_gap es)" using gap_at_bound[of es "probe es s j"] by simp
    obtain k where k: "Suc j \<le> k"
      "find_place equals es (probe es s (Suc j)) (Suc (Suc j)) = (probe es s k, Suc k)"
      "\<not> (Suc k \<le> gap_at es (probe es s k) \<and> \<not> equals (es ! probe es s k))"
      "\<forall>l. Suc j \<le> l \<and> l < k \<longrightarrow> Suc l \<le> gap_at es (probe es s l) \<and> \<not> equals (es ! probe es s l)"
      using less[of "Suc j", OF diff_less_mono2[OF lessI lt]] by blast
    have e: "find_place equals es (probe es s j) (Suc j) = (probe es s k, Suc k)"
      using True k(2) by (subst find_place.simps) (simp add: next_probe[OF assms])
    show ?thesis
      using Suc_leD[OF k(1)] e k(3) from_Suc[OF True k(4)] by blast
  qed
qed

lemma find_run_spec:
  assumes "es \<noteq> []"
  shows "\<exists>k \<ge> j. (\<forall>l. j \<le> l \<and> l < k \<longrightarrow> gap_at es (probe es s l) = Suc l \<and> \<not> equals (es ! probe es s l)) \<and>
    (if gap_at es (probe es s k) = Suc k
     then equals (es ! probe es s k) \<and> find_run equals es (probe es s j) (Suc j) = Some (probe es s k)
     else find_run equals es (probe es s j) (Suc j) = None)"
proof (induction "sum_list (map v_gap es) - j" arbitrary: j rule: less_induct)
  case less
  show ?case
  proof (cases "gap_at es (probe es s j) = Suc j \<and> \<not> equals (es ! probe es s j)")
    case False
    then show ?thesis by (intro exI[of _ j]) (subst (1 2) find_run.simps, auto)
  next
    case True
    then have lt: "j < sum_list (map v_gap es)" using gap_at_bound[of es "probe es s j"] by simp
    obtain k where k: "Suc j \<le> k"
      "\<forall>l. Suc j \<le> l \<and> l < k \<longrightarrow> gap_at es (probe es s l) = Suc l \<and> \<not> equals (es ! probe es s l)"
      "if gap_at es (probe es s k) = Suc k
       then equals (es ! probe es s k) \<and> find_run equals es (probe es s (Suc j)) (Suc (Suc j)) = Some (probe es s k)
       else find_run equals es (probe es s (Suc j)) (Suc (Suc j)) = None"
      using less[of "Suc j", OF diff_less_mono2[OF lessI lt]] by blast
    have e: "find_run equals es (probe es s j) (Suc j) = find_run equals es (probe es s (Suc j)) (Suc (Suc j))"
      using True by (subst find_run.simps) (simp add: next_probe[OF assms])
    show ?thesis
      unfolding e using Suc_leD[OF k(1)] k(3) from_Suc[OF True k(2)] by blast
  qed
qed

lemma rehash_place_eq: "rehash_place es q gap = find_place (\<lambda>_. False) es q (Suc gap)"
proof (induction es q gap rule: rehash_place.induct)
  case (1 es q gap)
  then show ?case by (subst rehash_place.simps, subst find_place.simps) simp
qed

lemma put_skip_eq: "put_skip es p gap = find_place (\<lambda>_. False) es (next_entry es p) (Suc gap)"
proof (induction es p gap rule: put_skip.induct)
  case (1 es p gap)
  then show ?case by (subst put_skip.simps, subst find_place.simps) simp
qed

section \<open>Contents\<close>

type_synonym item = "i64 \<times> t_value \<times> t_value"

definition item_of :: "t_entry \<Rightarrow> item" where
  "item_of e = (v_hash e, v_key e, v_value e)"

definition items_of :: "t_entry \<Rightarrow> item multiset" where
  "items_of e = (if v_gap e = 0 then {#} else {#item_of e#})"

definition contents :: "t_entry list \<Rightarrow> item multiset" where
  "contents es = sum_list (map items_of es)"

lemma contents_update:
  "p < length es \<Longrightarrow> contents (es[p := e]) + items_of (es ! p) = contents es + items_of e"
  unfolding contents_def
proof (induction es arbitrary: p)
  case (Cons a es)
  show ?case
  proof (cases p)
    case (Suc q)
    then have "sum_list (map items_of (es[q := e])) + items_of (es ! q) = sum_list (map items_of es) + items_of e"
      using Cons by simp
    with Suc show ?thesis by (simp add: add.assoc)
  qed (simp add: ac_simps)
qed simp

lemma items_of_erase [simp]: "items_of (erase e) = {#}"
  by (simp add: items_of_def erase_def)

lemma contents_place:
  "p < length es \<Longrightarrow> v_gap (es ! p) = 0 \<Longrightarrow> v_gap e \<noteq> 0 \<Longrightarrow> contents (es[p := e]) = add_mset (item_of e) (contents es)"
  using contents_update[of p es e] by (simp add: items_of_def)

lemma in_contents: "t \<in># contents es \<longleftrightarrow> (\<exists>p < length es. v_gap (es ! p) \<noteq> 0 \<and> t = item_of (es ! p))"
proof -
  have "t \<in># contents es \<longleftrightarrow> (\<exists>e \<in> set es. v_gap e \<noteq> 0 \<and> t = item_of e)"
    by (induction es) (auto simp: contents_def items_of_def)
  then show ?thesis by (metis in_set_conv_nth)
qed

lemma size_contents: "size (contents es) = length (filter (\<lambda>e. v_gap e \<noteq> 0) es)"
  by (induction es) (auto simp: contents_def items_of_def)

lemma contents_new: "contents (replicate n t_entry_new) = {#}"
  by (induction n) (auto simp: contents_def items_of_def t_entry_new_def)

lemma free_entry: "size (contents es) < length es \<Longrightarrow> \<exists>p < length es. gap_at es p = 0"
proof (rule ccontr)
  assume lt: "size (contents es) < length es" and "\<not> (\<exists>p < length es. gap_at es p = 0)"
  then have "\<forall>e \<in> set es. v_gap e \<noteq> 0" by (auto simp: in_set_conv_nth gap_at_def)
  then have "filter (\<lambda>e. v_gap e \<noteq> 0) es = es" by simp
  with lt show False by (simp add: size_contents)
qed

definition room :: "t_entry list \<Rightarrow> bool" where
  "room es \<longleftrightarrow> table_ok es \<and> size (contents es) < length es"

lemma gap_at_nth: "p < length es \<Longrightarrow> gap_at es p = v_gap (es ! p)"
  by (simp add: gap_at_def)

lemma room_gap_less: "room es \<Longrightarrow> p < length es \<Longrightarrow> gap_at es p < length es"
  using free_entry gap_less by (auto simp: room_def)

section \<open>Searching\<close>

text \<open>The entry with a given hash lies on the probe sequence of that hash, as far as its gap says, and
  every entry before it on the sequence has at least the gap of its place.\<close>

lemma on_probe_sequence:
  assumes "table_ok es" "p < length es" "v_gap (es ! p) = Suc m" "v_hash (es ! p) = hash"
  defines "s \<equiv> f_slot (length es) hash"
  shows "probe es s m = p" "gap_at es (probe es s m) = Suc m"
    "l \<le> m \<Longrightarrow> Suc l \<le> gap_at es (probe es s l)"
proof -
  show p: "probe es s m = p" using assms by (auto simp: table_ok_def homed_def)
  then show g: "gap_at es (probe es s m) = Suc m" using assms by (simp add: gap_at_def)
  show "Suc l \<le> gap_at es (probe es s l)" if "l \<le> m"
    using probe_steps[OF assms(1), of s l "m - l"] that g by simp
qed

lemma f_slot_less [simp]: "0 < n \<Longrightarrow> f_slot n hash < n"
  by (simp add: f_slot_def)

lemma f_find_spec:
  assumes ok: "table_ok es"
  shows "case t_table_f_find h eq es a_key of
      Some p \<Rightarrow> p < length es \<and> v_gap (es ! p) \<noteq> 0 \<and> t_table_f_equals eq (es ! p) (h a_key) a_key
    | None \<Rightarrow> \<forall>p < length es. v_gap (es ! p) \<noteq> 0 \<longrightarrow> \<not> t_table_f_equals eq (es ! p) (h a_key) a_key"
proof -
  define s where "s = f_slot (length es) (h a_key)"
  let ?eq = "\<lambda>e. t_table_f_equals eq e (h a_key) a_key"
  have ne: "es \<noteq> []" "s < length es" using table_ok_nonempty[OF ok] by (auto simp: s_def)
  obtain j where j: "find_skip es s 1 = (probe es s j, Suc j)" "gap_at es (probe es s j) \<le> Suc j"
    "\<forall>l < j. Suc l < gap_at es (probe es s l)"
    using find_skip_spec[OF ne(1), of 0 s] ne by (auto simp: probe_0)
  obtain k where k: "j \<le> k" "\<forall>l. j \<le> l \<and> l < k \<longrightarrow> gap_at es (probe es s l) = Suc l \<and> \<not> ?eq (es ! probe es s l)"
    "if gap_at es (probe es s k) = Suc k
     then ?eq (es ! probe es s k) \<and> find_run ?eq es (probe es s j) (Suc j) = Some (probe es s k)
     else find_run ?eq es (probe es s j) (Suc j) = None"
    using find_run_spec[OF ne(1), of j s ?eq] by blast
  have f: "t_table_f_find h eq es a_key = find_run ?eq es (probe es s j) (Suc j)"
    using j(1) by (simp add: t_table_f_find_def s_def Let_def)
  show ?thesis
  proof (cases "gap_at es (probe es s k) = Suc k")
    case True
    then show ?thesis using k(3) f ne by (simp add: gap_at_nth)
  next
    case stop: False
    have "\<not> ?eq (es ! p)" if p: "p < length es" "v_gap (es ! p) \<noteq> 0" for p
    proof
      assume e: "?eq (es ! p)"
      obtain m where m: "v_gap (es ! p) = Suc m" using p by (cases "v_gap (es ! p)") auto
      note o = on_probe_sequence[OF ok p(1) m, of "h a_key", folded s_def]
      have hash: "v_hash (es ! p) = h a_key" using e by (simp add: t_table_f_equals_def)
      have "j \<le> m" using j(3) o(2)[OF hash] by (metis less_irrefl not_le)
      have "gap_at es (probe es s l) = Suc l" if "j \<le> l" "l \<le> m" for l
        using probe_steps[OF ok, of s j "l - j"] that j(2) o(3)[OF hash that(2)] by simp
      then have "m < k" using stop k(1) \<open>j \<le> m\<close> by (metis not_le le_less_linear)
      then show False using k(2) \<open>j \<le> m\<close> o(1)[OF hash] e by auto
    qed
    then show ?thesis using stop k(3) f by simp
  qed
qed

text \<open>A place where an entry may be put: nearer to its home than the entry there, if any, and not
  farther than the one before it.\<close>

definition fits :: "t_entry list \<Rightarrow> nat \<Rightarrow> t_entry \<Rightarrow> bool" where
  "fits es p a \<longleftrightarrow>
     p < length es \<and> gap_at es p < v_gap a \<and> homed es p a \<and>
     (\<exists>q < length es. next_entry es q = p \<and> v_gap a \<le> Suc (gap_at es q))"

lemma prev_entry: "s < length es \<Longrightarrow> \<exists>q < length es. next_entry es q = s"
  by (rule exI[of _ "if s = 0 then length es - 1 else s - 1"]) (auto simp: next_entry_def)

lemma probe_fits:
  assumes "es \<noteq> []" "gap_at es (probe es s k) < Suc k" "\<forall>l < k. Suc l \<le> gap_at es (probe es s l)"
    and "s = f_slot (length es) (v_hash a)" "v_gap a = Suc k"
  shows "fits es (probe es s k) a"
proof -
  have "\<exists>q < length es. next_entry es q = probe es s k \<and> v_gap a \<le> Suc (gap_at es q)"
  proof (cases k)
    case 0
    then show ?thesis using prev_entry[of "probe es s 0" es] assms by auto
  next
    case (Suc l)
    then show ?thesis
      using assms by (intro exI[of _ "probe es s l"]) (auto simp: next_probe)
  qed
  then show ?thesis using assms by (simp add: fits_def homed_def)
qed

lemma f_find2_spec:
  assumes ok: "room es" and "t_table_f_find2 eq es hash a_key = (p, gap)"
  shows "p < length es"
    and "gap_at es p = gap \<Longrightarrow> v_gap (es ! p) \<noteq> 0 \<and> t_table_f_equals eq (es ! p) hash a_key"
    and "gap_at es p \<noteq> gap \<Longrightarrow> fits es p \<lparr>v_gap = gap, v_hash = hash, v_key = a_key, v_value = v\<rparr>"
    and "gap_at es p \<noteq> gap \<Longrightarrow> q < length es \<Longrightarrow> v_gap (es ! q) \<noteq> 0 \<Longrightarrow> \<not> t_table_f_equals eq (es ! q) hash a_key"
proof -
  define s where "s = f_slot (length es) hash"
  let ?eq = "\<lambda>e. t_table_f_equals eq e hash a_key"
  have tok: "table_ok es" using ok by (simp add: room_def)
  have ne: "es \<noteq> []" "s < length es" using table_ok_nonempty[OF tok] by (auto simp: s_def)
  obtain j where j: "find_skip es s 1 = (probe es s j, Suc j)" "gap_at es (probe es s j) \<le> Suc j"
    "\<forall>l < j. Suc l < gap_at es (probe es s l)"
    using find_skip_spec[OF ne(1), of 0 s] ne by (auto simp: probe_0)
  obtain k where k: "j \<le> k" "find_place ?eq es (probe es s j) (Suc j) = (probe es s k, Suc k)"
    "\<not> (Suc k \<le> gap_at es (probe es s k) \<and> \<not> ?eq (es ! probe es s k))"
    "\<forall>l. j \<le> l \<and> l < k \<longrightarrow> Suc l \<le> gap_at es (probe es s l) \<and> \<not> ?eq (es ! probe es s l)"
    using find_place_spec[OF ne(1), of j ?eq s] by blast
  have pk: "p = probe es s k" "gap = Suc k"
    using assms(2) j(1) k(2) by (auto simp: t_table_f_find2_def s_def)
  then show "p < length es" using ne by simp
  have before: "Suc l \<le> gap_at es (probe es s l)" if "l < k" for l
    using that j(3) k(4) by (cases "l < j") (auto simp: not_less)
  show "v_gap (es ! p) \<noteq> 0 \<and> ?eq (es ! p)" if "gap_at es p = gap"
    using that k(3) pk ne by (auto simp: gap_at_nth)
  have stop: "gap_at es (probe es s k) < Suc k" if "gap_at es p \<noteq> gap"
  proof (rule ccontr)
    assume "\<not> ?thesis"
    then have g: "Suc k < gap_at es (probe es s k)" using that pk by simp
    then have e: "?eq (es ! probe es s k)" using k(3) by simp
    obtain m where m: "v_gap (es ! probe es s k) = Suc m" using g ne by (cases "v_gap (es ! probe es s k)") (auto simp: gap_at_nth)
    have "probe es s m = probe es s k"
      using on_probe_sequence(1)[OF tok _ m, of hash] e ne by (simp add: s_def t_table_f_equals_def)
    moreover have "Suc m < length es" using room_gap_less[OF ok, of "probe es s k"] m ne by (simp add: gap_at_nth)
    moreover have "k < m" using g m ne by (simp add: gap_at_nth)
    ultimately show False using probe_inj[of es s m k] by simp
  qed
  show "fits es p \<lparr>v_gap = gap, v_hash = hash, v_key = a_key, v_value = v\<rparr>" if "gap_at es p \<noteq> gap"
    unfolding pk by (rule probe_fits) (use ne stop[OF that] before in \<open>auto simp: s_def\<close>)
  show "\<not> ?eq (es ! q)" if q: "gap_at es p \<noteq> gap" "q < length es" "v_gap (es ! q) \<noteq> 0"
  proof
    assume e: "?eq (es ! q)"
    obtain m where m: "v_gap (es ! q) = Suc m" using q(3) by (cases "v_gap (es ! q)") auto
    have hash: "v_hash (es ! q) = hash" using e by (simp add: t_table_f_equals_def)
    note o = on_probe_sequence[OF tok q(2) m hash, folded s_def]
    have "m < k" using o(3)[of k] stop[OF q(1)] by (metis not_le not_less_eq_eq)
    moreover have "j \<le> m" using j(3) o(2) by (metis less_irrefl not_le)
    ultimately show False using k(4) o(1) e by auto
  qed
qed

section \<open>Inserting\<close>

lemma homed_update [simp]: "homed (es[i := e]) p a \<longleftrightarrow> homed es p a"
  by (simp add: homed_def)

lemma place_ok:
  assumes ok: "table_ok es" and fits: "fits es p a"
  shows "table_ok (es[p := a])"
proof -
  obtain q where q: "p < length es" "gap_at es p < v_gap a" "homed es p a" "q < length es"
    "next_entry es q = p" "v_gap a \<le> Suc (gap_at es q)"
    using fits by (auto simp: fits_def)
  have "q \<noteq> p" using next_entry_neq[of es q] ok q by (auto simp: table_ok_def)
  have "gap_at (es[p := a]) (next_entry es r) \<le> Suc (gap_at (es[p := a]) r)" if r: "r < length es" for r
  proof -
    consider "r = p" | "r = q" | "r \<noteq> p" "next_entry es r \<noteq> p"
      using q(4,5) r by (metis next_entry_inj)
    then show ?thesis
    proof cases
      case 1
      have "gap_at es (next_entry es p) \<le> Suc (gap_at es p)" using ok q(1) by (simp add: table_ok_def)
      with 1 q show ?thesis by (auto simp: gap_at_update)
    next
      case 2
      with q \<open>q \<noteq> p\<close> show ?thesis by (simp add: gap_at_update)
    next
      case 3
      with ok q(1) r show ?thesis by (simp add: gap_at_update table_ok_def)
    qed
  qed
  then show ?thesis
    using ok q by (auto simp: table_ok_def nth_list_update)
qed

lemma f_put_spec:
  assumes "table_ok es" "fits es p a" "d < fuel" "d < length es" "gap_at es (probe es p d) = 0"
  shows "\<exists>es'. t_table_f_put fuel es p a = Some es' \<and> length es' = length es \<and> table_ok es' \<and>
    contents es' = add_mset (item_of a) (contents es)"
  using assms
proof (induction fuel arbitrary: es p a d)
  case (Suc fuel)
  note ok = Suc.prems(1)
  have ne: "es \<noteq> []" "p < length es" and a: "v_gap a \<noteq> 0"
    using Suc.prems(2) by (auto simp: fits_def)
  define es' where "es' = es[p := a]"
  have ok': "table_ok es'" using place_ok[OF ok Suc.prems(2)] by (simp add: es'_def)
  show ?case
  proof (cases "gap_at es p = 0")
    case True
    then show ?thesis
      using ok' ne a contents_place[of p es a] by (simp add: es'_def gap_at_nth)
  next
    case False
    define c where "c = es ! p"
    have c: "v_gap c = gap_at es p" "v_gap c \<noteq> 0" "v_gap c < v_gap a" "homed es p c"
      using False ne Suc.prems(2) ok by (auto simp: c_def gap_at_nth fits_def table_ok_def)
    have ne': "es' \<noteq> []" "length es' = length es" using ne by (auto simp: es'_def)
    define s where "s = f_slot (length es) (v_hash c)"
    obtain m where m: "v_gap c = Suc m" using c(2) by (cases "v_gap c") auto
    have pm: "probe es s m = p" using c(4) m by (simp add: homed_def s_def)
    have from_p: "probe es s (m + i) = probe es p i" for i
      using pm by (simp add: probe_def) (metis add.assoc mod_add_left_eq)
    obtain k where k: "Suc m \<le> k"
      "find_place (\<lambda>_. False) es' (probe es' s (Suc m)) (Suc (Suc m)) = (probe es' s k, Suc k)"
      "\<not> Suc k \<le> gap_at es' (probe es' s k)"
      "\<forall>l. Suc m \<le> l \<and> l < k \<longrightarrow> Suc l \<le> gap_at es' (probe es' s l)"
      using find_place_spec[OF ne'(1), of "Suc m" "\<lambda>_. False" s] by blast
    have put: "t_table_f_put (Suc fuel) es p a = t_table_f_put fuel es' (probe es s k) (c\<lparr>v_gap := Suc k\<rparr>)"
      using False k(2) ne m next_probe[OF ne(1), of s m]
      by (simp add: put_skip_eq c_def[symmetric] es'_def[symmetric] pm Let_def)
        (simp add: es'_def)
    have d: "0 < d" using False Suc.prems(5) ne by (cases d) (auto simp: probe_0)
    have "probe es p d \<noteq> p" using probe_inj[of es p d 0] Suc.prems(4) d ne by (auto simp: probe_0)
    then have free: "gap_at es' (probe es s (m + d)) = 0"
      using Suc.prems(5) ne by (simp add: es'_def gap_at_update from_p)
    have km: "k \<le> m + d"
    proof (rule ccontr)
      assume "\<not> k \<le> m + d"
      with d have "Suc m \<le> m + d \<and> m + d < k" by linarith
      then have "Suc (m + d) \<le> gap_at es' (probe es' s (m + d))" using k(4) by blast
      with free show False by (simp add: es'_def)
    qed
    have fits': "fits es' (probe es s k) (c\<lparr>v_gap := Suc k\<rparr>)"
    proof -
      obtain l where l: "k = Suc l" using k(1) by (cases k) auto
      have "Suc k \<le> Suc (gap_at es' (probe es s l))"
      proof (cases "l = m")
        case True
        then show ?thesis using pm c(3) m l ne by (simp add: es'_def gap_at_update)
      next
        case False
        then show ?thesis using k(1) k(4) l by (simp add: es'_def)
      qed
      moreover have "next_entry es' (probe es s l) = probe es s k"
        using next_probe[OF ne(1), of s l] l by (simp add: es'_def)
      ultimately show ?thesis
        using k(3) ne unfolding fits_def homed_def
        by (intro conjI exI[of _ "probe es s l"]) (auto simp: es'_def s_def)
    qed
    have "probe es' (probe es s k) (m + d - k) = probe es s (m + d)"
      using mod_add_left_eq[of "s + k" "length es" "m + d - k"] km by (simp add: es'_def probe_def)
    then have "gap_at es' (probe es' (probe es s k) (m + d - k)) = 0"
      using free by simp
    then have "\<exists>es''. t_table_f_put fuel es' (probe es s k) (c\<lparr>v_gap := Suc k\<rparr>) = Some es'' \<and>
        length es'' = length es' \<and> table_ok es'' \<and>
        contents es'' = add_mset (item_of (c\<lparr>v_gap := Suc k\<rparr>)) (contents es')"
      using k(1) d Suc.prems(3,4) ne' ok' fits' by (intro Suc.IH) auto
    moreover have "contents es' + {#item_of c#} = contents es + {#item_of a#}"
      using contents_update[of p es a] ne a c(2) by (simp add: es'_def c_def items_of_def)
    moreover have "item_of (c\<lparr>v_gap := Suc k\<rparr>) = item_of c" by (simp add: item_of_def)
    ultimately show ?thesis using put ne' by simp
  qed
qed simp

lemma room_put:
  assumes "room es" "fits es p a"
  shows "\<exists>es'. t_table_f_put (length es) es p a = Some es' \<and> length es' = length es \<and> table_ok es' \<and>
    contents es' = add_mset (item_of a) (contents es)"
proof -
  obtain f where f: "f < length es" "gap_at es f = 0" using free_entry assms(1) by (auto simp: room_def)
  moreover have "p < length es" using assms(2) by (simp add: fits_def)
  ultimately obtain d where "d < length es" "probe es p d = f" using probe_reach by blast
  then show ?thesis using f_put_spec[of es p a d "length es"] assms f by (simp add: room_def)
qed

lemma rehash_fits:
  assumes "room es" "rehash_place es (f_slot (length es) (v_hash e)) 0 = (q, gap)"
  shows "fits es q (e\<lparr>v_gap := gap\<rparr>)"
proof -
  have ne: "es \<noteq> []" using assms(1) table_ok_nonempty by (simp add: room_def)
  define s where "s = f_slot (length es) (v_hash e)"
  have s: "probe es s 0 = s" using ne by (simp add: probe_0 s_def)
  obtain k where k: "find_place (\<lambda>_. False) es s 1 = (probe es s k, Suc k)"
    "\<not> Suc k \<le> gap_at es (probe es s k)" "\<forall>l < k. Suc l \<le> gap_at es (probe es s l)"
    using find_place_spec[OF ne, of 0 "\<lambda>_. False" s, unfolded s] by auto
  then have "q = probe es s k" "gap = Suc k" using assms(2) by (simp_all add: rehash_place_eq s_def)
  then show ?thesis using k ne by (auto intro!: probe_fits simp: s_def)
qed

lemma rehash_spec:
  assumes "table_ok es1" "size (contents es1) + size (contents es0) < length es1"
  shows "\<exists>es'. rehash_entries es0 es1 = Some es' \<and> length es' = length es1 \<and> table_ok es' \<and>
    contents es' = contents es1 + contents es0"
  using assms
proof (induction es0 arbitrary: es1)
  case Nil
  then show ?case by (simp add: contents_def)
next
  case (Cons e es0)
  have C: "contents (e # es0) = items_of e + contents es0" by (simp add: contents_def)
  show ?case
  proof (cases "v_gap e = 0")
    case True
    then show ?thesis using Cons C by (simp add: items_of_def)
  next
    case False
    have r: "room es1" using Cons.prems by (simp add: room_def)
    obtain q gap where q: "rehash_place es1 (f_slot (length es1) (v_hash e)) 0 = (q, gap)" by force
    obtain es2 where es2: "t_table_f_put (length es1) es1 q (e\<lparr>v_gap := gap\<rparr>) = Some es2"
      "length es2 = length es1" "table_ok es2" "contents es2 = add_mset (item_of e) (contents es1)"
      using room_put[OF r rehash_fits[OF r q]] by (auto simp: item_of_def)
    have "\<exists>es'. rehash_entries es0 es2 = Some es' \<and> length es' = length es2 \<and> table_ok es' \<and>
        contents es' = contents es2 + contents es0"
      using es2 Cons.prems(2) C False by (intro Cons.IH) (auto simp: items_of_def)
    then show ?thesis using False q es2 C by (auto simp: items_of_def)
  qed
qed

section \<open>Removing\<close>

text \<open>The table while \<open>f_remove\<close> runs: a hole at \<open>p\<close>, around which gaps grow by at most two.\<close>

definition hole :: "t_entry list \<Rightarrow> nat \<Rightarrow> bool" where
  "hole es p \<longleftrightarrow>
     2 < length es \<and> p < length es \<and> v_gap (es ! p) = 0 \<and>
     (\<forall>r < length es. r \<noteq> p \<longrightarrow> gap_at es (next_entry es r) \<le> Suc (gap_at es r)) \<and>
     (\<forall>r < length es. next_entry es r = p \<longrightarrow> gap_at es (next_entry es p) \<le> Suc (Suc (gap_at es r))) \<and>
     (\<forall>r < length es. v_gap (es ! r) \<noteq> 0 \<longrightarrow> homed es r (es ! r))"

lemma erase_hole:
  assumes "table_ok es" "2 < length es" "p < length es"
  shows "hole (es[p := erase (es ! p)]) p"
proof -
  let ?e = "es[p := erase (es ! p)]"
  have step: "gap_at es (next_entry es r) \<le> Suc (gap_at es r)" if "r < length es" for r
    using assms(1) that by (simp add: table_ok_def)
  have g: "gap_at ?e r = (if r = p then 0 else gap_at es r)" for r
    using assms(3) by (simp add: gap_at_update erase_def)
  have two: "gap_at es (next_entry es p) \<le> Suc (Suc (gap_at es r))" if "r < length es" "next_entry es r = p" for r
    using step[OF assms(3)] step[OF that(1)] that(2) by simp
  show ?thesis
    unfolding hole_def length_list_update next_entry_update g
  proof (intro conjI allI impI)
    fix r assume "r < length es" "next_entry es r = p"
    then show "(if next_entry es p = p then 0 else gap_at es (next_entry es p)) \<le> Suc (Suc (if r = p then 0 else gap_at es r))"
      using two[of r] next_entry_neq[of es p] assms by auto
  next
    fix r assume "r < length es" "v_gap (?e ! r) \<noteq> 0"
    then show "homed ?e r (?e ! r)"
      using assms by (cases "r = p") (auto simp: erase_def table_ok_def)
  qed (use assms step in \<open>auto simp: erase_def\<close>)
qed

lemma run_last_spec:
  assumes "es \<noteq> []" "gap_at es (probe es p (Suc 0)) = gap" "0 < gap"
    and step: "\<And>r. r < length es \<Longrightarrow> r \<noteq> p \<Longrightarrow> gap_at es (next_entry es r) \<le> Suc (gap_at es r)"
    and p: "p < length es" "gap_at es p = 0"
  shows "gap_at es (probe es p (Suc i)) = gap + i \<Longrightarrow> \<forall>l \<le> i. gap_at es (probe es p (Suc l)) = gap + l \<Longrightarrow>
    \<exists>j \<ge> i. run_last es (probe es p (Suc i)) (gap + i) = probe es p (Suc j) \<and>
      (\<forall>l \<le> j. gap_at es (probe es p (Suc l)) = gap + l) \<and> gap_at es (probe es p (Suc (Suc j))) \<le> gap + j"
proof (induction "sum_list (map v_gap es) - i" arbitrary: i rule: less_induct)
  case less
  show ?case
  proof (cases "gap_at es (probe es p (Suc (Suc i))) < Suc (gap + i)")
    case True
    then show ?thesis
      using less.prems by (intro exI[of _ i]) (subst run_last.simps, auto simp: next_probe[OF assms(1)])
  next
    case False
    have "probe es p (Suc i) \<noteq> p" using less.prems(1) p(2) assms(3) by auto
    then have eq: "gap_at es (probe es p (Suc (Suc i))) = gap + Suc i"
      using False step[of "probe es p (Suc i)"] less.prems(1) assms(1) by (simp add: next_probe)
    then have lt: "i < sum_list (map v_gap es)"
      using gap_at_bound[of es "probe es p (Suc (Suc i))"] by simp
    have "\<forall>l \<le> Suc i. gap_at es (probe es p (Suc l)) = gap + l"
      using less.prems(2) eq by (simp add: le_Suc_eq)
    then obtain j where "Suc i \<le> j" "run_last es (probe es p (Suc (Suc i))) (gap + Suc i) = probe es p (Suc j)"
      "\<forall>l \<le> j. gap_at es (probe es p (Suc l)) = gap + l" "gap_at es (probe es p (Suc (Suc j))) \<le> gap + j"
      using less.hyps[OF diff_less_mono2[OF lessI lt] eq] by blast
    moreover have "run_last es (probe es p (Suc i)) (gap + i) = run_last es (probe es p (Suc (Suc i))) (gap + Suc i)"
      using False by (subst run_last.simps) (simp add: next_probe[OF assms(1)])
    ultimately show ?thesis by (intro exI[of _ j]) auto
  qed
qed

lemma mod_add_cancel_nat:
  fixes a b c n :: nat
  assumes "(a + c) mod n = (b + c) mod n" "0 < n"
  shows "a mod n = b mod n"
proof -
  have e: "x + c + c * (n - 1) = x + c * n" for x :: nat
    using assms(2) by (cases n) (auto simp: algebra_simps)
  have "(a + c + c * (n - 1)) mod n = (b + c + c * (n - 1)) mod n"
    using assms(1) by (metis mod_add_left_eq)
  then show ?thesis unfolding e by simp
qed

lemma pull_back_spec:
  assumes h: "hole es p" and gap: "1 < gap" "\<forall>l \<le> j. gap_at es (probe es p (Suc l)) = gap + l"
    and stop: "gap_at es (probe es p (Suc (Suc j))) \<le> gap + j"
  defines "q \<equiv> probe es p (Suc j)"
  shows "hole (pull_back es p gap q) q" "contents (pull_back es p gap q) = contents es"
    "length (pull_back es p gap q) = length es"
proof -
  define es' where "es' = pull_back es p gap q"
  have n: "2 < length es" "p < length es" "es \<noteq> []" "v_gap (es ! p) = 0"
    and step: "\<And>r. r < length es \<Longrightarrow> r \<noteq> p \<Longrightarrow> gap_at es (next_entry es r) \<le> Suc (gap_at es r)"
    and two: "\<And>r. r < length es \<Longrightarrow> next_entry es r = p \<Longrightarrow> gap_at es (next_entry es p) \<le> Suc (Suc (gap_at es r))"
    and homed: "\<And>r. r < length es \<Longrightarrow> v_gap (es ! r) \<noteq> 0 \<Longrightarrow> homed es r (es ! r)"
    using h by (auto simp: hole_def)
  have p0: "probe es p 0 = p" "gap_at es p = 0" using n by (simp_all add: probe_0 gap_at_nth)
  have q: "q < length es" "gap_at es q = gap + j" using n gap by (auto simp: q_def)
  then have qp: "q \<noteq> p" using p0 gap by auto
  show len: "length (pull_back es p gap q) = length es" by (simp add: pull_back_def)
  have g: "gap_at es' r = (if r = q then 0 else if r = p then gap - 1 else gap_at es r)" for r
    using n q qp by (simp add: es'_def pull_back_def gap_at_update erase_def)
  have nx: "next_entry es' r = next_entry es r" for r by (simp add: es'_def pull_back_def)
  have next_p: "next_entry es p = probe es p (Suc 0)" using next_probe[OF n(3), of p 0] p0 by simp
  have gap_next_p: "gap_at es (next_entry es p) = gap" using gap(2) next_p by simp
  have next_q: "next_entry es q = probe es p (Suc (Suc j))" using next_probe[OF n(3)] by (simp add: q_def)
  have s1: "gap_at es' (next_entry es r) \<le> Suc (gap_at es' r)" if r: "r < length es" "r \<noteq> q" for r
  proof -
    consider "next_entry es r = q" | "next_entry es r = p" "r \<noteq> p" | "r = p" "next_entry es r \<noteq> q" "next_entry es r \<noteq> p"
      | "r \<noteq> p" "next_entry es r \<noteq> q" "next_entry es r \<noteq> p"
      using next_entry_neq[of es p] n by fastforce
    then show ?thesis
      by cases (use r two[of r] step[of r] gap_next_p qp in \<open>auto simp: g\<close>)
  qed
  have s2: "gap_at es' (next_entry es q) \<le> Suc (Suc (gap_at es' r))" if r: "r < length es" "next_entry es r = q" for r
  proof -
    have "next_entry es (probe es p j) = q" using next_probe[OF n(3)] by (simp add: q_def)
    then have rj: "r = probe es p j" using next_entry_inj[of es r "probe es p j"] r n by simp
    have "gap_at es' (next_entry es q) \<le> gap + j"
      using stop next_q by (auto simp: g)
    moreover have "gap + j \<le> Suc (Suc (gap_at es' r))"
    proof (cases j)
      case 0
      then show ?thesis using rj p0 qp by (simp add: g)
    next
      case (Suc l)
      then have "gap_at es r = gap + l" using gap(2) rj by simp
      moreover have "r \<noteq> q" using next_entry_neq[of es r] r n by auto
      ultimately show ?thesis using p0 gap(1) Suc by (auto simp: g)
    qed
    ultimately show ?thesis by simp
  qed
  have "homed es p ((es ! q)\<lparr>v_gap := gap - 1\<rparr>)"
  proof -
    define s where "s = f_slot (length es) (v_hash (es ! q))"
    have "v_gap (es ! q) = gap + j" using q by (simp add: gap_at_nth)
    then have "probe es s (gap + j - 1) = q" using homed[OF q(1)] gap(1) by (simp add: homed_def s_def)
    moreover have "s + (gap + j - 1) = s + (gap - 2) + Suc j" using gap(1) by simp
    ultimately have "(s + (gap - 2) + Suc j) mod length es = (p + Suc j) mod length es"
      by (simp only: q_def probe_def)
    then have "(s + (gap - 2)) mod length es = p mod length es"
      by (rule mod_add_cancel_nat) (use n in auto)
    then show ?thesis using gap(1) n by (simp add: homed_def s_def probe_def diff_diff_left numeral_2_eq_2)
  qed
  then have s3: "homed es' r (es' ! r)" if "r < length es" "v_gap (es' ! r) \<noteq> 0" for r
    using that homed[of r] n q qp by (auto simp: es'_def pull_back_def erase_def nth_list_update split: if_splits)
  show "hole (pull_back es p gap q) q"
    using s1 s2 s3 n q nx g[of q] len unfolding hole_def es'_def[symmetric] by (simp add: gap_at_nth)
  have "contents (es[p := (es ! q)\<lparr>v_gap := gap - 1\<rparr>]) = add_mset (item_of (es ! q)) (contents es)"
    using contents_place[of p es "(es ! q)\<lparr>v_gap := gap - 1\<rparr>"] n gap(1) by (simp add: item_of_def)
  moreover have "contents es' + items_of (es ! q) = contents (es[p := (es ! q)\<lparr>v_gap := gap - 1\<rparr>])"
    using contents_update[of q "es[p := (es ! q)\<lparr>v_gap := gap - 1\<rparr>]" "erase (es ! q)"] q qp
    by (simp add: es'_def pull_back_def)
  moreover have "items_of (es ! q) = {#item_of (es ! q)#}"
    using q gap(1) by (simp add: items_of_def gap_at_nth)
  ultimately show "contents (pull_back es p gap q) = contents es" by (simp add: es'_def)
qed

lemma remove_shift_spec:
  "hole es p \<Longrightarrow>
   table_ok (remove_shift es p) \<and> length (remove_shift es p) = length es \<and> contents (remove_shift es p) = contents es"
proof (induction es p rule: remove_shift.induct)
  case (1 es p)
  have n: "1 < length es" "p < length es" "es \<noteq> []" "gap_at es p = 0"
    and step: "\<And>r. r < length es \<Longrightarrow> r \<noteq> p \<Longrightarrow> gap_at es (next_entry es r) \<le> Suc (gap_at es r)"
    using "1.prems" by (auto simp: hole_def gap_at_nth)
  have next_p: "next_entry es p = probe es p (Suc 0)" using next_probe[OF n(3), of p 0] n by (simp add: probe_0)
  define gap where "gap = gap_at es (next_entry es p)"
  show ?case
  proof (cases "gap \<le> 1")
    case True
    then have "gap_at es (next_entry es r) \<le> Suc (gap_at es r)" if "r < length es" for r
      using step[OF that] n by (cases "r = p") (auto simp: gap_def)
    then have "table_ok es" using "1.prems" by (auto simp: table_ok_def hole_def)
    then show ?thesis using True by (subst (1 2 3) remove_shift.simps) (simp add: gap_def)
  next
    case False
    define q where "q = run_last es (next_entry es p) gap"
    obtain j where j: "q = probe es p (Suc j)" "\<forall>l \<le> j. gap_at es (probe es p (Suc l)) = gap + l"
      "gap_at es (probe es p (Suc (Suc j))) \<le> gap + j"
    proof -
      have g1: "gap_at es (probe es p (Suc 0)) = gap" by (simp add: gap_def next_p)
      have "\<exists>j \<ge> 0. run_last es (probe es p (Suc 0)) (gap + 0) = probe es p (Suc j) \<and>
          (\<forall>l \<le> j. gap_at es (probe es p (Suc l)) = gap + l) \<and> gap_at es (probe es p (Suc (Suc j))) \<le> gap + j"
        by (rule run_last_spec[OF n(3) g1 _ step n(2,4)]) (use False g1 in simp_all)
      then show ?thesis using that unfolding q_def next_p add_0_right by blast
    qed
    have pb: "hole (pull_back es p gap q) q" "contents (pull_back es p gap q) = contents es"
      "length (pull_back es p gap q) = length es"
      using pull_back_spec[OF "1.prems" _ j(2,3)] False j(1) by auto
    have "remove_shift es p = remove_shift (pull_back es p gap q) q"
      using False by (subst remove_shift.simps) (simp add: Let_def gap_def q_def)
    then show ?thesis
      using "1.IH"[OF gap_def False q_def pb(1)] pb by simp
  qed
qed

section \<open>The map\<close>

definition matches :: "(t_value \<Rightarrow> i64) \<Rightarrow> (t_value \<Rightarrow> t_value \<Rightarrow> bool) \<Rightarrow> item \<Rightarrow> t_value \<Rightarrow> bool" where
  "matches h eq t k \<longleftrightarrow> fst t = h k \<and> eq (fst (snd t)) k"

text \<open>Every item is filed under the hash of its key, and no two items match each other.\<close>

definition separate :: "(t_value \<Rightarrow> i64) \<Rightarrow> (t_value \<Rightarrow> t_value \<Rightarrow> bool) \<Rightarrow> item multiset \<Rightarrow> bool" where
  "separate h eq C \<longleftrightarrow>
     (\<forall>t \<in># C. fst t = h (fst (snd t))) \<and>
     (\<forall>t \<in># C. \<forall>u \<in># C - {#t#}. \<not> matches h eq t (fst (snd u)))"

definition map_ok :: "(t_value \<Rightarrow> i64) \<Rightarrow> (t_value \<Rightarrow> t_value \<Rightarrow> bool) \<Rightarrow> t_map \<Rightarrow> bool" where
  "map_ok h eq m \<longleftrightarrow>
     (let es = f_entries (v_table m); rank = v_rank (v_table m)
      in rank < length v_ranks \<and> length es = v_capacity rank \<and> table_ok es \<and>
         v_size m = size (contents es) \<and> v_size m < v_capacity rank \<and> separate h eq (contents es))"

text \<open>The abstraction: the partial function a map stands for.\<close>

definition lookup :: "(t_value \<Rightarrow> i64) \<Rightarrow> (t_value \<Rightarrow> t_value \<Rightarrow> bool) \<Rightarrow> t_map \<Rightarrow> t_value \<Rightarrow> t_value option" where
  "lookup h eq m k = (case t_map_f_get h eq m k of Inr v \<Rightarrow> Some v | Inl _ \<Rightarrow> None)"

definition same_key :: "(t_value \<Rightarrow> i64) \<Rightarrow> (t_value \<Rightarrow> t_value \<Rightarrow> bool) \<Rightarrow> t_value \<Rightarrow> t_value \<Rightarrow> bool" where
  "same_key h eq x y \<longleftrightarrow> h x = h y \<and> eq x y"

lemma ranks_increasing:
  assumes "Suc rank < length v_ranks"
  shows "v_capacity rank < v_capacity (Suc rank)" "v_capacity (Suc rank) div 4 \<le> v_capacity rank"
proof -
  have "\<forall>i < length v_ranks - 1. v_ranks ! i < v_ranks ! Suc i \<and> v_ranks ! Suc i div 4 \<le> v_ranks ! i"
    by (simp add: v_ranks_def All_less_Suc2)
  then show "v_capacity rank < v_capacity (Suc rank)" "v_capacity (Suc rank) div 4 \<le> v_capacity rank"
    using assms by (auto simp: v_capacity_def)
qed

lemma capacity_large: "rank < length v_ranks \<Longrightarrow> 11 \<le> v_capacity rank"
proof (induction rank)
  case 0
  then show ?case by (simp add: v_capacity_def v_ranks_def)
next
  case (Suc rank)
  then show ?case using ranks_increasing(1)[of rank] by simp
qed

lemma matches_item: "matches h eq (item_of e) k \<longleftrightarrow> t_table_f_equals eq e (h k) k"
  by (simp add: matches_def item_of_def t_table_f_equals_def)

lemma in_remove_one: "u \<in># add_mset t C - {#s#} \<longleftrightarrow> (if s = t then u \<in># C else u = t \<or> u \<in># C - {#s#})"
  by (cases "s = t") (auto simp: diff_add_mset_swap)

lemma separate_add:
  "separate h eq (add_mset t C) \<longleftrightarrow>
     separate h eq C \<and> fst t = h (fst (snd t)) \<and>
     (\<forall>u \<in># C. \<not> matches h eq t (fst (snd u)) \<and> \<not> matches h eq u (fst (snd t)))"
proof -
  have "(\<forall>s \<in># add_mset t C. \<forall>u \<in># add_mset t C - {#s#}. \<not> matches h eq s (fst (snd u))) \<longleftrightarrow>
      (\<forall>s \<in># C. \<forall>u \<in># C - {#s#}. \<not> matches h eq s (fst (snd u))) \<and>
      (\<forall>u \<in># C. \<not> matches h eq t (fst (snd u)) \<and> \<not> matches h eq u (fst (snd t)))"
    unfolding in_remove_one set_mset_add_mset_insert ball_simps(7) by (auto dest: in_diffD)
  then show ?thesis by (auto simp: separate_def)
qed

lemma contents_split:
  "p < length es \<Longrightarrow> v_gap (es ! p) \<noteq> 0 \<Longrightarrow>
   contents es = add_mset (item_of (es ! p)) (contents (es[p := erase (es ! p)]))"
  using contents_update[of p es "erase (es ! p)"] by (simp add: items_of_def[of "es ! p"])

lemma map_rehash:
  assumes "table_ok (f_entries (v_table m))" "rank < length v_ranks"
    and "size (contents (f_entries (v_table m))) < v_capacity rank"
  shows "\<exists>es. t_map_f_rehash rank m = Some (m\<lparr>v_table := \<lparr>v_rank = rank, f_entries = es\<rparr>\<rparr>) \<and>
    length es = v_capacity rank \<and> table_ok es \<and> contents es = contents (f_entries (v_table m))"
proof -
  define es1 where "es1 = replicate (v_capacity rank) t_entry_new"
  have "table_ok es1"
    using capacity_large[OF assms(2)] by (auto simp: table_ok_def es1_def gap_at_def t_entry_new_def)
  then show ?thesis
    using rehash_spec[of es1 "f_entries (v_table m)"] assms(3)
    by (auto simp: t_map_f_rehash_def t_table_f_instantiate_def es1_def contents_new)
qed

text \<open>Keys: on keys of one hash, equality is symmetric and transitive.  It need not be reflexive (a
  floating-point NaN is not equal to itself).\<close>

locale keys =
  fixes h :: "t_value \<Rightarrow> i64"
    and eq :: "t_value \<Rightarrow> t_value \<Rightarrow> bool"
  assumes eq_sym: "h x = h y \<Longrightarrow> eq x y \<Longrightarrow> eq y x"
    and eq_trans: "h x = h y \<Longrightarrow> h y = h z \<Longrightarrow> eq x y \<Longrightarrow> eq y z \<Longrightarrow> eq x z"
begin

lemma matches_unique:
  assumes "separate h eq (add_mset t C)" "matches h eq t k" "u \<in># C"
  shows "\<not> matches h eq u k"
proof
  assume u: "matches h eq u k"
  have hs: "fst t = h (fst (snd t))" "fst u = h (fst (snd u))"
    using assms(1,3) by (auto simp: separate_def)
  have m: "h (fst (snd t)) = h k" "eq (fst (snd t)) k" "h (fst (snd u)) = h k" "eq (fst (snd u)) k"
    using hs u assms(2) by (simp_all add: matches_def)
  have "eq (fst (snd t)) (fst (snd u))"
    by (rule eq_trans[OF m(1) m(3)[symmetric] m(2) eq_sym[OF m(3,4)]])
  then have "matches h eq t (fst (snd u))" using hs u assms(2) by (simp add: matches_def)
  then show False using assms(1,3) by (simp add: separate_add)
qed

lemma lookup_eq:
  assumes "map_ok h eq m"
  shows "lookup h eq m k = Some v \<longleftrightarrow> (\<exists>t \<in># contents (f_entries (v_table m)). matches h eq t k \<and> snd (snd t) = v)"
proof -
  define es where "es = f_entries (v_table m)"
  have ok: "table_ok es" "separate h eq (contents es)" using assms by (auto simp: map_ok_def Let_def es_def)
  show ?thesis
  proof (cases "t_table_f_find h eq es k")
    case None
    then have "\<forall>t \<in># contents es. \<not> matches h eq t k"
      using f_find_spec[OF ok(1), where h = h and eq = eq and a_key = k] by (auto simp: in_contents matches_item)
    then show ?thesis
      using None by (simp add: lookup_def t_map_f_get_def flip: es_def)
  next
    case (Some p)
    then have p: "p < length es" "v_gap (es ! p) \<noteq> 0" "matches h eq (item_of (es ! p)) k"
      using f_find_spec[OF ok(1), where h = h and eq = eq and a_key = k] by (auto simp: matches_item)
    define C where "C = contents (es[p := erase (es ! p)])"
    have C: "contents es = add_mset (item_of (es ! p)) C" using contents_split p by (simp add: C_def)
    have "lookup h eq m k = Some (snd (snd (item_of (es ! p))))"
      using Some by (simp add: lookup_def t_map_f_get_def item_of_def flip: es_def)
    then show ?thesis
      using matches_unique[of "item_of (es ! p)" C k] ok(2) p(3)
      unfolding es_def[symmetric] C by auto
  qed
qed

lemma lookup_eqI:
  assumes "map_ok h eq m" "map_ok h eq m'"
    and "\<And>t. t \<in># contents (f_entries (v_table m)) \<and> matches h eq t k \<longleftrightarrow>
      t \<in># contents (f_entries (v_table m')) \<and> matches h eq t k"
  shows "lookup h eq m k = lookup h eq m' k"
proof -
  have "lookup h eq m k = Some v \<longleftrightarrow> lookup h eq m' k = Some v" for v
    unfolding lookup_eq[OF assms(1)] lookup_eq[OF assms(2)] using assms(3) by blast
  then show ?thesis by (metis option.exhaust)
qed

text \<open>A key that matches the same items as another.\<close>

lemma matches_same:
  assumes "fst t = h (fst (snd t))" "matches h eq t k"
  shows "matches h eq t k' \<longleftrightarrow> same_key h eq k k'"
proof -
  have t: "h (fst (snd t)) = h k" "eq (fst (snd t)) k" using assms by (auto simp: matches_def)
  have "eq (fst (snd t)) k' \<longleftrightarrow> eq k k'" if "h k = h k'"
    using eq_trans[OF t(1) that t(2)] eq_trans[of k "fst (snd t)" k', OF t(1)[symmetric] _ eq_sym[OF t]] t(1) that
    by auto
  then show ?thesis
    using t(1) assms(1) by (auto simp: matches_def same_key_def)
qed

lemma lookup_add:
  assumes "map_ok h eq m" "map_ok h eq m'" "contents (f_entries (v_table m')) = add_mset t D"
    and "\<And>k'. matches h eq t k' \<longleftrightarrow> same_key h eq k k'" "snd (snd t) = v"
    and "\<And>k' u. \<not> same_key h eq k k' \<Longrightarrow> matches h eq u k' \<Longrightarrow> u \<in># contents (f_entries (v_table m)) \<longleftrightarrow> u \<in># D"
  shows "lookup h eq m' k' = (if same_key h eq k k' then Some v else lookup h eq m k')"
proof (cases "same_key h eq k k'")
  case True
  then have "lookup h eq m' k' = Some v"
    using assms(3-5) by (auto simp: lookup_eq[OF assms(2)])
  then show ?thesis using True by simp
next
  case False
  have "lookup h eq m' k' = lookup h eq m k'"
    by (rule lookup_eqI[OF assms(2,1)]) (use assms(3,4,6) False in auto)
  then show ?thesis using False by simp
qed

lemma lookup_none: "map_ok h eq m \<Longrightarrow> lookup h eq m k = None \<longleftrightarrow> (\<forall>t \<in># contents (f_entries (v_table m)). \<not> matches h eq t k)"
  using lookup_eq[of m k] by (metis not_None_eq)

lemma put_present:
  fixes v :: t_value
  assumes ok: "map_ok h eq m" and p: "p < length (f_entries (v_table m))" "v_gap (f_entries (v_table m) ! p) \<noteq> 0"
    "matches h eq (item_of (f_entries (v_table m) ! p)) k"
  defines "m' \<equiv> m\<lparr>v_table := (v_table m)\<lparr>f_entries := (f_entries (v_table m))[p := (f_entries (v_table m) ! p)\<lparr>v_value := v\<rparr>]\<rparr>\<rparr>"
  shows "map_ok h eq m'" "lookup h eq m' k' = (if same_key h eq k k' then Some v else lookup h eq m k')"
    "lookup h eq m k \<noteq> None"
proof -
  define es where "es = f_entries (v_table m)"
  define e where "e = (es ! p)\<lparr>v_value := v\<rparr>"
  define D where "D = contents (es[p := erase (es ! p)])"
  have es': "f_entries (v_table m') = es[p := e]" by (simp add: m'_def es_def e_def)
  have C: "contents es = add_mset (item_of (es ! p)) D"
    using contents_split p by (simp add: D_def es_def)
  have C': "contents (es[p := e]) = add_mset (item_of e) D"
    using contents_split[of p "es[p := e]"] p
    by (simp add: D_def es_def e_def erase_def)
  have e: "fst (item_of e) = fst (item_of (es ! p))" "fst (snd (item_of e)) = fst (snd (item_of (es ! p)))"
    by (simp_all add: e_def item_of_def)
  have tok: "table_ok es" and sep: "separate h eq (add_mset (item_of (es ! p)) D)"
    using ok C by (auto simp: map_ok_def Let_def es_def)
  have g: "gap_at (es[p := e]) r = gap_at es r" for r
    using p by (simp add: gap_at_def e_def nth_list_update es_def)
  have "table_ok (es[p := e])"
    using tok p unfolding table_ok_def g
    by (auto simp: nth_list_update e_def homed_def es_def)
  moreover have "separate h eq (add_mset (item_of e) D)"
    using sep e by (simp add: separate_add matches_def)
  ultimately show ok': "map_ok h eq m'"
    using ok C C' by (simp add: map_ok_def Let_def es' es_def[symmetric]) (simp add: m'_def es_def)
  have hash: "fst (item_of e) = h (fst (snd (item_of e)))" using sep e by (simp add: separate_add)
  have me: "matches h eq (item_of e) k' \<longleftrightarrow> same_key h eq k k'" for k'
    using matches_same[OF hash, of k k'] p(3) e by (simp add: matches_def es_def)
  have mp: "matches h eq (item_of (es ! p)) k' \<longleftrightarrow> matches h eq (item_of e) k'" for k'
    using e by (simp add: matches_def)
  show "lookup h eq m' k' = (if same_key h eq k k' then Some v else lookup h eq m k')"
    by (rule lookup_add[OF ok ok', of "item_of e" D])
      (use C C' me mp in \<open>auto simp: es' es_def item_of_def e_def\<close>)
  show "lookup h eq m k \<noteq> None"
    using p(3) C unfolding lookup_none[OF ok] es_def[symmetric] by auto
qed

lemma put_absent:
  assumes ok: "map_ok h eq m" and absent: "lookup h eq m k = None"
    and m': "rank < length v_ranks" "length es = v_capacity rank" "table_ok es" "contents es = contents (f_entries (v_table m))"
      "Suc (v_size m) < v_capacity rank"
    and fits: "fits es p \<lparr>v_gap = gap, v_hash = h k, v_key = k, v_value = v\<rparr>"
  shows "\<exists>es'. t_table_f_put (length es) es p \<lparr>v_gap = gap, v_hash = h k, v_key = k, v_value = v\<rparr> = Some es' \<and>
    (let m' = m\<lparr>v_table := \<lparr>v_rank = rank, f_entries = es'\<rparr>, v_size := Suc (v_size m)\<rparr>
     in map_ok h eq m' \<and> (\<forall>k'. lookup h eq m' k' = (if same_key h eq k k' then Some v else lookup h eq m k')))"
proof -
  define a where "a = \<lparr>v_gap = gap, v_hash = h k, v_key = k, v_value = v\<rparr>"
  have sz: "v_size m = size (contents es)" and sep: "separate h eq (contents es)"
    using ok m'(4) by (auto simp: map_ok_def Let_def)
  have r: "room es" using m' sz by (simp add: room_def)
  obtain es' where es': "t_table_f_put (length es) es p a = Some es'" "length es' = length es" "table_ok es'"
    "contents es' = add_mset (item_of a) (contents es)"
    using room_put[OF r fits[folded a_def]] by blast
  define m1 where "m1 = m\<lparr>v_table := \<lparr>v_rank = rank, f_entries = es'\<rparr>, v_size := Suc (v_size m)\<rparr>"
  have item: "item_of a = (h k, k, v)" by (simp add: a_def item_of_def)
  have no: "\<forall>u \<in># contents es. \<not> matches h eq u k"
    using absent m'(4) by (simp add: lookup_none[OF ok])
  have "\<not> matches h eq (item_of a) (fst (snd u))" if u: "u \<in># contents es" for u
  proof
    assume mu: "matches h eq (item_of a) (fst (snd u))"
    have "fst u = h (fst (snd u))" using sep u by (simp add: separate_def)
    then have "matches h eq u k" using mu eq_sym[of k "fst (snd u)"] by (simp add: matches_def item)
    with no u show False by blast
  qed
  then have "separate h eq (add_mset (item_of a) (contents es))"
    using sep no by (simp add: separate_add item)
  then have ok1: "map_ok h eq m1"
    using es' m' sz by (simp add: map_ok_def Let_def m1_def)
  have "lookup h eq m1 k' = (if same_key h eq k k' then Some v else lookup h eq m k')" for k'
    by (rule lookup_add[OF ok ok1, of "item_of a" "contents es"])
      (use es' m'(4) in \<open>auto simp: m1_def item matches_def same_key_def\<close>)
  then show ?thesis using es'(1) ok1 by (auto simp: a_def m1_def Let_def)
qed

lemma put_spec:
  assumes ok: "map_ok h eq m"
  shows "if lookup h eq m k = None \<and> v_upper (v_rank (v_table m)) \<le> v_size m \<and> length v_ranks \<le> Suc (v_rank (v_table m))
    then t_map_f_put h eq k v m = Some (Inl (Thrown ''cannot grow.''))
    else \<exists>m'. t_map_f_put h eq k v m = Some (Inr m') \<and> map_ok h eq m' \<and>
      (\<forall>k'. lookup h eq m' k' = (if same_key h eq k k' then Some v else lookup h eq m k')) \<and>
      v_size m' = (if lookup h eq m k = None then Suc (v_size m) else v_size m)"
proof -
  define es where "es = f_entries (v_table m)"
  define rank where "rank = v_rank (v_table m)"
  have f: "rank < length v_ranks" "length es = v_capacity rank" "table_ok es" "v_size m = size (contents es)"
    "v_size m < v_capacity rank"
    using ok by (auto simp: map_ok_def Let_def es_def rank_def)
  have r: "room es" using f by (simp add: room_def)
  obtain p gap where pg: "t_table_f_find2 eq es (h k) k = (p, gap)" by force
  note spec = f_find2_spec[OF r pg]
  show ?thesis
  proof (cases "gap_at es p = gap")
    case True
    then have pp: "v_gap (es ! p) \<noteq> 0" "matches h eq (item_of (es ! p)) k"
      using spec(2) by (auto simp: matches_item)
    have put: "t_map_f_put h eq k v m = Some (Inr (m\<lparr>v_table := (v_table m)\<lparr>f_entries := es[p := (es ! p)\<lparr>v_value := v\<rparr>]\<rparr>\<rparr>))"
      using True pg by (simp add: t_map_f_put_def flip: es_def)
    show ?thesis
      using put put_present(1,2)[OF ok, folded es_def, OF spec(1) pp, where v = v]
        put_present(3)[OF ok, folded es_def, OF spec(1) pp] by simp
  next
    case False
    have absent: "lookup h eq m k = None"
      unfolding lookup_none[OF ok] es_def[symmetric] using spec(4)[OF False] by (auto simp: in_contents matches_item)
    show ?thesis
    proof (cases "v_upper rank \<le> v_size m")
      case full: True
      show ?thesis
      proof (cases "length v_ranks \<le> Suc rank")
        case True
        then show ?thesis
          using False pg full absent by (simp add: t_map_f_put_def rank_def flip: es_def)
      next
        case last: False
        then have cap: "v_capacity rank < v_capacity (Suc rank)" using ranks_increasing by simp
        obtain es1 where es1: "t_map_f_rehash (Suc rank) m = Some (m\<lparr>v_table := \<lparr>v_rank = Suc rank, f_entries = es1\<rparr>\<rparr>)"
          "length es1 = v_capacity (Suc rank)" "table_ok es1" "contents es1 = contents es"
          using map_rehash[of m "Suc rank"] f cap last by (auto simp: es_def)
        have r1: "room es1" using es1 f cap by (simp add: room_def)
        obtain p1 gap1 where pg1: "t_table_f_find2 eq es1 (h k) k = (p1, gap1)" by force
        have ne: "gap_at es1 p1 \<noteq> gap1"
        proof
          assume "gap_at es1 p1 = gap1"
          then have "item_of (es1 ! p1) \<in># contents es" "matches h eq (item_of (es1 ! p1)) k"
            using f_find2_spec(1,2)[OF r1 pg1] es1(4) by (auto simp: matches_item in_contents simp flip: es1(4))
          then show False using absent by (auto simp: lookup_none[OF ok] es_def)
        qed
        show ?thesis
          using put_absent[OF ok absent _ es1(2,3) _ _ f_find2_spec(3)[OF r1 pg1 ne, of v]] False pg pg1 full last es1 f cap absent
          by (auto simp: t_map_f_put_def es_def[symmetric] rank_def[symmetric] Let_def)
      qed
    next
      case room: False
      then have "Suc (v_size m) < v_capacity rank" using capacity_large[OF f(1)] by (simp add: v_upper_def)
      moreover have vt: "(v_table m)\<lparr>f_entries := x\<rparr> = \<lparr>v_rank = rank, f_entries = x\<rparr>" for x by (simp add: rank_def)
      ultimately show ?thesis
        using put_absent[OF ok absent f(1,2,3) _ _ spec(3)[OF False, of v]] False pg room absent
        by (auto simp: t_map_f_put_def es_def[symmetric] rank_def[symmetric] Let_def vt)
    qed
  qed
qed

lemma remove_item:
  assumes ok: "map_ok h eq m" and C: "contents (f_entries (v_table m)) = add_mset t D" "matches h eq t k"
    and ok': "map_ok h eq m'" "contents (f_entries (v_table m')) = D"
  shows "lookup h eq m' k' = (if same_key h eq k k' then None else lookup h eq m k')"
proof -
  have sep: "separate h eq (add_mset t D)" using ok C(1) by (simp add: map_ok_def Let_def)
  then have hash: "fst t = h (fst (snd t))" by (simp add: separate_add)
  show ?thesis
  proof (cases "same_key h eq k k'")
    case True
    then have "matches h eq t k'" using matches_same[OF hash C(2)] by simp
    then show ?thesis using True matches_unique[OF sep] ok'(2) by (simp add: lookup_none[OF ok'(1)])
  next
    case False
    then have "\<not> matches h eq t k'" using matches_same[OF hash C(2)] by simp
    then have "lookup h eq m' k' = lookup h eq m k'"
      using C ok'(2) by (intro lookup_eqI[OF ok'(1) ok]) auto
    then show ?thesis using False by simp
  qed
qed

lemma remove_spec:
  assumes ok: "map_ok h eq m"
  shows "case lookup h eq m k of
      None \<Rightarrow> t_map_f_remove h eq k m = Some (Inl (Thrown ''key not found.''))
    | Some v \<Rightarrow> \<exists>m'. t_map_f_remove h eq k m = Some (Inr (v, m')) \<and> map_ok h eq m' \<and>
        (\<forall>k'. lookup h eq m' k' = (if same_key h eq k k' then None else lookup h eq m k')) \<and>
        Suc (v_size m') = v_size m"
proof -
  define es where "es = f_entries (v_table m)"
  define rank where "rank = v_rank (v_table m)"
  have f: "rank < length v_ranks" "length es = v_capacity rank" "table_ok es" "v_size m = size (contents es)"
    "v_size m < v_capacity rank" "separate h eq (contents es)"
    using ok by (auto simp: map_ok_def Let_def es_def rank_def)
  show ?thesis
  proof (cases "t_table_f_find h eq es k")
    case None
    then show ?thesis
      by (simp add: lookup_def t_map_f_get_def t_map_f_remove_def flip: es_def)
  next
    case (Some p)
    then have p: "p < length es" "v_gap (es ! p) \<noteq> 0" "matches h eq (item_of (es ! p)) k"
      using f_find_spec[OF f(3), where h = h and eq = eq and a_key = k] by (auto simp: matches_item)
    define D where "D = contents (es[p := erase (es ! p)])"
    have C: "contents es = add_mset (item_of (es ! p)) D" using contents_split p by (simp add: D_def)
    have l: "lookup h eq m k = Some (v_value (es ! p))"
      using Some by (simp add: lookup_def t_map_f_get_def flip: es_def)
    define es1 where "es1 = remove_shift (es[p := erase (es ! p)]) p"
    have "hole (es[p := erase (es ! p)]) p"
      using erase_hole[OF f(3) _ p(1)] capacity_large[OF f(1)] f(2) by simp
    then have es1: "table_ok es1" "length es1 = length es" "contents es1 = D"
      using remove_shift_spec by (auto simp: es1_def D_def)
    define m1 where "m1 = m\<lparr>v_table := \<lparr>v_rank = rank, f_entries = es1\<rparr>, v_size := v_size m - 1\<rparr>"
    have size1: "Suc (v_size m1) = v_size m" "v_size m1 = size D" using f(4) C by (simp_all add: m1_def)
    have sepD: "separate h eq D" using f(6) C by (simp add: separate_add)
    have ok1: "map_ok h eq m1"
      using f es1 size1 sepD by (simp add: map_ok_def Let_def m1_def)
    have m1: "(m\<lparr>v_table := (v_table m)\<lparr>f_entries := es1\<rparr>, v_size := v_size m - 1\<rparr>) = m1"
      by (simp add: m1_def rank_def)
    have "\<exists>m'. t_map_f_remove h eq k m = Some (Inr (v_value (es ! p), m')) \<and> map_ok h eq m' \<and>
        contents (f_entries (v_table m')) = D \<and> v_size m' = v_size m1"
    proof (cases "v_size m1 < v_lower rank")
      case True
      then obtain prev where prev: "rank = Suc prev" by (cases rank) (auto simp: v_lower_def)
      have "size D < v_capacity prev"
        using True ranks_increasing(2)[of prev] f(1) size1 prev by (simp add: v_lower_def)
      then obtain es2 where es2: "t_map_f_rehash prev m1 = Some (m1\<lparr>v_table := \<lparr>v_rank = prev, f_entries = es2\<rparr>\<rparr>)"
        "length es2 = v_capacity prev" "table_ok es2" "contents es2 = D"
        using map_rehash[of m1 prev] es1 f(1) prev by (auto simp: m1_def)
      have "map_ok h eq (m1\<lparr>v_table := \<lparr>v_rank = prev, f_entries = es2\<rparr>\<rparr>)"
        using es2 f(1) prev size1 sepD \<open>size D < v_capacity prev\<close> by (simp add: map_ok_def Let_def)
      moreover have "t_map_f_remove h eq k m = Some (Inr (v_value (es ! p), m1\<lparr>v_table := \<lparr>v_rank = prev, f_entries = es2\<rparr>\<rparr>))"
        using Some True es2(1) m1 prev
        by (simp add: t_map_f_remove_def Let_def flip: es_def rank_def es1_def)
      ultimately show ?thesis using es2(4) by simp
    next
      case False
      then have "t_map_f_remove h eq k m = Some (Inr (v_value (es ! p), m1))"
        using Some m1 by (simp add: t_map_f_remove_def Let_def flip: es_def rank_def es1_def)
      then show ?thesis using ok1 es1 by (simp add: m1_def)
    qed
    then show ?thesis
      using l size1 remove_item[OF ok C[unfolded es_def] p(3)[unfolded es_def]] by (fastforce simp: es_def)
  qed
qed

end

lemma map_ok_new: "map_ok h eq t_map_new"
proof -
  have "f_entries (v_table t_map_new) = replicate 11 t_entry_new" "v_rank (v_table t_map_new) = 0" "v_size t_map_new = 0"
    by (simp_all add: t_map_new_def t_table_f_instantiate_def v_capacity_def v_ranks_def)
  moreover have "table_ok (replicate 11 t_entry_new)"
    by (auto simp: table_ok_def gap_at_def t_entry_new_def)
  ultimately show ?thesis
    by (simp add: map_ok_def contents_new separate_def) (simp add: v_capacity_def v_ranks_def)
qed

lemma lookup_new: "keys h eq \<Longrightarrow> lookup h eq t_map_new k = None"
  by (subst keys.lookup_none[OF _ map_ok_new])
    (simp_all add: t_map_new_def t_table_f_instantiate_def contents_new)

lemma clear_new: "t_map_f_clear m = t_map_new"
  by (simp add: t_map_f_clear_def t_map_new_def)




section \<open>Keys of the primitive types\<close>

lemma f64_eq_sym: "f64_eq x y \<Longrightarrow> f64_eq y x"
  by (cases x; cases y) auto

lemma f64_eq_trans: "f64_eq x y \<Longrightarrow> f64_eq y z \<Longrightarrow> f64_eq x z"
  by (cases x; cases y; cases z) auto

lemma plain_equals_simps:
  "plain_equals (V_integer a) (V_integer b) \<longleftrightarrow> a = b"
  "plain_equals (V_integer a) (V_float y) \<longleftrightarrow> f64_eq (i2f a) y"
  "plain_equals (V_float x) (V_integer b) \<longleftrightarrow> f64_eq x (i2f b)"
  "plain_equals (V_float x) (V_float y) \<longleftrightarrow> f64_eq x y"
  "\<nexists>a. v = V_integer a \<Longrightarrow> \<nexists>x. v = V_float x \<Longrightarrow> plain_equals v w \<longleftrightarrow> v = w"
  "\<nexists>a. w = V_integer a \<Longrightarrow> \<nexists>x. w = V_float x \<Longrightarrow> plain_equals v w \<longleftrightarrow> v = w"
  by (cases v; cases w; simp add: plain_equals_def value_equals_def intptr_equals_def double_equals_def
      double_as_def f_equal_iff)+

interpretation plain_keys: keys "plain_hash std_hash" plain_equals for std_hash
proof
  fix x y
  assume "plain_equals x y"
  then show "plain_equals y x"
    by (cases x; cases y) (auto simp: plain_equals_simps intro: f64_eq_sym)
next
  fix x y z
  assume "plain_hash std_hash x = plain_hash std_hash y" "plain_hash std_hash y = plain_hash std_hash z"
    "plain_equals x y" "plain_equals y z"
  then show "plain_equals x z"
    by (cases x; cases y; cases z)
      (auto simp: plain_equals_simps plain_hash_def value_hash_def intro: f64_eq_trans)
qed

section \<open>Iteration\<close>

lemma iterator_seek_Some:
  "iterator_seek es p = Some q \<Longrightarrow> p \<le> q \<and> q < length es \<and> v_gap (es ! q) \<noteq> 0"
proof (induction es p rule: iterator_seek.induct)
  case (1 es p)
  from "1.prems" show ?case
    by (subst (asm) iterator_seek.simps) (auto split: if_splits dest: "1.IH")
qed

text \<open>The entries \<open>each\<close> visits, in order.\<close>

function visited :: "t_map \<Rightarrow> nat option \<Rightarrow> nat list" where
  "visited m None = []"
| "visited m (Some p) = (if p < length (f_entries (v_table m)) then p # visited m (t_iterator_f_next m p) else [])"
  by pat_completeness auto
termination
proof (relation "measure (\<lambda>(m, i). case i of None \<Rightarrow> 0 | Some p \<Rightarrow> Suc (length (f_entries (v_table m)) - p))", goal_cases)
  case (2 m p)
  then show ?case
    by (auto simp: t_iterator_f_next_def split: option.splits dest!: iterator_seek_Some)
qed simp

lemma visited_seek:
  "visited m (iterator_seek (f_entries (v_table m)) p) =
     filter (\<lambda>q. v_gap (f_entries (v_table m) ! q) \<noteq> 0) [p..<length (f_entries (v_table m))]"
proof (induction "length (f_entries (v_table m)) - p" arbitrary: p)
  case 0
  then show ?case by (subst iterator_seek.simps) simp
next
  case (Suc n)
  then have "n = length (f_entries (v_table m)) - Suc p" "p < length (f_entries (v_table m))" by auto
  with Suc(1)[of "Suc p"] show ?case
    by (subst iterator_seek.simps) (simp add: upt_conv_Cons t_iterator_f_next_def)
qed

section \<open>Properties\<close>

text \<open>C2: Insertion.  On a well-formed map \<open>f_put\<close> always returns: it raises exactly when the key is
  absent, the table is at its upper load and there is no larger rank; otherwise the map it leaves is
  well formed, the key (and every key equal to it) has the value, every other key what it had, and
  the size counts the entries.  Keys are compared by hash and equality, which needs to be symmetric
  and transitive only.\<close>

theorem map_put:
  assumes "keys h eq" "map_ok h eq m"
  shows "if lookup h eq m k = None \<and> v_upper (v_rank (v_table m)) \<le> v_size m \<and> length v_ranks \<le> Suc (v_rank (v_table m))
    then t_map_f_put h eq k v m = Some (Inl (Thrown ''cannot grow.''))
    else \<exists>m'. t_map_f_put h eq k v m = Some (Inr m') \<and> map_ok h eq m' \<and>
      (\<forall>k'. lookup h eq m' k' = (if same_key h eq k k' then Some v else lookup h eq m k')) \<and>
      v_size m' = (if lookup h eq m k = None then Suc (v_size m) else v_size m)"
  using keys.put_spec[OF assms] .

theorem map_put_witness:
  "\<exists>m'. t_map_f_put (plain_hash (\<lambda>_. 0)) plain_equals V_true (V_integer 7) t_map_new = Some (Inr m') \<and>
     map_ok (plain_hash (\<lambda>_. 0)) plain_equals m' \<and> v_size m' = 1 \<and>
     lookup (plain_hash (\<lambda>_. 0)) plain_equals m' V_true = Some (V_integer 7)"
proof -
  have e: "lookup (plain_hash (\<lambda>_. 0)) plain_equals t_map_new k = None" for k
    by (rule lookup_new) unfold_locales
  have n: "\<not> (lookup (plain_hash (\<lambda>_. 0)) plain_equals t_map_new V_true = None \<and>
      v_upper (v_rank (v_table t_map_new)) \<le> v_size t_map_new \<and> length v_ranks \<le> Suc (v_rank (v_table t_map_new)))"
    by (simp add: t_map_new_def t_table_f_instantiate_def v_ranks_def)
  have s: "same_key (plain_hash (\<lambda>_. 0)) plain_equals V_true V_true"
    by (simp add: same_key_def plain_equals_simps)
  from map_put[OF plain_keys.keys_axioms map_ok_new, of "\<lambda>_. 0" V_true "V_integer 7", unfolded if_not_P[OF n]]
  show ?thesis using e s by (fastforce simp: t_map_new_def)
qed

text \<open>C3: Removal.  Removing a key that is absent raises; removing one that is present always returns,
  with its value, and leaves a well-formed map without that key, with every other key as it was and
  one entry less: pulling the following runs back and shrinking the table lose nothing.\<close>

theorem map_remove:
  assumes "keys h eq" "map_ok h eq m"
  shows "case lookup h eq m k of
      None \<Rightarrow> t_map_f_remove h eq k m = Some (Inl (Thrown ''key not found.''))
    | Some v \<Rightarrow> \<exists>m'. t_map_f_remove h eq k m = Some (Inr (v, m')) \<and> map_ok h eq m' \<and>
        (\<forall>k'. lookup h eq m' k' = (if same_key h eq k k' then None else lookup h eq m k')) \<and>
        Suc (v_size m') = v_size m"
  using keys.remove_spec[OF assms] .

theorem map_remove_witness:
  "t_map_f_remove (plain_hash (\<lambda>_. 0)) plain_equals V_true t_map_new = Some (Inl (Thrown ''key not found.''))"
  using map_remove[OF plain_keys.keys_axioms map_ok_new, of "\<lambda>_. 0" V_true] lookup_new[OF plain_keys.keys_axioms]
  by simp



text \<open>C15: Iteration visits every entry in use exactly once, in the order of the table.\<close>

theorem map_iterator_visits_all:
  "visited m (t_iterator_new m) =
     filter (\<lambda>p. v_gap (f_entries (v_table m) ! p) \<noteq> 0) [0..<length (f_entries (v_table m))]"
  unfolding t_iterator_new_def by (rule visited_seek)

end
