(* ===== verification/Xm_Lexer.thy ===== *)
theory Xm_Lexer
  imports Xm_Float
begin

unbundle bit_operations_syntax

text \<open>
  The lexical analyser (src/include/xemmai/lexer.h, src/src/lexer.cc).  A wide character is its code
  point and \<open>WEOF\<close> is \<open>None\<close>; the stream is the list of the characters \<open>std::getwc\<close> has still to
  deliver.  \<open>t_lexer\<close> is the object's state, \<open>f_next\<close> the scanner, with one function per loop.  The
  wide-character classes that depend on the locale are parameters, collected in a record;
  \<open>iswdigit\<close> and \<open>iswxdigit\<close> are fixed by the C standard.

  The theorems show that the keyword switch recognises exactly the keywords and leaves every other
  identifier whole, that every call consumes input or reports the end of it (so that scanning a file
  ends), the value of every integer literal, and that a quoted string is read back as it was.
\<close>

section \<open>Characters\<close>

type_synonym wchar = nat

abbreviation W :: "char \<Rightarrow> wchar" where
  "W c \<equiv> of_char c"

definition wide :: "string \<Rightarrow> wchar list" where
  "wide s = map of_char s"

text \<open>The locale: character classes and the number of bytes a character takes in the stream.\<close>

record wctype =
  w_space :: "wchar \<Rightarrow> bool"
  w_alpha :: "wchar \<Rightarrow> bool"
  w_alnum :: "wchar \<Rightarrow> bool"
  w_bytes :: "wchar \<Rightarrow> nat"

definition iswdigit :: "wchar option \<Rightarrow> bool" where
  "iswdigit c = (case c of None \<Rightarrow> False | Some x \<Rightarrow> 48 \<le> x \<and> x \<le> 57)"

definition iswxdigit :: "wchar option \<Rightarrow> bool" where
  "iswxdigit c = (case c of None \<Rightarrow> False | Some x \<Rightarrow> 48 \<le> x \<and> x \<le> 57 \<or> 65 \<le> x \<and> x \<le> 70 \<or> 97 \<le> x \<and> x \<le> 102)"

definition iswspace :: "wctype \<Rightarrow> wchar option \<Rightarrow> bool" where
  "iswspace lc c = (case c of None \<Rightarrow> False | Some x \<Rightarrow> w_space lc x)"

definition iswalpha :: "wctype \<Rightarrow> wchar option \<Rightarrow> bool" where
  "iswalpha lc c = (case c of None \<Rightarrow> False | Some x \<Rightarrow> w_alpha lc x)"

definition f_is_symbol :: "wctype \<Rightarrow> wchar option \<Rightarrow> bool" where
  "f_is_symbol lc c = (case c of None \<Rightarrow> False | Some x \<Rightarrow> w_alnum lc x \<or> x = W CHR ''_'')"

section \<open>Tokens and state\<close>

datatype t_token =
    T_EOF | T_EXCLAMATION | T_PERCENT | T_AMPERSAND | T_APOSTROPHE | T_LEFT_PARENTHESIS
  | T_RIGHT_PARENTHESIS | T_ASTERISK | T_PLUS | T_COMMA | T_HYPHEN | T_DOT | T_SLASH | T_COLON
  | T_SEMICOLON | T_LESS | T_EQUAL | T_GREATER | T_QUESTION | T_ATMARK | T_LEFT_BRACKET
  | T_RIGHT_BRACKET | T_HAT | T_LEFT_BRACE | T_BAR | T_RIGHT_BRACE | T_TILDE | T_LEFT_SHIFT
  | T_RIGHT_SHIFT | T_EQUALS | T_NOT_EQUALS | T_IDENTICAL | T_NOT_IDENTICAL | T_LESS_EQUAL
  | T_GREATER_EQUAL | T_AND_ALSO | T_OR_ELSE | T_NULL | T_TRUE | T_FALSE | T_SYMBOL | T_SELF
  | T_INTEGER | T_FLOAT | T_STRING | T_BREAK | T_CONTINUE | T_RETURN | T_THROW | T_IF | T_ELSE
  | T_WHILE | T_FOR | T_TRY | T_CATCH | T_FINALLY

text \<open>The members \<open>v_string\<close>, \<open>v_integer\<close> and \<open>v_float\<close> of the anonymous union are read under the tokens
  that set them; they are separate fields here.  \<open>v_stream\<close> is what is left of the stream and
  \<open>v_tell\<close> its position.\<close>

record t_lexer =
  v_stream :: "wchar list"
  v_tell :: nat
  v_position :: nat
  v_line :: nat
  v_column :: nat
  v_c :: "wchar option"
  v_at :: "nat \<times> nat \<times> nat"
  v_newline :: bool
  v_indent :: "wchar list"
  v_token :: t_token
  v_value :: "wchar list"
  v_string :: "wchar list"
  v_integer :: i64
  v_float :: float64

text \<open>\<open>f_throw\<close>: the error takes the path and \<open>v_at\<close> of the lexer along.\<close>

definition lexical_error :: "t_lexer \<Rightarrow> 'a result" where
  "lexical_error l = Inl (Thrown ''lexical error.'')"

definition getwc :: "wctype \<Rightarrow> t_lexer \<Rightarrow> t_lexer" where
  "getwc lc l =
     (case v_stream l of
        [] \<Rightarrow> l\<lparr>v_c := None\<rparr>
      | x # xs \<Rightarrow> l\<lparr>v_c := Some x, v_stream := xs, v_tell := v_tell l + w_bytes lc x\<rparr>)"

definition f_get :: "wctype \<Rightarrow> t_lexer \<Rightarrow> t_lexer" where
  "f_get lc l =
     getwc lc
       (if v_c l = Some (W CHR 0x0A)
        then l\<lparr>v_position := v_tell l, v_line := Suc (v_line l), v_column := 1\<rparr>
        else l\<lparr>v_column := Suc (v_column l)\<rparr>)"

text \<open>Characters that are still to come, the current one included.\<close>

definition ahead :: "t_lexer \<Rightarrow> wchar list" where
  "ahead l = (case v_c l of None \<Rightarrow> [] | Some c \<Rightarrow> c # v_stream l)"

lemma f_get_simps [simp]:
  "v_c (f_get lc l) = (case v_stream l of [] \<Rightarrow> None | x # xs \<Rightarrow> Some x)"
  "v_stream (f_get lc l) = tl (v_stream l)"
  "v_at (f_get lc l) = v_at l" "v_newline (f_get lc l) = v_newline l" "v_indent (f_get lc l) = v_indent l"
  "v_token (f_get lc l) = v_token l" "v_value (f_get lc l) = v_value l" "v_string (f_get lc l) = v_string l"
  "v_integer (f_get lc l) = v_integer l" "v_float (f_get lc l) = v_float l"
  by (auto simp: f_get_def getwc_def split: list.splits)

lemma ahead_f_get [simp]: "ahead (f_get lc l) = (case v_stream l of [] \<Rightarrow> [] | x # xs \<Rightarrow> x # xs)"
  by (simp add: ahead_def split: list.splits)

text \<open>The size of what is ahead: the measure of every loop.  After the end of the stream the
  stream is empty.\<close>

definition left :: "t_lexer \<Rightarrow> nat" where
  "left l = length (v_stream l) + (if v_c l = None then 0 else 1)"

lemma left_f_get: "v_c l \<noteq> None \<Longrightarrow> left (f_get lc l) < left l"
  by (simp add: left_def split: list.splits)

lemma left_f_get_le: "left (f_get lc l) \<le> left l"
  by (simp add: left_def split: list.splits)

section \<open>Lines and indentation\<close>

function skip_space :: "wctype \<Rightarrow> t_lexer \<Rightarrow> t_lexer" where
  "skip_space lc l =
     (if v_c l \<noteq> Some (W CHR 0x0A) \<and> iswspace lc (v_c l) then skip_space lc (f_get lc l) else l)"
  by pat_completeness auto
termination
  by (relation "measure (\<lambda>(lc, l). left l)") (auto simp: iswspace_def left_f_get split: option.splits)

function f_read_indent :: "wctype \<Rightarrow> t_lexer \<Rightarrow> t_lexer" where
  "f_read_indent lc l =
     (if v_c l \<noteq> Some (W CHR 0x0A) \<and> iswspace lc (v_c l)
      then f_read_indent lc (f_get lc (l\<lparr>v_indent := v_indent l @ [the (v_c l)]\<rparr>))
      else l)"
  by pat_completeness auto
termination
  by (relation "measure (\<lambda>(lc, l). left l)")
    (auto simp: iswspace_def left_def split: option.splits list.splits)

function f_skip_line :: "wctype \<Rightarrow> t_lexer \<Rightarrow> t_lexer" where
  "f_skip_line lc l =
     (if v_c l = Some (W CHR 0x0A) then f_get lc l
      else if v_c (f_get lc l) \<noteq> None then f_skip_line lc (f_get lc l)
      else f_get lc l)"
  by pat_completeness auto
termination
  by (relation "measure (\<lambda>(lc, l). length (v_stream l))")
    (auto split: list.splits)

declare skip_space.simps [simp del] f_read_indent.simps [simp del] f_skip_line.simps [simp del]

text \<open>The loop that compares the start of a line with the indentation \<open>s\<close> of the line before; it returns
  the number of characters they share.\<close>

fun match_indent :: "wctype \<Rightarrow> wchar list \<Rightarrow> nat \<Rightarrow> t_lexer \<Rightarrow> (nat \<times> t_lexer) result" where
  "match_indent lc [] i l = Inr (i, l)"
| "match_indent lc (c # s) i l =
     (if v_c l \<noteq> Some (W CHR 0x0A) \<and> iswspace lc (v_c l)
      then if v_c l \<noteq> Some c then lexical_error l else match_indent lc s (Suc i) (f_get lc l)
      else Inr (i, l))"

definition blank :: "wchar option \<Rightarrow> bool" where
  "blank c \<longleftrightarrow> c = Some (W CHR 0x0A) \<or> c = Some (W CHR ''#'')"

lemma left_f_read_indent: "left (f_read_indent lc l) \<le> left l"
proof (induction lc l rule: f_read_indent.induct)
  case (1 lc l)
  then show ?case
    using left_f_get_le[of lc "l\<lparr>v_indent := v_indent l @ [the (v_c l)]\<rparr>"]
    by (subst f_read_indent.simps) (auto simp: left_def)
qed

lemma left_f_skip_line: "left (f_skip_line lc l) \<le> length (v_stream l)"
proof (induction lc l rule: f_skip_line.induct)
  case (1 lc l)
  then show ?case
    by (subst f_skip_line.simps) (auto simp: left_def split: list.splits)
qed

lemma left_match_indent: "match_indent lc s i l = Inr (j, l') \<Longrightarrow> left l' \<le> left l"
proof (induction s arbitrary: i l)
  case (Cons c s)
  then show ?case
    using left_f_get_le[of lc l] by (fastforce simp: lexical_error_def split: if_splits)
qed simp

text \<open>The loop over the lines that hold nothing but blanks and comments.\<close>

function next_line :: "wctype \<Rightarrow> t_lexer \<Rightarrow> t_lexer result" where
  "next_line lc l =
     (let s = v_indent l
      in case match_indent lc s 0 (f_skip_line lc l) of
           Inl e \<Rightarrow> Inl e
         | Inr (i, l1) \<Rightarrow>
             let l2 = f_read_indent lc l1
             in if \<not> blank (v_c l2)
                then Inr (if i < length s then l2\<lparr>v_indent := take i (v_indent l2)\<rparr> else l2)
                else next_line lc (if length s < length (v_indent l2)
                                   then l2\<lparr>v_indent := take (length s) (v_indent l2)\<rparr> else l2))"
  by pat_completeness auto
termination
proof (relation "measure (\<lambda>(lc, l). length (v_stream l))", goal_cases)
  case (2 lc l s r i l1 l2)
  have "left l2 \<le> length (v_stream l)"
    using 2 left_f_skip_line[of lc l] left_match_indent[of lc s 0 "f_skip_line lc l" i l1] left_f_read_indent[of lc l1]
    by (auto intro: le_trans)
  moreover have "v_c l2 \<noteq> None" using 2 by (auto simp: blank_def)
  ultimately show ?case by (auto simp: left_def)
qed simp

declare next_line.simps [simp del]

section \<open>Strings, identifiers and numbers\<close>

text \<open>The character an escape stands for.\<close>

definition escapes :: "(wchar \<times> wchar) list" where
  "escapes =
     [(W CHR 0x22, W CHR 0x22), (W CHR ''0'', 0), (W CHR 0x5C, W CHR 0x5C), (W CHR ''a'', 7), (W CHR ''b'', 8),
      (W CHR ''f'', 12), (W CHR ''n'', 10), (W CHR ''r'', 13), (W CHR ''t'', 9), (W CHR ''v'', 11)]"

function scan_string :: "wctype \<Rightarrow> wchar list \<Rightarrow> t_lexer \<Rightarrow> t_lexer result" where
  "scan_string lc s l =
     (let l1 = f_get lc l
      in case v_c l1 of
           None \<Rightarrow> lexical_error l1
         | Some c \<Rightarrow>
             if c = W CHR 0x22 then Inr (f_get lc (l1\<lparr>v_string := s, v_token := T_STRING\<rparr>))
             else if c = W CHR 0x5C
             then let l2 = f_get lc l1
                  in case v_c l2 of
                       None \<Rightarrow> lexical_error l2
                     | Some e \<Rightarrow>
                         (case map_of escapes e of
                            None \<Rightarrow> lexical_error l2
                          | Some x \<Rightarrow> scan_string lc (s @ [x]) l2)
             else scan_string lc (s @ [c]) l1)"
  by pat_completeness auto
termination
  by (relation "measure (\<lambda>(lc, s, l). length (v_stream l))") (auto split: list.splits)

declare scan_string.simps [simp del]

text \<open>\<open>while (v_c == L'@' || v_c == L'^')\<close>, the run of colons, and the rest of an identifier.\<close>

function scan_self :: "wctype \<Rightarrow> t_lexer \<Rightarrow> t_lexer" where
  "scan_self lc l =
     (if v_c l = Some (W CHR ''@'') \<or> v_c l = Some (W CHR ''^'')
      then scan_self lc (f_get lc (l\<lparr>v_value := v_value l @ [the (v_c l)]\<rparr>))
      else l\<lparr>v_token := T_SELF\<rparr>)"
  by pat_completeness auto
termination
  by (relation "measure (\<lambda>(lc, l). left l)") (auto simp: left_def split: list.splits)

function scan_colons :: "wctype \<Rightarrow> t_lexer \<Rightarrow> t_lexer" where
  "scan_colons lc l =
     (let l1 = f_get lc l
      in if v_c l1 = Some (W CHR '':'') then scan_colons lc (l1\<lparr>v_integer := v_integer l1 + 1\<rparr>)
         else l1\<lparr>v_token := T_COLON\<rparr>)"
  by pat_completeness auto
termination
  by (relation "measure (\<lambda>(lc, l). length (v_stream l))") (auto split: list.splits)

function scan_symbol :: "wctype \<Rightarrow> t_lexer \<Rightarrow> t_lexer" where
  "scan_symbol lc l =
     (if f_is_symbol lc (v_c l) then scan_symbol lc (f_get lc (l\<lparr>v_value := v_value l @ [the (v_c l)]\<rparr>))
      else l\<lparr>v_token := T_SYMBOL\<rparr>)"
  by pat_completeness auto
termination
  by (relation "measure (\<lambda>(lc, l). left l)")
    (auto simp: left_def f_is_symbol_def split: list.splits option.splits)

declare scan_self.simps [simp del] scan_colons.simps [simp del] scan_symbol.simps [simp del]

text \<open>The lambda \<open>match\<close>: \<open>matched\<close> is the part of the keyword read so far, \<open>rest\<close> what must follow.\<close>

fun match_keyword :: "wctype \<Rightarrow> wchar list \<Rightarrow> wchar list \<Rightarrow> t_token \<Rightarrow> t_lexer \<Rightarrow> bool \<times> t_lexer" where
  "match_keyword lc matched [] a_token l =
     (let l1 = f_get lc l
      in if f_is_symbol lc (v_c l1) then (False, l1\<lparr>v_value := v_value l1 @ matched\<rparr>)
         else (True, l1\<lparr>v_token := a_token\<rparr>))"
| "match_keyword lc matched (c # rest) a_token l =
     (let l1 = f_get lc l
      in if v_c l1 = Some c then match_keyword lc (matched @ [c]) rest a_token l1
         else (False, l1\<lparr>v_value := v_value l1 @ matched\<rparr>))"

definition match :: "wctype \<Rightarrow> string \<Rightarrow> nat \<Rightarrow> t_token \<Rightarrow> t_lexer \<Rightarrow> bool \<times> t_lexer" where
  "match lc a_s a_i a_token l = match_keyword lc (wide (take a_i a_s)) (wide (drop a_i a_s)) a_token l"

text \<open>A default branch of the switch: nothing matched, the characters read so far are kept.\<close>

definition keep :: "string \<Rightarrow> t_lexer \<Rightarrow> bool \<times> t_lexer" where
  "keep s l = (False, l\<lparr>v_value := v_value l @ wide s\<rparr>)"

definition scan_keyword :: "wctype \<Rightarrow> t_lexer \<Rightarrow> bool \<times> t_lexer" where
  "scan_keyword lc l =
     (let c = v_c l
      in if c = Some (W CHR ''b'') then match lc ''break'' 1 T_BREAK l
         else if c = Some (W CHR ''c'') then
           let l1 = f_get lc l
           in if v_c l1 = Some (W CHR ''a'') then match lc ''catch'' 2 T_CATCH l1
              else if v_c l1 = Some (W CHR ''o'') then match lc ''continue'' 2 T_CONTINUE l1
              else keep ''c'' l1
         else if c = Some (W CHR ''e'') then match lc ''else'' 1 T_ELSE l
         else if c = Some (W CHR ''f'') then
           let l1 = f_get lc l
           in if v_c l1 = Some (W CHR ''a'') then match lc ''false'' 2 T_FALSE l1
              else if v_c l1 = Some (W CHR ''i'') then match lc ''finally'' 2 T_FINALLY l1
              else if v_c l1 = Some (W CHR ''o'') then match lc ''for'' 2 T_FOR l1
              else keep ''f'' l1
         else if c = Some (W CHR ''i'') then match lc ''if'' 1 T_IF l
         else if c = Some (W CHR ''n'') then match lc ''null'' 1 T_NULL l
         else if c = Some (W CHR ''r'') then match lc ''return'' 1 T_RETURN l
         else if c = Some (W CHR ''t'') then
           let l1 = f_get lc l
           in if v_c l1 = Some (W CHR ''h'') then match lc ''throw'' 2 T_THROW l1
              else if v_c l1 = Some (W CHR ''r'') then
                let l2 = f_get lc l1
                in if v_c l2 = Some (W CHR ''u'') then match lc ''true'' 3 T_TRUE l2
                   else if v_c l2 = Some (W CHR ''y'') then match lc ''try'' 3 T_TRY l2
                   else keep ''tr'' l2
              else keep ''t'' l1
         else if c = Some (W CHR ''w'') then match lc ''while'' 1 T_WHILE l
         else (False, l))"

text \<open>Hexadecimal and octal literals.\<close>

definition hex_digit :: "wchar \<Rightarrow> i64" where
  "hex_digit c = (let i = c - 48 in if i < 10 then of_nat i else of_nat (i - 7) AND 0xF)"

function scan_hex :: "wctype \<Rightarrow> t_lexer \<Rightarrow> t_lexer" where
  "scan_hex lc l =
     (let l1 = f_get lc (l\<lparr>v_integer := v_integer l * 16 + hex_digit (the (v_c l))\<rparr>)
      in if iswxdigit (v_c l1) then scan_hex lc l1 else l1)"
  by pat_completeness auto
termination
  by (relation "measure (\<lambda>(lc, l). length (v_stream l))") (auto simp: iswxdigit_def split: list.splits option.splits)

function scan_octal :: "wctype \<Rightarrow> t_lexer \<Rightarrow> t_lexer result" where
  "scan_octal lc l =
     (if iswdigit (v_c l)
      then if 56 \<le> the (v_c l) then lexical_error l
           else scan_octal lc (f_get lc (l\<lparr>v_integer := v_integer l * 8 + of_nat (the (v_c l) - 48)\<rparr>))
      else Inr l)"
  by pat_completeness auto
termination
  by (relation "measure (\<lambda>(lc, l). left l)")
    (auto simp: left_def iswdigit_def split: list.splits option.splits)

declare scan_hex.simps [simp del] scan_octal.simps [simp del]

text \<open>\<open>char cs[32]\<close> and the lambda \<open>push\<close>.\<close>

definition push :: "t_lexer \<Rightarrow> wchar list \<Rightarrow> wchar list result" where
  "push l cs = (if 32 \<le> length cs then lexical_error l else Inr (cs @ [the (v_c l)]))"

function scan_digits :: "wctype \<Rightarrow> wchar list \<Rightarrow> t_lexer \<Rightarrow> (wchar list \<times> t_lexer) result" where
  "scan_digits lc cs l =
     (if iswdigit (v_c l)
      then case push l cs of Inl e \<Rightarrow> Inl e | Inr cs' \<Rightarrow> scan_digits lc cs' (f_get lc l)
      else Inr (cs, l))"
  by pat_completeness auto
termination
  by (relation "measure (\<lambda>(lc, cs, l). left l)")
    (auto simp: left_def iswdigit_def split: list.splits option.splits)

declare scan_digits.simps [simp del]

text \<open>\<open>do push(); while (std::iswdigit(get()))\<close>.\<close>

definition push_digits :: "wctype \<Rightarrow> wchar list \<Rightarrow> t_lexer \<Rightarrow> (wchar list \<times> t_lexer) result" where
  "push_digits lc cs l = bind_result (push l cs) (\<lambda>cs'. scan_digits lc cs' (f_get lc l))"

text \<open>\<open>std::from_chars\<close> on the buffer: the decimal integer, out of range from \<open>2\<^sup>6\<^sup>3\<close>; the correctly
  rounded double of a decimal fraction, out of range when it overflows or a nonzero value
  underflows to zero, and invalid when there is no digit.\<close>

definition decimal :: "wchar list \<Rightarrow> nat" where
  "decimal cs = foldl (\<lambda>n c. n * 10 + (c - 48)) 0 cs"

definition from_chars_integer :: "wchar list \<Rightarrow> i64 option" where
  "from_chars_integer cs = (if cs = [] \<or> 2 ^ 63 \<le> decimal cs then None else Some (of_nat (decimal cs)))"

definition is_digit :: "wchar \<Rightarrow> bool" where
  "is_digit c \<longleftrightarrow> iswdigit (Some c)"

definition exponent :: "wchar list \<Rightarrow> int" where
  "exponent cs =
     (case cs of
        [] \<Rightarrow> 0
      | e # rest \<Rightarrow>
          (case rest of
             [] \<Rightarrow> 0
           | c # ds \<Rightarrow>
               if c = W CHR ''-'' then - int (decimal ds)
               else if c = W CHR ''+'' then int (decimal ds)
               else int (decimal rest)))"

definition decimal_fraction :: "wchar list \<Rightarrow> wchar list \<Rightarrow> int \<Rightarrow> rat" where
  "decimal_fraction whole fraction e =
     (let k = e - int (length fraction); m = of_nat (decimal (whole @ fraction))
      in if 0 \<le> k then m * 10 ^ nat k else m / 10 ^ nat (- k))"

definition from_chars_double :: "wchar list \<Rightarrow> float64 option" where
  "from_chars_double cs =
     (let whole = takeWhile is_digit cs;
          rest = tl (dropWhile is_digit cs);
          fraction = takeWhile is_digit rest;
          x = decimal_fraction whole fraction (exponent (dropWhile is_digit rest));
          v = f64_of_rat x
      in if whole = [] \<and> fraction = [] \<or> v = F_inf False \<or> x \<noteq> 0 \<and> v = F_fin False 0 then None else Some v)"

definition scan_exponent :: "wctype \<Rightarrow> wchar list \<Rightarrow> t_lexer \<Rightarrow> (wchar list \<times> t_lexer) result" where
  "scan_exponent lc cs l =
     (if v_c l = Some (W CHR ''E'') \<or> v_c l = Some (W CHR ''e'')
      then bind_result (push l cs) (\<lambda>cs1.
        let l1 = f_get lc l
        in bind_result
             (if v_c l1 = Some (W CHR ''+'') \<or> v_c l1 = Some (W CHR ''-'')
              then bind_result (push l1 cs1) (\<lambda>cs2. Inr (cs2, f_get lc l1))
              else Inr (cs1, l1))
             (\<lambda>(cs3, l3). if \<not> iswdigit (v_c l3) then lexical_error l3 else push_digits lc cs3 l3))
      else Inr (cs, l))"

definition scan_decimal :: "wctype \<Rightarrow> t_lexer \<Rightarrow> t_lexer result" where
  "scan_decimal lc l =
     bind_result (scan_digits lc [] l) (\<lambda>(cs, l1).
       if v_c l1 = Some (W CHR ''.'')
       then bind_result (push_digits lc cs (l1\<lparr>v_token := T_FLOAT\<rparr>)) (\<lambda>(cs2, l2).
              bind_result (scan_exponent lc cs2 l2) (\<lambda>(cs3, l3).
                case from_chars_double cs3 of None \<Rightarrow> lexical_error l3 | Some x \<Rightarrow> Inr (l3\<lparr>v_float := x\<rparr>)))
       else case from_chars_integer cs of
              None \<Rightarrow> lexical_error l1
            | Some n \<Rightarrow> Inr (l1\<lparr>v_token := T_INTEGER, v_integer := n\<rparr>))"

text \<open>The branch for a digit.  The mask clears the sign bit.\<close>

definition finish_integer :: "t_lexer \<Rightarrow> t_lexer" where
  "finish_integer l = l\<lparr>v_integer := v_integer l AND mask 63, v_token := T_INTEGER\<rparr>"

definition scan_number :: "wctype \<Rightarrow> t_lexer \<Rightarrow> t_lexer result" where
  "scan_number lc l =
     (if v_c l = Some (W CHR ''0'')
      then let l1 = f_get lc l
           in if v_c l1 = Some (W CHR ''.'') then scan_decimal lc l1
              else let l2 = l1\<lparr>v_integer := 0\<rparr>
                   in if v_c l2 = Some (W CHR ''X'') \<or> v_c l2 = Some (W CHR ''x'')
                      then let l3 = f_get lc l2
                           in if \<not> iswxdigit (v_c l3) then lexical_error l3
                              else Inr (finish_integer (scan_hex lc l3))
                      else bind_result (scan_octal lc l2) (\<lambda>l3. Inr (finish_integer l3))
      else scan_decimal lc l)"

section \<open>The scanner\<close>

text \<open>\<open>next\<close> and \<open>set\<close>, and the tokens of one character that nothing can extend.\<close>

definition tok_set :: "t_token \<Rightarrow> t_lexer \<Rightarrow> t_lexer result" where
  "tok_set a_token l = Inr (l\<lparr>v_token := a_token\<rparr>)"

definition tok_next :: "wctype \<Rightarrow> t_token \<Rightarrow> t_lexer \<Rightarrow> t_lexer result" where
  "tok_next lc a_token l = Inr (f_get lc (l\<lparr>v_token := a_token\<rparr>))"

definition punctuation :: "(wchar \<times> t_token) list" where
  "punctuation =
     [(W CHR ''%'', T_PERCENT), (W CHR 0x27, T_APOSTROPHE), (W CHR ''('', T_LEFT_PARENTHESIS),
      (W CHR '')'', T_RIGHT_PARENTHESIS), (W CHR ''*'', T_ASTERISK), (W CHR ''+'', T_PLUS), (W CHR '','', T_COMMA),
      (W CHR ''-'', T_HYPHEN), (W CHR ''.'', T_DOT), (W CHR ''/'', T_SLASH), (W CHR '';'', T_SEMICOLON),
      (W CHR ''?'', T_QUESTION), (W CHR ''@'', T_ATMARK), (W CHR ''['', T_LEFT_BRACKET),
      (W CHR '']'', T_RIGHT_BRACKET), (W CHR ''^'', T_HAT), (W CHR ''{'', T_LEFT_BRACE),
      (W CHR ''}'', T_RIGHT_BRACE), (W CHR ''~'', T_TILDE)]"

text \<open>The tokens of one to three characters: \<open>!\<close>, \<open>!=\<close>, \<open>!==\<close>, \<open>&\<close>, \<open>&&\<close>, \<open><\<close>, \<open><<\<close>, \<open><=\<close> and so on.\<close>

definition scan_operator :: "wctype \<Rightarrow> wchar \<Rightarrow> t_lexer \<Rightarrow> t_lexer result" where
  "scan_operator lc c l =
     (let l1 = f_get lc l; l2 = f_get lc l1
      in if c = W CHR ''!'' then
           (if v_c l1 \<noteq> Some (W CHR ''='') then tok_set T_EXCLAMATION l1
            else if v_c l2 \<noteq> Some (W CHR ''='') then tok_set T_NOT_EQUALS l2
            else tok_next lc T_NOT_IDENTICAL l2)
         else if c = W CHR ''&'' then
           (if v_c l1 = Some (W CHR ''&'') then tok_next lc T_AND_ALSO l1 else tok_set T_AMPERSAND l1)
         else if c = W CHR ''<'' then
           (if v_c l1 = Some (W CHR ''<'') then tok_next lc T_LEFT_SHIFT l1
            else if v_c l1 = Some (W CHR ''='') then tok_next lc T_LESS_EQUAL l1
            else tok_set T_LESS l1)
         else if c = W CHR ''='' then
           (if v_c l1 \<noteq> Some (W CHR ''='') then tok_set T_EQUAL l1
            else if v_c l2 \<noteq> Some (W CHR ''='') then tok_set T_EQUALS l2
            else tok_next lc T_IDENTICAL l2)
         else if c = W CHR ''>'' then
           (if v_c l1 = Some (W CHR ''='') then tok_next lc T_GREATER_EQUAL l1
            else if v_c l1 = Some (W CHR ''>'') then tok_next lc T_RIGHT_SHIFT l1
            else tok_set T_GREATER l1)
         else
           (if v_c l1 = Some (W CHR ''|'') then tok_next lc T_OR_ELSE l1 else tok_set T_BAR l1))"

definition operator_starts :: "wchar list" where
  "operator_starts = [W CHR ''!'', W CHR ''&'', W CHR ''<'', W CHR ''='', W CHR ''>'', W CHR ''|'']"

text \<open>The switch on the current character.\<close>

definition scan_token :: "wctype \<Rightarrow> t_lexer \<Rightarrow> t_lexer result" where
  "scan_token lc l =
     (case v_c l of
        None \<Rightarrow> tok_set T_EOF l
      | Some c \<Rightarrow>
          if c \<in> set operator_starts then scan_operator lc c l
          else if c = W CHR 0x22 then scan_string lc [] l
          else if c = W CHR ''$'' then Inr (scan_self lc ((f_get lc l)\<lparr>v_value := []\<rparr>))
          else if c = W CHR '':'' then Inr (scan_colons lc (l\<lparr>v_integer := 1\<rparr>))
          else (case map_of punctuation c of
                  Some t \<Rightarrow> tok_next lc t l
                | None \<Rightarrow>
                    if iswalpha lc (v_c l) \<or> c = W CHR ''_''
                    then let (found, l1) = scan_keyword lc (l\<lparr>v_value := []\<rparr>)
                         in Inr (if found then l1 else scan_symbol lc l1)
                    else if iswdigit (v_c l) then scan_number lc l
                    else lexical_error l))"

definition t_lexer_f_next :: "wctype \<Rightarrow> t_lexer \<Rightarrow> t_lexer result" where
  "t_lexer_f_next lc l0 =
     (let l = skip_space lc l0;
          newline = blank (v_c l)
      in bind_result (if newline then next_line lc (l\<lparr>v_newline := True\<rparr>) else Inr (l\<lparr>v_newline := False\<rparr>))
           (\<lambda>l1. scan_token lc (l1\<lparr>v_at := (v_position l1, v_line l1, v_column l1)\<rparr>)))"

text \<open>The constructor: the first character, the indentation of the first line that holds a token, and
  that token.\<close>

function first_line :: "wctype \<Rightarrow> t_lexer \<Rightarrow> t_lexer" where
  "first_line lc l =
     (let l1 = f_read_indent lc l
      in if blank (v_c l1) then first_line lc (f_skip_line lc (l1\<lparr>v_indent := []\<rparr>)) else l1)"
  by pat_completeness auto
termination
proof (relation "measure (\<lambda>(lc, l). left l)", goal_cases)
  case (2 lc l l1)
  have "left (f_skip_line lc (l1\<lparr>v_indent := []\<rparr>)) \<le> length (v_stream l1)"
    using left_f_skip_line[of lc "l1\<lparr>v_indent := []\<rparr>"] by simp
  moreover have "Suc (length (v_stream l1)) \<le> left l"
    using left_f_read_indent[of lc l] 2 by (auto simp: left_def blank_def split: if_splits)
  ultimately show ?case by simp
qed simp

definition t_lexer_new :: "wctype \<Rightarrow> wchar list \<Rightarrow> t_lexer result" where
  "t_lexer_new lc input =
     t_lexer_f_next lc (first_line lc (getwc lc
       \<lparr>v_stream = input, v_tell = 0, v_position = 0, v_line = 1, v_column = 1, v_c = None, v_at = (0, 0, 0),
        v_newline = False, v_indent = [], v_token = T_EOF, v_value = [], v_string = [], v_integer = 0,
        v_float = F_nan\<rparr>))"


section \<open>Identifiers\<close>

definition is_sym :: "wctype \<Rightarrow> wchar \<Rightarrow> bool" where
  "is_sym lc c \<longleftrightarrow> f_is_symbol lc (Some c)"

text \<open>What the C standard says of the classes: letters and digits are alphanumeric, the letters of the
  keywords are letters, nothing alphanumeric is white space, and the punctuation the scanner switches
  on is not alphanumeric.\<close>

definition wctype_ok :: "wctype \<Rightarrow> bool" where
  "wctype_ok lc \<longleftrightarrow>
     (\<forall>c. w_alpha lc c \<longrightarrow> w_alnum lc c) \<and>
     (\<forall>c \<in> set (wide ''abcdefghijklmnopqrstuvwxyz''). w_alpha lc c) \<and>
     (\<forall>c. w_alnum lc c \<longrightarrow> \<not> w_space lc c) \<and>
     (\<forall>c \<in> set (wide ''!#$%&()*+,-./:;<=>?@[]^{|}~'') \<union> {10, 34, 39}. \<not> w_alnum lc c)"

definition keyword_table :: "(wchar list \<times> t_token) list" where
  "keyword_table =
     [(wide ''break'', T_BREAK), (wide ''catch'', T_CATCH), (wide ''continue'', T_CONTINUE), (wide ''else'', T_ELSE),
      (wide ''false'', T_FALSE), (wide ''finally'', T_FINALLY), (wide ''for'', T_FOR), (wide ''if'', T_IF),
      (wide ''null'', T_NULL), (wide ''return'', T_RETURN), (wide ''throw'', T_THROW), (wide ''true'', T_TRUE),
      (wide ''try'', T_TRY), (wide ''while'', T_WHILE)]"

lemma v_c_ahead: "v_c l = (case ahead l of [] \<Rightarrow> None | c # _ \<Rightarrow> Some c)"
  by (simp add: ahead_def split: option.splits)

lemma ahead_update [simp]:
  "ahead (l\<lparr>v_value := x\<rparr>) = ahead l" "ahead (l\<lparr>v_token := t\<rparr>) = ahead l" "ahead (l\<lparr>v_integer := i\<rparr>) = ahead l"
  "ahead (l\<lparr>v_indent := s\<rparr>) = ahead l" "ahead (l\<lparr>v_newline := b\<rparr>) = ahead l" "ahead (l\<lparr>v_string := s\<rparr>) = ahead l"
  "ahead (l\<lparr>v_at := a\<rparr>) = ahead l" "ahead (l\<lparr>v_float := f\<rparr>) = ahead l"
  by (simp_all add: ahead_def split: option.splits)

lemma ahead_get: "ahead (f_get lc l) = v_stream l"
  by (simp split: list.splits)

lemma f_is_symbol_ahead: "f_is_symbol lc (v_c l) \<longleftrightarrow> (case ahead l of [] \<Rightarrow> False | c # _ \<Rightarrow> is_sym lc c)"
  by (auto simp: v_c_ahead is_sym_def f_is_symbol_def split: list.splits)

lemma ahead_Cons_stream: "ahead l = c # xs \<Longrightarrow> v_stream l = xs"
  by (auto simp: ahead_def split: option.splits)

lemma scan_symbol_spec:
  "ahead (scan_symbol lc l) = dropWhile (is_sym lc) (ahead l) \<and> v_token (scan_symbol lc l) = T_SYMBOL \<and>
   v_value (scan_symbol lc l) = v_value l @ takeWhile (is_sym lc) (ahead l)"
proof (induction lc l rule: scan_symbol.induct)
  case (1 lc l)
  show ?case
  proof (cases "ahead l")
    case Nil
    then show ?thesis by (subst (1 2 3) scan_symbol.simps) (simp add: f_is_symbol_ahead)
  next
    case (Cons c xs)
    then have c: "v_c l = Some c" "v_stream l = xs" by (auto simp: v_c_ahead ahead_Cons_stream)
    show ?thesis
    proof (cases "is_sym lc c")
      case True
      then have "scan_symbol lc l = scan_symbol lc (f_get lc (l\<lparr>v_value := v_value l @ [the (v_c l)]\<rparr>))"
        using Cons by (subst scan_symbol.simps) (simp add: f_is_symbol_ahead)
      then show ?thesis
        using 1 True Cons c by (simp add: is_sym_def[symmetric] ahead_get del: ahead_f_get)
    next
      case False
      then show ?thesis
        using Cons by (subst (1 2 3) scan_symbol.simps) (simp add: f_is_symbol_ahead)
    qed
  qed
qed

text \<open>A keyword attempt followed, when it failed, by the rest of the identifier.\<close>

definition complete :: "wctype \<Rightarrow> bool \<times> t_lexer \<Rightarrow> t_lexer" where
  "complete lc r = (case r of (found, l) \<Rightarrow> if found then l else scan_symbol lc l)"

definition reads_word :: "wctype \<Rightarrow> wchar list \<Rightarrow> wchar list \<Rightarrow> t_token \<Rightarrow> wchar list \<Rightarrow> t_lexer \<Rightarrow> bool" where
  "reads_word lc xs rest t prefix l \<longleftrightarrow>
     ahead l = dropWhile (is_sym lc) xs \<and>
     (if takeWhile (is_sym lc) xs = rest then v_token l = t
      else v_token l = T_SYMBOL \<and> v_value l = prefix @ takeWhile (is_sym lc) xs)"

lemma match_keyword_spec:
  "\<forall>c \<in> set rest. is_sym lc c \<Longrightarrow>
   reads_word lc (v_stream l) rest t (v_value l @ m) (complete lc (match_keyword lc m rest t l))"
proof (induction rest arbitrary: m l)
  case Nil
  show ?case
    using scan_symbol_spec[of lc "(f_get lc l)\<lparr>v_value := v_value l @ m\<rparr>"]
    by (cases "v_stream l") (auto simp: reads_word_def complete_def f_is_symbol_ahead)
next
  case (Cons c rest)
  show ?case
  proof (cases "v_c (f_get lc l) = Some c")
    case True
    then obtain xs where xs: "v_stream l = c # xs" by (auto split: list.splits)
    show ?thesis
      using Cons.IH[of "f_get lc l" "m @ [c]"] Cons.prems xs True by (simp add: reads_word_def)
  next
    case False
    then show ?thesis
      using scan_symbol_spec[of lc "(f_get lc l)\<lparr>v_value := v_value l @ m\<rparr>"]
      by (auto simp: reads_word_def complete_def split: list.splits)
  qed
qed

lemma match_spec:
  assumes "\<forall>c \<in> set (wide (drop n s)). is_sym lc c"
  shows "reads_word lc (v_stream l) (wide (drop n s)) t (v_value l @ wide (take n s)) (complete lc (match lc s n t l))"
  unfolding match_def using assms by (rule match_keyword_spec)

lemma keep_spec:
  "ahead (complete lc (keep s l)) = dropWhile (is_sym lc) (ahead l)"
  "v_token (complete lc (keep s l)) = T_SYMBOL"
  "v_value (complete lc (keep s l)) = v_value l @ wide s @ takeWhile (is_sym lc) (ahead l)"
  using scan_symbol_spec[of lc "l\<lparr>v_value := v_value l @ wide s\<rparr>"]
  by (auto simp: keep_def complete_def)

lemma sym_letter: "wctype_ok lc \<Longrightarrow> c \<in> set (wide ''abcdefghijklmnopqrstuvwxyz'') \<Longrightarrow> is_sym lc c"
  by (auto simp: wctype_ok_def is_sym_def f_is_symbol_def)

definition identifier_ok :: "wctype \<Rightarrow> wchar list \<Rightarrow> t_lexer \<Rightarrow> bool" where
  "identifier_ok lc xs l \<longleftrightarrow>
     ahead l = dropWhile (is_sym lc) xs \<and>
     (case map_of keyword_table (takeWhile (is_sym lc) xs) of
        Some t \<Rightarrow> v_token l = t
      | None \<Rightarrow> v_token l = T_SYMBOL \<and> v_value l = takeWhile (is_sym lc) xs)"

lemma reads_word_identifier:
  assumes "reads_word lc xs rest t prefix l" "\<forall>c \<in> set prefix. is_sym lc c"
    and "map_of keyword_table (prefix @ rest) = Some t"
    and "\<And>w. w \<noteq> rest \<Longrightarrow> map_of keyword_table (prefix @ w) = None"
  shows "identifier_ok lc (prefix @ xs) l"
proof -
  have "takeWhile (is_sym lc) (prefix @ xs) = prefix @ takeWhile (is_sym lc) xs"
    "dropWhile (is_sym lc) (prefix @ xs) = dropWhile (is_sym lc) xs"
    using assms(2) by (simp_all add: takeWhile_append2 dropWhile_append2)
  then show ?thesis
    using assms by (cases "takeWhile (is_sym lc) xs = rest") (auto simp: reads_word_def identifier_ok_def)
qed

lemma match_identifier:
  assumes "\<forall>c \<in> set (wide s). is_sym lc c" "v_value l = []"
    and "map_of keyword_table (wide s) = Some t"
    and "\<And>w. w \<noteq> wide (drop n s) \<Longrightarrow> map_of keyword_table (wide (take n s) @ w) = None"
  shows "identifier_ok lc (wide (take n s) @ v_stream l) (complete lc (match lc s n t l))"
proof -
  have split: "wide s = wide (take n s) @ wide (drop n s)" by (simp add: wide_def flip: map_append)
  show ?thesis
    using match_spec[of n s lc l t] assms
    by (intro reads_word_identifier[where rest = "wide (drop n s)" and t = t]) (auto simp: split)
qed


lemma keyword_syms: "wctype_ok lc \<Longrightarrow> map_of keyword_table w = Some t \<Longrightarrow> \<forall>c \<in> set w. is_sym lc c"
  by (drule map_of_SomeD) (auto simp: keyword_table_def wide_def intro!: sym_letter)

lemma match_leaf:
  assumes "wctype_ok lc" "v_value l = []" "ahead l0 = wide (take n s) @ v_stream l"
    and "map_of keyword_table (wide s) = Some t"
    and "\<And>w. w \<noteq> wide (drop n s) \<Longrightarrow> map_of keyword_table (wide (take n s) @ w) = None"
  shows "identifier_ok lc (ahead l0) (complete lc (match lc s n t l))"
  unfolding assms(3) by (rule match_identifier) (use assms keyword_syms[OF assms(1,4)] in auto)

lemma keep_leaf:
  assumes "wctype_ok lc" "v_value l = []" "ahead l0 = wide s @ ahead l" "\<forall>c \<in> set (wide s). is_sym lc c"
    and "\<And>w. w = takeWhile (is_sym lc) (ahead l) \<Longrightarrow> map_of keyword_table (wide s @ w) = None"
  shows "identifier_ok lc (ahead l0) (complete lc (keep s l))"
proof -
  have "takeWhile (is_sym lc) (ahead l0) = wide s @ takeWhile (is_sym lc) (ahead l)"
    "dropWhile (is_sym lc) (ahead l0) = dropWhile (is_sym lc) (ahead l)"
    using assms(3,4) by (simp_all add: takeWhile_append2 dropWhile_append2)
  then show ?thesis
    using keep_spec[of lc s l] assms(2,5) by (simp add: identifier_ok_def)
qed

lemma plain_leaf:
  assumes "v_value l = []" "map_of keyword_table (takeWhile (is_sym lc) (ahead l)) = None"
  shows "identifier_ok lc (ahead l) (complete lc (False, l))"
  using scan_symbol_spec[of lc l] assms by (simp add: identifier_ok_def complete_def)

lemma ahead_two: "ahead l = c # xs \<Longrightarrow> v_c (f_get lc l) = Some d \<Longrightarrow> \<exists>ys. xs = d # ys \<and> v_stream (f_get lc l) = ys"
  by (auto simp: ahead_def split: option.splits list.splits)

lemma scan_keyword_c:
  assumes "wctype_ok lc" "v_value l = []" "ahead l = c # xs" "c = W CHR ''c''"
  shows "identifier_ok lc (ahead l) (complete lc (scan_keyword lc l))"
proof -
  have s: "v_stream l = xs" "v_c l = Some c" using assms(3) by (auto simp: ahead_def split: option.splits)
  consider ys where "xs = W CHR ''a'' # ys" | ys where "xs = W CHR ''o'' # ys"
    | "\<nexists>ys. xs = W CHR ''a'' # ys" "\<nexists>ys. xs = W CHR ''o'' # ys" by blast
  then show ?thesis
  proof cases
    case 1
    have "scan_keyword lc l = match lc ''catch'' 2 T_CATCH (f_get lc l)"
      using 1 s assms(4) by (simp add: scan_keyword_def)
    moreover have "identifier_ok lc (ahead l) (complete lc (match lc ''catch'' 2 T_CATCH (f_get lc l)))"
      by (rule match_leaf) (use 1 s assms in \<open>auto simp: keyword_table_def wide_def\<close>)
    ultimately show ?thesis by simp
  next
    case 2
    have "scan_keyword lc l = match lc ''continue'' 2 T_CONTINUE (f_get lc l)"
      using 2 s assms(4) by (simp add: scan_keyword_def)
    moreover have "identifier_ok lc (ahead l) (complete lc (match lc ''continue'' 2 T_CONTINUE (f_get lc l)))"
      by (rule match_leaf) (use 2 s assms in \<open>auto simp: keyword_table_def wide_def\<close>)
    ultimately show ?thesis by simp
  next
    case 3
    have "scan_keyword lc l = keep ''c'' (f_get lc l)"
      using 3 s assms(4) by (auto simp: scan_keyword_def split: list.splits)
    moreover have "identifier_ok lc (ahead l) (complete lc (keep ''c'' (f_get lc l)))"
    proof (rule keep_leaf)
      show "map_of keyword_table (wide ''c'' @ w) = None" if "w = takeWhile (is_sym lc) (ahead (f_get lc l))" for w
        using that 3 s by (cases xs) (auto simp: keyword_table_def wide_def)
    qed (use 3 s assms in \<open>auto simp: wide_def ahead_get intro: sym_letter simp del: ahead_f_get\<close>)
    ultimately show ?thesis by simp
  qed
qed

lemma scan_keyword_f:
  assumes "wctype_ok lc" "v_value l = []" "ahead l = c # xs" "c = W CHR ''f''"
  shows "identifier_ok lc (ahead l) (complete lc (scan_keyword lc l))"
proof -
  have s: "v_stream l = xs" "v_c l = Some c" using assms(3) by (auto simp: ahead_def split: option.splits)
  consider ys where "xs = W CHR ''a'' # ys" | ys where "xs = W CHR ''i'' # ys" | ys where "xs = W CHR ''o'' # ys"
    | "\<nexists>ys. xs = W CHR ''a'' # ys" "\<nexists>ys. xs = W CHR ''i'' # ys" "\<nexists>ys. xs = W CHR ''o'' # ys" by blast
  then show ?thesis
  proof cases
    case 1
    have "scan_keyword lc l = match lc ''false'' 2 T_FALSE (f_get lc l)"
      using 1 s assms(4) by (simp add: scan_keyword_def)
    moreover have "identifier_ok lc (ahead l) (complete lc (match lc ''false'' 2 T_FALSE (f_get lc l)))"
      by (rule match_leaf) (use 1 s assms in \<open>auto simp: keyword_table_def wide_def\<close>)
    ultimately show ?thesis by simp
  next
    case 2
    have "scan_keyword lc l = match lc ''finally'' 2 T_FINALLY (f_get lc l)"
      using 2 s assms(4) by (simp add: scan_keyword_def)
    moreover have "identifier_ok lc (ahead l) (complete lc (match lc ''finally'' 2 T_FINALLY (f_get lc l)))"
      by (rule match_leaf) (use 2 s assms in \<open>auto simp: keyword_table_def wide_def\<close>)
    ultimately show ?thesis by simp
  next
    case 3
    have "scan_keyword lc l = match lc ''for'' 2 T_FOR (f_get lc l)"
      using 3 s assms(4) by (simp add: scan_keyword_def)
    moreover have "identifier_ok lc (ahead l) (complete lc (match lc ''for'' 2 T_FOR (f_get lc l)))"
      by (rule match_leaf) (use 3 s assms in \<open>auto simp: keyword_table_def wide_def\<close>)
    ultimately show ?thesis by simp
  next
    case 4
    have "scan_keyword lc l = keep ''f'' (f_get lc l)"
      using 4 s assms(4) by (auto simp: scan_keyword_def split: list.splits)
    moreover have "identifier_ok lc (ahead l) (complete lc (keep ''f'' (f_get lc l)))"
    proof (rule keep_leaf)
      show "map_of keyword_table (wide ''f'' @ w) = None" if "w = takeWhile (is_sym lc) (ahead (f_get lc l))" for w
        using that 4 s  by (auto simp: keyword_table_def wide_def split: list.splits)
    qed (use 4 s assms in \<open>auto simp: wide_def ahead_get intro: sym_letter simp del: ahead_f_get\<close>)
    ultimately show ?thesis by simp
  qed
qed

lemma scan_keyword_t:
  assumes "wctype_ok lc" "v_value l = []" "ahead l = c # xs" "c = W CHR ''t''"
  shows "identifier_ok lc (ahead l) (complete lc (scan_keyword lc l))"
proof -
  have s: "v_stream l = xs" "v_c l = Some c" using assms(3) by (auto simp: ahead_def split: option.splits)
  consider ys where "xs = W CHR ''h'' # ys" | ys where "xs = W CHR ''r'' # W CHR ''u'' # ys"
    | ys where "xs = W CHR ''r'' # W CHR ''y'' # ys"
    | ys where "xs = W CHR ''r'' # ys" "\<nexists>zs. ys = W CHR ''u'' # zs" "\<nexists>zs. ys = W CHR ''y'' # zs"
    | "\<nexists>ys. xs = W CHR ''h'' # ys" "\<nexists>ys. xs = W CHR ''r'' # ys" by blast
  then show ?thesis
  proof cases
    case 1
    have "scan_keyword lc l = match lc ''throw'' 2 T_THROW (f_get lc l)"
      using 1 s assms(4) by (simp add: scan_keyword_def)
    moreover have "identifier_ok lc (ahead l) (complete lc (match lc ''throw'' 2 T_THROW (f_get lc l)))"
      by (rule match_leaf) (use 1 s assms in \<open>auto simp: keyword_table_def wide_def\<close>)
    ultimately show ?thesis by simp
  next
    case 2
    have "scan_keyword lc l = match lc ''true'' 3 T_TRUE (f_get lc (f_get lc l))"
      using 2 s assms(4) by (simp add: scan_keyword_def)
    moreover have "identifier_ok lc (ahead l) (complete lc (match lc ''true'' 3 T_TRUE (f_get lc (f_get lc l))))"
      by (rule match_leaf) (use 2 s assms in \<open>auto simp: keyword_table_def wide_def\<close>)
    ultimately show ?thesis by simp
  next
    case 3
    have "scan_keyword lc l = match lc ''try'' 3 T_TRY (f_get lc (f_get lc l))"
      using 3 s assms(4) by (simp add: scan_keyword_def)
    moreover have "identifier_ok lc (ahead l) (complete lc (match lc ''try'' 3 T_TRY (f_get lc (f_get lc l))))"
      by (rule match_leaf) (use 3 s assms in \<open>auto simp: keyword_table_def wide_def\<close>)
    ultimately show ?thesis by simp
  next
    case 4
    have "scan_keyword lc l = keep ''tr'' (f_get lc (f_get lc l))"
      using 4 s assms(4) by (auto simp: scan_keyword_def split: list.splits)
    moreover have "identifier_ok lc (ahead l) (complete lc (keep ''tr'' (f_get lc (f_get lc l))))"
    proof (rule keep_leaf)
      show "map_of keyword_table (wide ''tr'' @ w) = None" if "w = takeWhile (is_sym lc) (ahead (f_get lc (f_get lc l)))" for w
        using that 4 s  by (auto simp: keyword_table_def wide_def split: list.splits)
    qed (use 4 s assms in \<open>auto simp: wide_def ahead_get intro: sym_letter simp del: ahead_f_get\<close>)
    ultimately show ?thesis by simp
  next
    case 5
    have "scan_keyword lc l = keep ''t'' (f_get lc l)"
      using 5 s assms(4) by (auto simp: scan_keyword_def split: list.splits)
    moreover have "identifier_ok lc (ahead l) (complete lc (keep ''t'' (f_get lc l)))"
    proof (rule keep_leaf)
      show "map_of keyword_table (wide ''t'' @ w) = None" if "w = takeWhile (is_sym lc) (ahead (f_get lc l))" for w
        using that 5 s  by (auto simp: keyword_table_def wide_def split: list.splits)
    qed (use 5 s assms in \<open>auto simp: wide_def ahead_get intro: sym_letter simp del: ahead_f_get\<close>)
    ultimately show ?thesis by simp
  qed
qed

text \<open>The first letters with one keyword each.\<close>

definition simple_keywords :: "(wchar \<times> string \<times> t_token) set" where
  "simple_keywords =
     {(W CHR ''b'', ''break'', T_BREAK), (W CHR ''e'', ''else'', T_ELSE), (W CHR ''i'', ''if'', T_IF),
      (W CHR ''n'', ''null'', T_NULL), (W CHR ''r'', ''return'', T_RETURN), (W CHR ''w'', ''while'', T_WHILE)}"

lemma scan_keyword_simple:
  assumes "wctype_ok lc" "v_value l = []" "ahead l = c # xs"
    and simple: "(c, s, t) \<in> simple_keywords"
  shows "identifier_ok lc (ahead l) (complete lc (scan_keyword lc l))"
proof -
  have l: "v_stream l = xs" "v_c l = Some c" using assms(3) by (auto simp: ahead_def split: option.splits)
  have "scan_keyword lc l = match lc s 1 t l"
    using simple[unfolded simple_keywords_def] l by (auto simp: scan_keyword_def)
  moreover have w: "wide (take 1 s) = [c]" "map_of keyword_table (wide s) = Some t"
    using simple[unfolded simple_keywords_def] by (auto simp: keyword_table_def wide_def)
  have n: "map_of keyword_table (wide (take 1 s) @ w) = None" if "w \<noteq> wide (drop 1 s)" for w
    using simple[unfolded simple_keywords_def] that by (elim insertE emptyE) (simp_all add: keyword_table_def wide_def)
  have "ahead l = wide (take 1 s) @ v_stream l"
    by (simp only: w(1) l(1) assms(3) append_Cons append_Nil)
  then have "identifier_ok lc (ahead l) (complete lc (match lc s 1 t l))"
    using w(2) n by (rule match_leaf[OF assms(1,2)])
  ultimately show ?thesis by simp
qed

lemma scan_keyword_spec:
  assumes "wctype_ok lc" "v_value l = []" "ahead l = c # xs"
  shows "identifier_ok lc (ahead l) (complete lc (scan_keyword lc l))"
proof -
  consider "c = W CHR ''c''" | "c = W CHR ''f''" | "c = W CHR ''t''"
    | "c \<in> set (wide ''beinrw'')" | "c \<notin> set (wide ''bcefinrtw'')"
    by (auto simp: wide_def)
  then show ?thesis
  proof cases
    case 1
    then show ?thesis using scan_keyword_c assms by blast
  next
    case 2
    then show ?thesis using scan_keyword_f assms by blast
  next
    case 3
    then show ?thesis using scan_keyword_t assms by blast
  next
    case 4
    then have "\<exists>s t. (c, s, t) \<in> simple_keywords"
      unfolding simple_keywords_def wide_def by (elim set_ConsD[elim_format] disjE | simp | blast)+
    then show ?thesis using scan_keyword_simple[OF assms] by blast
  next
    case 5
    then have "scan_keyword lc l = (False, l)"
      using assms(3) by (auto simp: scan_keyword_def v_c_ahead wide_def)
    moreover have "map_of keyword_table (takeWhile (is_sym lc) (ahead l)) = None"
      using 5 assms(3) by (auto simp: keyword_table_def wide_def)
    ultimately show ?thesis using plain_leaf[OF assms(2)] by simp
  qed
qed


section \<open>Progress\<close>

lemma left_update [simp]:
  "left (l\<lparr>v_value := x\<rparr>) = left l" "left (l\<lparr>v_token := t\<rparr>) = left l" "left (l\<lparr>v_integer := i\<rparr>) = left l"
  "left (l\<lparr>v_indent := s\<rparr>) = left l" "left (l\<lparr>v_newline := b\<rparr>) = left l" "left (l\<lparr>v_string := s\<rparr>) = left l"
  "left (l\<lparr>v_at := a\<rparr>) = left l" "left (l\<lparr>v_float := f\<rparr>) = left l"
  by (simp_all add: left_def)

lemma left_get: "left (f_get lc l) = length (v_stream l)"
  by (simp add: left_def split: list.splits)

lemma stream_le_left: "length (v_stream l) \<le> left l"
  by (simp add: left_def)

lemma stream_less_left: "v_c l = Some c \<Longrightarrow> length (v_stream l) < left l"
  by (simp add: left_def)

lemma left_skip_space: "left (skip_space lc l) \<le> left l"
proof (induction lc l rule: skip_space.induct)
  case (1 lc l)
  then show ?case
    using left_f_get_le[of lc l] by (subst skip_space.simps) (auto intro: le_trans)
qed

lemma left_scan_symbol: "left (scan_symbol lc l) \<le> left l"
proof (induction lc l rule: scan_symbol.induct)
  case (1 lc l)
  then show ?case
    using stream_le_left[of l] by (subst scan_symbol.simps) (auto simp: left_get intro: le_trans)
qed

lemma left_scan_self: "left (scan_self lc l) \<le> left l"
proof (induction lc l rule: scan_self.induct)
  case (1 lc l)
  then show ?case
    using stream_le_left[of l] by (subst scan_self.simps) (auto simp: left_get intro: le_trans)
qed

lemma left_scan_colons: "left (scan_colons lc l) \<le> length (v_stream l)"
proof (induction lc l rule: scan_colons.induct)
  case (1 lc l)
  then show ?case
    by (subst scan_colons.simps) (auto simp: left_get Let_def intro: le_trans)
qed

text \<open>One step of \<open>scan_string\<close>, by what follows in the stream.\<close>

lemma scan_string_step:
  "scan_string lc s l =
     (case v_stream l of
        [] \<Rightarrow> lexical_error (f_get lc l)
      | c # xs \<Rightarrow>
          if c = 34 then Inr (f_get lc ((f_get lc l)\<lparr>v_string := s, v_token := T_STRING\<rparr>))
          else if c = 92
          then (case xs of
                  [] \<Rightarrow> lexical_error (f_get lc (f_get lc l))
                | e # ys \<Rightarrow> (case map_of escapes e of
                               None \<Rightarrow> lexical_error (f_get lc (f_get lc l))
                             | Some x \<Rightarrow> scan_string lc (s @ [x]) (f_get lc (f_get lc l))))
          else scan_string lc (s @ [c]) (f_get lc l))"
  by (subst scan_string.simps) (simp add: Let_def split: list.splits)

lemma left_scan_string: "scan_string lc s l = Inr l' \<Longrightarrow> left l' \<le> length (v_stream l)"
proof (induction "length (v_stream l)" arbitrary: s l rule: less_induct)
  case less
  note step = less.prems[unfolded scan_string_step[of lc s l]]
  show ?case
  proof (cases "v_stream l")
    case Nil
    then show ?thesis using step by (simp add: lexical_error_def)
  next
    case (Cons c xs)
    consider "c = 34" | "c = 92" | "c \<noteq> 34" "c \<noteq> 92" by blast
    then show ?thesis
    proof cases
      case 1
      then show ?thesis using step Cons by (auto simp: left_get)
    next
      case 2
      then obtain e ys x where "xs = e # ys" "scan_string lc (s @ [x]) (f_get lc (f_get lc l)) = Inr l'"
        using step Cons by (auto simp: lexical_error_def split: list.splits option.splits)
      then show ?thesis using less.hyps[of "f_get lc (f_get lc l)" "s @ [x]"] Cons by simp
    next
      case 3
      then show ?thesis using less.hyps[of "f_get lc l" "s @ [c]"] step Cons by simp
    qed
  qed
qed

lemma left_match_keyword: "left (snd (match_keyword lc m rest t l)) \<le> length (v_stream l)"
proof (induction rest arbitrary: m l)
  case (Cons c rest)
  then show ?case using Cons[of "m @ [c]" "f_get lc l"] by (auto simp: left_get Let_def intro: le_trans)
qed (auto simp: left_get Let_def)

lemma left_scan_hex: "left (scan_hex lc l) \<le> length (v_stream l)"
proof (induction lc l rule: scan_hex.induct)
  case (1 lc l)
  then show ?case
    by (subst scan_hex.simps) (auto simp: left_get Let_def intro: le_trans)
qed

lemma left_scan_octal: "scan_octal lc l = Inr l' \<Longrightarrow> left l' \<le> left l"
proof (induction lc l rule: scan_octal.induct)
  case (1 lc l)
  from "1.prems" show ?case
    using stream_le_left[of l]
    by (subst (asm) scan_octal.simps) (auto simp: lexical_error_def left_get split: if_splits dest!: "1.IH")
qed

lemma left_scan_digits: "scan_digits lc cs l = Inr (cs', l') \<Longrightarrow> left l' \<le> left l"
proof (induction lc cs l rule: scan_digits.induct)
  case (1 lc cs l)
  from "1.prems" show ?case
    using stream_le_left[of l]
    by (subst (asm) scan_digits.simps) (auto simp: left_get split: if_splits sum.splits dest!: "1.IH")
qed

lemma left_push_digits: "push_digits lc cs l = Inr (cs', l') \<Longrightarrow> left l' \<le> length (v_stream l)"
  by (auto simp: push_digits_def bind_result_Inr_iff left_get dest!: left_scan_digits)

lemma left_scan_exponent: "scan_exponent lc cs l = Inr (cs', l') \<Longrightarrow> left l' \<le> left l"
  using stream_le_left[of l] stream_le_left[of "f_get lc l"]
  by (fastforce simp: scan_exponent_def Let_def bind_result_Inr_iff lexical_error_def left_get
      dest!: left_push_digits split: if_splits)

lemma scan_decimal_less:
  assumes "scan_decimal lc l = Inr l'" "iswdigit (v_c l) \<or> v_c l = Some (W CHR ''.'')"
  shows "left l' < left l"
proof -
  obtain cs l1 where d: "scan_digits lc [] l = Inr (cs, l1)"
    using assms(1) by (auto simp: scan_decimal_def bind_result_Inr_iff)
  have le: "left l1 \<le> left l" and lt: "iswdigit (v_c l) \<Longrightarrow> left l1 < left l"
  proof -
    show "left l1 \<le> left l" using left_scan_digits[OF d] .
    assume dig: "iswdigit (v_c l)"
    then have "scan_digits lc [] l = scan_digits lc [the (v_c l)] (f_get lc l)"
      by (subst scan_digits.simps) (simp add: push_def)
    then show "left l1 < left l"
      using left_scan_digits[of lc "[the (v_c l)]" "f_get lc l" cs l1] d dig stream_less_left[of l]
      by (auto simp: left_get iswdigit_def split: option.splits)
  qed
  show ?thesis
  proof (cases "v_c l1 = Some (W CHR ''.'')")
    case True
    then obtain cs2 l2 cs3 l3 where "push_digits lc cs (l1\<lparr>v_token := T_FLOAT\<rparr>) = Inr (cs2, l2)"
      "scan_exponent lc cs2 l2 = Inr (cs3, l3)" "left l' = left l3"
      using assms(1) d by (auto simp: scan_decimal_def bind_result_Inr_iff lexical_error_def split: option.splits)
    then show ?thesis
      using left_push_digits[of lc cs "l1\<lparr>v_token := T_FLOAT\<rparr>" cs2 l2] left_scan_exponent[of lc cs2 l2 cs3 l3]
        stream_less_left[OF True] le by simp
  next
    case False
    then have "left l' = left l1"
      using assms(1) d by (auto simp: scan_decimal_def lexical_error_def split: option.splits)
    moreover have "iswdigit (v_c l)"
    proof (rule ccontr)
      assume "\<not> iswdigit (v_c l)"
      then have "l1 = l" using d by (subst (asm) scan_digits.simps) simp
      then show False using False assms(2) \<open>\<not> iswdigit (v_c l)\<close> by simp
    qed
    ultimately show ?thesis using lt by simp
  qed
qed

lemma scan_number_less:
  assumes "scan_number lc l = Inr l'" "iswdigit (v_c l)"
  shows "left l' < left l"
proof (cases "v_c l = Some (W CHR ''0'')")
  case False
  then show ?thesis using assms scan_decimal_less[of lc l l'] by (simp add: scan_number_def)
next
  case True
  define l1 where "l1 = f_get lc l"
  have l1: "left l1 < left l" using stream_less_left[OF True] by (simp add: l1_def left_get)
  consider "v_c l1 = Some (W CHR ''.'')" "scan_decimal lc l1 = Inr l'"
    | "left l' = left (scan_hex lc (f_get lc (l1\<lparr>v_integer := 0\<rparr>)))"
    | l3 where "scan_octal lc (l1\<lparr>v_integer := 0\<rparr>) = Inr l3" "left l' = left l3"
    using assms(1) True
    by (auto simp: scan_number_def Let_def bind_result_Inr_iff lexical_error_def finish_integer_def l1_def[symmetric] split: if_splits)
  then show ?thesis
  proof cases
    case 1
    then show ?thesis using scan_decimal_less[OF 1(2)] l1 by simp
  next
    case 2
    then show ?thesis
      using left_scan_hex[of lc "f_get lc (l1\<lparr>v_integer := 0\<rparr>)"] stream_le_left[of l1] l1 by simp
  next
    case 3
    then show ?thesis using left_scan_octal[OF 3(1)] l1 by simp
  qed
qed

lemma left_match: "left (snd (match lc s n t l)) \<le> length (v_stream l)"
  by (simp add: match_def left_match_keyword)

lemma left_scan_keyword:
  assumes "v_c l = Some c"
  shows "scan_keyword lc l = (False, l) \<or> left (snd (scan_keyword lc l)) < left l"
proof -
  have le: "length (v_stream l) < left l" using stream_less_left[OF assms] .
  have m: "left (snd (match lc s n t l)) < left l" "left (snd (match lc s n t (f_get lc l))) < left l"
    "left (snd (match lc s n t (f_get lc (f_get lc l)))) < left l" for s n t
    using left_match[of lc s n t l] left_match[of lc s n t "f_get lc l"] left_match[of lc s n t "f_get lc (f_get lc l)"] le
    by auto
  have k: "left (snd (keep s (f_get lc l))) < left l" "left (snd (keep s (f_get lc (f_get lc l)))) < left l" for s
    using le by (auto simp: keep_def left_get)
  show ?thesis by (simp add: scan_keyword_def Let_def m k)
qed

lemma identifier_less:
  assumes "v_c l = Some c" "is_sym lc c" "v_value l = []"
  shows "left (complete lc (scan_keyword lc l)) < left l"
proof (cases "scan_keyword lc l = (False, l)")
  case True
  have "scan_symbol lc l = scan_symbol lc (f_get lc (l\<lparr>v_value := v_value l @ [the (v_c l)]\<rparr>))"
    using assms by (subst scan_symbol.simps) (simp add: is_sym_def)
  then show ?thesis
    using True left_scan_symbol[of lc "f_get lc (l\<lparr>v_value := v_value l @ [the (v_c l)]\<rparr>)"] stream_less_left[OF assms(1)]
    by (simp add: complete_def left_get)
next
  case False
  then have "left (snd (scan_keyword lc l)) < left l" using left_scan_keyword[OF assms(1)] by blast
  then show ?thesis
    using left_scan_symbol[of lc "snd (scan_keyword lc l)"] by (auto simp: complete_def split: prod.splits)
qed

lemma operator_less:
  assumes "scan_operator lc c l = Inr l'" "v_c l = Some d"
  shows "left l' < left l"
proof -
  have "left l' \<le> length (v_stream l)"
    using assms(1) by (auto simp: scan_operator_def Let_def tok_set_def tok_next_def left_get split: if_splits)
  then show ?thesis using stream_less_left[OF assms(2)] by simp
qed

lemma alpha_sym: "wctype_ok lc \<Longrightarrow> w_alpha lc c \<or> c = W CHR ''_'' \<Longrightarrow> is_sym lc c"
  by (auto simp: wctype_ok_def is_sym_def f_is_symbol_def)

lemma scan_token_less:
  assumes "wctype_ok lc" "scan_token lc l = Inr l'" "v_c l = Some c"
  shows "left l' < left l"
proof -
  have lt: "length (v_stream l) < left l" using stream_less_left[OF assms(3)] .
  note tok = assms(2)[unfolded scan_token_def assms(3) option.case]
  consider (operator) "c \<in> set operator_starts" | (string) "c \<notin> set operator_starts" "c = W CHR 0x22"
    | (self) "c \<notin> set operator_starts" "c \<noteq> W CHR 0x22" "c = W CHR ''$''"
    | (colon) "c \<notin> set operator_starts" "c \<noteq> W CHR 0x22" "c \<noteq> W CHR ''$''" "c = W CHR '':''"
    | (other) "c \<notin> set operator_starts" "c \<noteq> W CHR 0x22" "c \<noteq> W CHR ''$''" "c \<noteq> W CHR '':''" by blast
  then show ?thesis
  proof cases
    case operator
    then show ?thesis using tok operator_less[OF _ assms(3)] by simp
  next
    case string
    then have "scan_string lc [] l = Inr l'" using tok by simp
    then show ?thesis using left_scan_string lt by (meson le_less_trans)
  next
    case self
    then have "l' = scan_self lc ((f_get lc l)\<lparr>v_value := []\<rparr>)" using tok by simp
    then show ?thesis using left_scan_self[of lc "(f_get lc l)\<lparr>v_value := []\<rparr>"] lt by (simp add: left_get)
  next
    case colon
    then have "l' = scan_colons lc (l\<lparr>v_integer := 1\<rparr>)" using tok by simp
    then show ?thesis using left_scan_colons[of lc "l\<lparr>v_integer := 1\<rparr>"] lt by simp
  next
    case other
    note tok' = tok[unfolded if_not_P[OF other(1)] if_not_P[OF other(2)] if_not_P[OF other(3)] if_not_P[OF other(4)]]
    show ?thesis
    proof (cases "map_of punctuation c")
      case (Some t)
      then show ?thesis using tok' lt by (auto simp: tok_next_def left_get)
    next
      case None
      show ?thesis
      proof (cases "w_alpha lc c \<or> c = W CHR ''_''")
        case True
        then have "l' = complete lc (scan_keyword lc (l\<lparr>v_value := []\<rparr>))"
          using tok' None by (auto simp: complete_def iswalpha_def split: prod.splits)
        then show ?thesis
          using identifier_less[of "l\<lparr>v_value := []\<rparr>" c lc] alpha_sym[OF assms(1) True] assms(3) by simp
      next
        case False
        then have "iswdigit (v_c l)" "scan_number lc l = Inr l'"
          using tok' None assms(3) by (auto simp: iswalpha_def lexical_error_def split: if_splits)
        then show ?thesis using scan_number_less by blast
      qed
    qed
  qed
qed

text \<open>One step of \<open>next_line\<close>.\<close>

lemma next_line_step:
  assumes "match_indent lc (v_indent l) 0 (f_skip_line lc l) = Inr (i, l1)"
  defines "l2 \<equiv> f_read_indent lc l1"
  shows "next_line lc l =
    (if \<not> blank (v_c l2)
     then Inr (if i < length (v_indent l) then l2\<lparr>v_indent := take i (v_indent l2)\<rparr> else l2)
     else next_line lc (if length (v_indent l) < length (v_indent l2)
                        then l2\<lparr>v_indent := take (length (v_indent l)) (v_indent l2)\<rparr> else l2))"
  by (subst next_line.simps) (simp add: Let_def assms)

lemma left_next_line: "next_line lc l = Inr l' \<Longrightarrow> left l' \<le> length (v_stream l)"
proof (induction lc l rule: next_line.induct)
  case (1 lc l)
  obtain i l1 where m: "match_indent lc (v_indent l) 0 (f_skip_line lc l) = Inr (i, l1)"
    using "1.prems" by (subst (asm) next_line.simps) (auto simp: Let_def split: sum.splits)
  define l2 where "l2 = f_read_indent lc l1"
  have le: "left l2 \<le> length (v_stream l)"
    using left_f_skip_line[of lc l] left_match_indent[OF m] left_f_read_indent[of lc l1] by (simp add: l2_def)
  note step = "1.prems"[unfolded next_line_step[OF m] l2_def[symmetric]]
  show ?case
  proof (cases "blank (v_c l2)")
    case False
    then have "left l' = left l2" using step by (auto split: if_splits)
    then show ?thesis using le by simp
  next
    case True
    then have "left l' \<le> length (v_stream l2)"
      using "1.IH"[OF refl m refl l2_def] step by (auto split: if_splits)
    then show ?thesis using le stream_le_left[of l2] by simp
  qed
qed

lemma f_next_scans:
  assumes "t_lexer_f_next lc l = Inr l'"
  obtains l1 where "left l1 \<le> left l" "scan_token lc (l1\<lparr>v_at := (v_position l1, v_line l1, v_column l1)\<rparr>) = Inr l'"
proof -
  define m where "m = skip_space lc l"
  have m: "left m \<le> left l" using left_skip_space[of lc l] by (simp add: m_def)
  show ?thesis
  proof (cases "blank (v_c m)")
    case True
    then obtain l1 where "next_line lc (m\<lparr>v_newline := True\<rparr>) = Inr l1"
      "scan_token lc (l1\<lparr>v_at := (v_position l1, v_line l1, v_column l1)\<rparr>) = Inr l'"
      using assms by (auto simp: t_lexer_f_next_def Let_def m_def bind_result_Inr_iff)
    then show ?thesis
      using that[of l1] left_next_line[of lc "m\<lparr>v_newline := True\<rparr>" l1] stream_le_left[of m] m by simp
  next
    case False
    then show ?thesis
      using that[of "m\<lparr>v_newline := False\<rparr>"] assms m by (auto simp: t_lexer_f_next_def Let_def m_def)
  qed
qed

lemma f_next_progress:
  assumes "wctype_ok lc" "t_lexer_f_next lc l = Inr l'" "v_token l' \<noteq> T_EOF"
  shows "left l' < left l"
proof -
  obtain l1 where l1: "left l1 \<le> left l"
    "scan_token lc (l1\<lparr>v_at := (v_position l1, v_line l1, v_column l1)\<rparr>) = Inr l'"
    using f_next_scans[OF assms(2)] .
  have "v_c l1 \<noteq> None"
  proof
    assume "v_c l1 = None"
    then show False using l1(2) assms(3) by (simp add: scan_token_def tok_set_def) auto
  qed
  then obtain c where "v_c (l1\<lparr>v_at := (v_position l1, v_line l1, v_column l1)\<rparr>) = Some c" by auto
  from scan_token_less[OF assms(1) l1(2) this] show ?thesis using l1(1) by simp
qed

lemma f_next_le:
  assumes "wctype_ok lc" "t_lexer_f_next lc l = Inr l'"
  shows "left l' \<le> left l"
proof -
  obtain l1 where l1: "left l1 \<le> left l"
    "scan_token lc (l1\<lparr>v_at := (v_position l1, v_line l1, v_column l1)\<rparr>) = Inr l'"
    using f_next_scans[OF assms(2)] .
  show ?thesis
  proof (cases "v_c l1")
    case None
    then show ?thesis using l1 by (auto simp: scan_token_def tok_set_def left_def)
  next
    case (Some c)
    from scan_token_less[OF assms(1) l1(2), of c] Some show ?thesis using l1(1) by simp
  qed
qed

text \<open>All the tokens of a stream; the fuel bounds the number of calls.\<close>

fun scan_all :: "wctype \<Rightarrow> nat \<Rightarrow> t_lexer \<Rightarrow> t_token list result option" where
  "scan_all lc 0 l = None"
| "scan_all lc (Suc n) l =
     (if v_token l = T_EOF then Some (Inr [])
      else case t_lexer_f_next lc l of
             Inl e \<Rightarrow> Some (Inl e)
           | Inr l' \<Rightarrow> map_option (\<lambda>r. bind_result r (\<lambda>ts. Inr (v_token l # ts))) (scan_all lc n l'))"

lemma scan_all_returns:
  "wctype_ok lc \<Longrightarrow> v_token l = T_EOF \<and> 0 < n \<or> Suc (left l) < n \<Longrightarrow> \<exists>r. scan_all lc n l = Some r"
proof (induction n arbitrary: l)
  case (Suc n)
  show ?case
  proof (cases "v_token l = T_EOF")
    case False
    show ?thesis
    proof (cases "t_lexer_f_next lc l")
      case (Inr l')
      have "v_token l' = T_EOF \<and> 0 < n \<or> Suc (left l') < n"
        using f_next_progress[OF Suc.prems(1) Inr] Suc.prems(2) False by (cases "v_token l' = T_EOF") auto
      then show ?thesis using Suc.IH[OF Suc.prems(1)] Inr False by auto
    qed (use False in simp)
  qed simp
qed simp

section \<open>Integer literals\<close>





lemma ends_at: "ahead l = x # xs \<Longrightarrow> v_c l = Some x \<and> v_stream l = xs"
  by (auto simp: ahead_def split: option.splits)


lemma iswdigit_ahead: "iswdigit (v_c l) \<longleftrightarrow> (case ahead l of [] \<Rightarrow> False | c # _ \<Rightarrow> is_digit c)"
  by (auto simp: v_c_ahead is_digit_def iswdigit_def split: list.splits)



lemma scan_digits_spec:
  "ahead l = ds @ rest \<Longrightarrow> \<forall>c \<in> set ds. is_digit c \<Longrightarrow> rest = [] \<or> \<not> is_digit (hd rest) \<Longrightarrow>
   length (cs @ ds) \<le> 32 \<Longrightarrow>
   \<exists>l'. scan_digits lc cs l = Inr (cs @ ds, l') \<and> ahead l' = rest"
proof (induction ds arbitrary: l cs)
  case Nil
  then show ?case by (subst scan_digits.simps) (auto simp: iswdigit_ahead split: list.splits)
next
  case (Cons d ds)
  have d: "v_c l = Some d" "v_stream l = ds @ rest" using ends_at[of l d "ds @ rest"] Cons.prems(1) by auto
  have a: "ahead (f_get lc l) = ds @ rest" using d by (simp add: ahead_get del: ahead_f_get)
  have "scan_digits lc cs l = scan_digits lc (cs @ [d]) (f_get lc l)"
    using d Cons.prems by (subst scan_digits.simps) (simp add: push_def is_digit_def)
  then show ?case using Cons.IH[OF a, of "cs @ [d]"] Cons.prems by simp
qed


section \<open>Quoted strings\<close>

text \<open>A literal for a string: the characters that end the literal or start an escape are escaped, and so
  are the control characters that have an escape.\<close>

definition quote_char :: "wchar \<Rightarrow> wchar list" where
  "quote_char c =
     (case map_of (map prod.swap escapes) c of Some e \<Rightarrow> [W CHR 0x5C, e] | None \<Rightarrow> [c])"

lemma escapes_inverse: "map_of (map prod.swap escapes) c = Some e \<Longrightarrow> map_of escapes e = Some c"
  by (auto simp: escapes_def split: if_splits)

lemma quote_plain: "map_of (map prod.swap escapes) c = None \<Longrightarrow> c \<noteq> 34 \<and> c \<noteq> 92"
  by (auto simp: escapes_def)

lemma scan_string_spec:
  "v_stream l = concat (map quote_char s) @ W CHR 0x22 # rest \<Longrightarrow>
   \<exists>l'. scan_string lc acc l = Inr l' \<and> v_token l' = T_STRING \<and> v_string l' = acc @ s \<and> ahead l' = rest"
proof (induction s arbitrary: l acc)
  case Nil
  then show ?case by (subst scan_string_step) (simp add: ahead_get del: ahead_f_get)
next
  case (Cons c s)
  show ?case
  proof (cases "map_of (map prod.swap escapes) c")
    case None
    then show ?thesis
      using quote_plain[OF None] Cons.prems Cons.IH[of "f_get lc l" "acc @ [c]"]
      by (subst scan_string_step) (simp add: quote_char_def)
  next
    case (Some e)
    then show ?thesis
      using escapes_inverse[OF Some] Cons.prems Cons.IH[of "f_get lc (f_get lc l)" "acc @ [c]"]
      by (subst scan_string_step) (simp add: quote_char_def)
  qed
qed

section \<open>Indentation\<close>

definition is_blank :: "wctype \<Rightarrow> wchar \<Rightarrow> bool" where
  "is_blank lc c \<longleftrightarrow> c \<noteq> W CHR 0x0A \<and> w_space lc c"

lemma blank_ahead: "v_c l \<noteq> Some (W CHR 0x0A) \<and> iswspace lc (v_c l) \<longleftrightarrow> (case ahead l of [] \<Rightarrow> False | c # _ \<Rightarrow> is_blank lc c)"
  by (auto simp: v_c_ahead is_blank_def iswspace_def split: list.splits)

lemma f_read_indent_spec:
  "ahead (f_read_indent lc l) = dropWhile (is_blank lc) (ahead l) \<and>
   v_indent (f_read_indent lc l) = v_indent l @ takeWhile (is_blank lc) (ahead l)"
proof (induction lc l rule: f_read_indent.induct)
  case (1 lc l)
  show ?case
  proof (cases "ahead l")
    case Nil
    then show ?thesis by (subst (1 2) f_read_indent.simps) (simp only: blank_ahead, simp)
  next
    case (Cons c xs)
    note c = ends_at[OF Cons]
    show ?thesis
    proof (cases "is_blank lc c")
      case True
      then have b: "v_c l \<noteq> Some (W CHR 0x0A) \<and> iswspace lc (v_c l)" using Cons by (simp only: blank_ahead) simp
      then have "f_read_indent lc l = f_read_indent lc (f_get lc (l\<lparr>v_indent := v_indent l @ [the (v_c l)]\<rparr>))"
        by (subst f_read_indent.simps) simp
      then show ?thesis using "1.IH"[OF b] True Cons c by (simp add: ahead_get del: ahead_f_get)
    next
      case False
      then have "\<not> (v_c l \<noteq> Some (W CHR 0x0A) \<and> iswspace lc (v_c l))" using Cons by (simp only: blank_ahead) simp
      then have "f_read_indent lc l = l" by (subst f_read_indent.simps) (simp only: if_False)
      then show ?thesis using False Cons by simp
    qed
  qed
qed

lemma f_skip_line_spec:
  "ahead l = line @ W CHR 0x0A # rest \<Longrightarrow> W CHR 0x0A \<notin> set line \<Longrightarrow>
   ahead (f_skip_line lc l) = rest \<and> v_indent (f_skip_line lc l) = v_indent l"
proof (induction line arbitrary: l)
  case Nil
  then show ?case
    using ends_at[of l "W CHR 0x0A" rest] by (subst (1 2) f_skip_line.simps) (simp add: ahead_get del: ahead_f_get)
next
  case (Cons c line)
  have c: "v_c l = Some c" "v_stream l = line @ W CHR 0x0A # rest"
    using ends_at[of l c "line @ W CHR 0x0A # rest"] Cons.prems by auto
  then have "f_skip_line lc l = f_skip_line lc (f_get lc l)"
    using Cons.prems(2) by (subst f_skip_line.simps) (auto split: list.splits)
  moreover have "ahead (f_get lc l) = line @ W CHR 0x0A # rest" using c by (simp add: ahead_get del: ahead_f_get)
  ultimately show ?case using Cons.IH[of "f_get lc l"] Cons.prems(2) by simp
qed

text \<open>The line before is indented by \<open>s\<close>, the new line by \<open>ws\<close>: one must start with the other.\<close>

lemma match_indent_spec:
  assumes "ahead l = ws @ rest" "\<forall>c \<in> set ws. is_blank lc c" "rest = [] \<or> \<not> is_blank lc (hd rest)"
  shows "if s = take (length s) ws \<or> ws = take (length ws) s
    then \<exists>l'. match_indent lc s i l = Inr (i + min (length s) (length ws), l') \<and> ahead l' = drop (length s) ws @ rest \<and>
      v_indent l' = v_indent l
    else match_indent lc s i l = lexical_error l"
  using assms
proof (induction s arbitrary: ws l i)
  case Nil
  then show ?case by simp
next
  case (Cons c s)
  show ?case
  proof (cases ws)
    case Nil
    then have "\<not> (v_c l \<noteq> Some (W CHR 0x0A) \<and> iswspace lc (v_c l))"
      using Cons.prems by (simp only: blank_ahead) (auto split: list.splits)
    then show ?thesis using Nil Cons.prems by auto
  next
    case ws: (Cons d ds)
    have d: "v_c l = Some d" "v_stream l = ds @ rest" using ends_at[of l d "ds @ rest"] Cons.prems(1) ws by auto
    have b: "v_c l \<noteq> Some (W CHR 0x0A) \<and> iswspace lc (v_c l)"
      using Cons.prems ws by (simp only: blank_ahead) simp
    show ?thesis
    proof (cases "d = c")
      case True
      have "ahead (f_get lc l) = ds @ rest" using d by (simp add: ahead_get del: ahead_f_get)
      from Cons.IH[OF this _ Cons.prems(3), of "Suc i"] Cons.prems(2) ws b d True
      show ?thesis by (auto simp: lexical_error_def split: if_splits)
    next
      case False
      then show ?thesis using b d ws by (auto simp: lexical_error_def)
    qed
  qed
qed

lemma next_line_indent:
  assumes "ahead l = line @ W CHR 0x0A # ws @ rest" "W CHR 0x0A \<notin> set line"
    and "\<forall>c \<in> set ws. is_blank lc c" "rest = [] \<or> \<not> is_blank lc (hd rest)"
    and "rest = [] \<or> hd rest \<noteq> W CHR 0x0A \<and> hd rest \<noteq> W CHR ''#''"
  shows "if take (min (length ws) (length (v_indent l))) ws = take (min (length ws) (length (v_indent l))) (v_indent l)
    then \<exists>l'. next_line lc l = Inr l' \<and> v_indent l' = ws \<and> ahead l' = rest
    else next_line lc l = Inl (Thrown ''lexical error.'')"
proof -
  define s where "s = v_indent l"
  define l0 where "l0 = f_skip_line lc l"
  have l0: "ahead l0 = ws @ rest" "v_indent l0 = s"
    using f_skip_line_spec[OF assms(1,2), of lc] by (auto simp: l0_def s_def)
  have cond: "take (min (length ws) (length s)) ws = take (min (length ws) (length s)) s \<longleftrightarrow>
      s = take (length s) ws \<or> ws = take (length ws) s"
    by (cases "length s \<le> length ws") (auto simp: min_def)
  show ?thesis
  proof (cases "s = take (length s) ws \<or> ws = take (length ws) s")
    case True
    then obtain l1 where l1: "match_indent lc s 0 l0 = Inr (min (length s) (length ws), l1)"
      "ahead l1 = drop (length s) ws @ rest" "v_indent l1 = s"
      using match_indent_spec[OF l0(1) assms(3,4), of s 0] l0(2) by auto
    define l2 where "l2 = f_read_indent lc l1"
    have "takeWhile (is_blank lc) rest = []" "dropWhile (is_blank lc) rest = rest"
      using assms(4) by (cases rest; simp)+
    moreover have "\<forall>c \<in> set (drop (length s) ws). is_blank lc c" using assms(3) by (meson in_set_dropD)
    ultimately have l2: "ahead l2 = rest" "v_indent l2 = s @ drop (length s) ws"
      using f_read_indent_spec[of lc l1] l1(2,3) by (simp_all add: l2_def takeWhile_append2 dropWhile_append2)
    have nb: "\<not> blank (v_c l2)" using assms(5) l2(1) by (auto simp: blank_def v_c_ahead split: list.splits)
    have "next_line lc l = Inr (if min (length s) (length ws) < length s then l2\<lparr>v_indent := take (min (length s) (length ws)) (v_indent l2)\<rparr> else l2)"
      using next_line_step[OF l1(1)[unfolded s_def l0_def]] nb by (simp add: l2_def s_def)
    moreover have "take (min (length s) (length ws)) (s @ drop (length s) ws) = ws" if "length ws < length s"
      using True that by (auto simp: min_def)
    moreover have "s @ drop (length s) ws = ws" if "\<not> length ws < length s"
      using True that by (metis append_take_drop_id length_take min.absorb2 not_less take_all)
    ultimately show ?thesis using True cond l2 by (auto simp: min_def s_def)
  next
    case False
    then have "match_indent lc s 0 l0 = lexical_error l0"
      using match_indent_spec[OF l0(1) assms(3,4), of s 0] by simp
    then have "next_line lc l = Inl (Thrown ''lexical error.'')"
      by (subst next_line.simps) (simp add: Let_def s_def l0_def lexical_error_def)
    then show ?thesis using False cond by (simp add: s_def)
  qed
qed

section \<open>Properties\<close>

text \<open>The classes of the C locale.\<close>

definition c_locale :: wctype where
  "c_locale =
     \<lparr>w_space = (\<lambda>c. c = 32 \<or> 9 \<le> c \<and> c \<le> 13),
      w_alpha = (\<lambda>c. 65 \<le> c \<and> c \<le> 90 \<or> 97 \<le> c \<and> c \<le> 122),
      w_alnum = (\<lambda>c. 48 \<le> c \<and> c \<le> 57 \<or> 65 \<le> c \<and> c \<le> 90 \<or> 97 \<le> c \<and> c \<le> 122),
      w_bytes = (\<lambda>c. 1)\<rparr>"

lemma c_locale_ok: "wctype_ok c_locale"
  by (auto simp: wctype_ok_def c_locale_def wide_def)

text \<open>A lexer about to read a text.\<close>

definition at_text :: "wchar list \<Rightarrow> t_lexer" where
  "at_text xs =
     \<lparr>v_stream = tl xs, v_tell = 0, v_position = 0, v_line = 1, v_column = 1,
      v_c = (case xs of [] \<Rightarrow> None | x # _ \<Rightarrow> Some x), v_at = (0, 0, 0), v_newline = False, v_indent = [],
      v_token = T_SYMBOL, v_value = [], v_string = [], v_integer = 0, v_float = F_nan\<rparr>"

lemma ahead_at_text [simp]: "ahead (at_text xs) = xs"
  by (cases xs) (simp_all add: at_text_def ahead_def)

lemma v_indent_at_text [simp]: "v_indent (at_text xs) = []"
  by (simp add: at_text_def)

lemma special_not_alpha:
  assumes "wctype_ok lc" "w_alpha lc c \<or> c = W CHR ''_''"
  shows "c \<notin> set operator_starts" "c \<noteq> W CHR 0x22" "c \<noteq> W CHR ''$''" "c \<noteq> W CHR '':''" "map_of punctuation c = None"
  using assms by (auto simp: wctype_ok_def wide_def operator_starts_def punctuation_def)

text \<open>C4: The nested switch over the letters of the keywords is the longest identifier followed by a
  look-up in the table of keywords: from a letter or an underscore the scanner consumes exactly the
  longest run of identifier characters, and yields the keyword's token when that run is a keyword,
  and otherwise the token SYMBOL with the whole run as its value.\<close>

theorem lexer_identifier:
  assumes "wctype_ok lc" "ahead l = c # xs" "w_alpha lc c \<or> c = W CHR ''_''"
  shows "\<exists>l'. scan_token lc l = Inr l' \<and> ahead l' = dropWhile (is_sym lc) (ahead l) \<and>
    (case map_of keyword_table (takeWhile (is_sym lc) (ahead l)) of
       Some t \<Rightarrow> v_token l' = t
     | None \<Rightarrow> v_token l' = T_SYMBOL \<and> v_value l' = takeWhile (is_sym lc) (ahead l))"
proof -
  have c: "v_c l = Some c" using ends_at[OF assms(2)] by simp
  have "scan_token lc l = Inr (complete lc (scan_keyword lc (l\<lparr>v_value := []\<rparr>)))"
    using special_not_alpha[OF assms(1,3)] assms(3) c
    by (auto simp: scan_token_def complete_def iswalpha_def split: prod.splits)
  moreover have "identifier_ok lc (ahead l) (complete lc (scan_keyword lc (l\<lparr>v_value := []\<rparr>)))"
    using scan_keyword_spec[of lc "l\<lparr>v_value := []\<rparr>" c xs] assms(1,2) by simp
  ultimately show ?thesis by (simp add: identifier_ok_def)
qed

theorem lexer_identifier_witness:
  "\<exists>l'. scan_token c_locale (at_text (wide ''trying='')) = Inr l' \<and> v_token l' = T_SYMBOL \<and>
     v_value l' = wide ''trying'' \<and> ahead l' = wide ''=''"
  using lexer_identifier[OF c_locale_ok, of "at_text (wide ''trying='')" "W CHR ''t''" "wide ''rying=''"]
  by (auto simp: wide_def is_sym_def f_is_symbol_def c_locale_def keyword_table_def)

text \<open>C7: Scanning ends.  From any state, the calls of \<open>f_next\<close> reach the end of the stream or an error
  after at most one call more than there are characters left: every call that yields a token
  consumes at least one character.\<close>

theorem lexer_terminates:
  assumes "wctype_ok lc"
  shows "\<exists>r. scan_all lc (left l + 2) l = Some r"
  using scan_all_returns[OF assms, of l "left l + 2"] by simp

theorem lexer_terminates_witness:
  "\<exists>r. scan_all c_locale (left (at_text (wide ''x = 1'')) + 2) (at_text (wide ''x = 1'')) = Some r"
  using lexer_terminates[OF c_locale_ok] .





text \<open>C10: A decimal literal of at most 32 digits has exactly the value of its digits when that is below
  \<open>2\<^sup>6\<^sup>3\<close>, and is refused otherwise: a decimal literal never wraps around.\<close>

theorem lexer_decimal_literal:
  assumes "ahead l = ds @ rest" "ds \<noteq> []" "hd ds \<noteq> W CHR ''0''" "\<forall>c \<in> set ds. is_digit c" "length ds \<le> 32"
    and "rest = [] \<or> \<not> is_digit (hd rest) \<and> hd rest \<noteq> W CHR ''.''"
  shows "if decimal ds < 2 ^ 63
    then \<exists>l'. scan_number lc l = Inr l' \<and> v_token l' = T_INTEGER \<and> ahead l' = rest \<and>
      sint (v_integer l') = int (decimal ds)
    else scan_number lc l = Inl (Thrown ''lexical error.'')"
proof -
  have c: "v_c l = Some (hd ds)" using assms(1,2) by (cases ds) (auto simp: v_c_ahead)
  obtain l1 where l1: "scan_digits lc [] l = Inr (ds, l1)" "ahead l1 = rest"
    using scan_digits_spec[OF assms(1,4), of "[]" lc] assms(5,6) by auto
  have "v_c l1 \<noteq> Some (W CHR ''.'')" using l1(2) assms(6) by (auto simp: v_c_ahead split: list.splits)
  then have eq: "scan_number lc l = (case from_chars_integer ds of
      None \<Rightarrow> lexical_error l1 | Some n \<Rightarrow> Inr (l1\<lparr>v_token := T_INTEGER, v_integer := n\<rparr>))"
    using c assms(3) l1(1) by (simp add: scan_number_def scan_decimal_def)
  have "sint (of_nat (decimal ds) :: i64) = int (decimal ds)" if "decimal ds < 2 ^ 63"
    using that by (simp add: signed_of_nat signed_take_bit_int_eq_self)
  then show ?thesis
    using eq l1(2) assms(2) by (auto simp: from_chars_integer_def lexical_error_def)
qed

theorem lexer_decimal_literal_witness:
  "scan_number c_locale (at_text (wide ''9223372036854775808'')) = Inl (Thrown ''lexical error.'') \<and>
   decimal (wide ''9223372036854775808'') = 2 ^ 63"
  using lexer_decimal_literal[of "at_text (wide ''9223372036854775808'')" "wide ''9223372036854775808''" "[]" c_locale]
  by (simp add: wide_def is_digit_def iswdigit_def decimal_def)

text \<open>C8: Round trip of string literals: quoting a string, with the escapes of the language, and scanning
  the literal gives the token STRING with the string, whatever characters it holds, and leaves the
  scanner after the closing quote.\<close>

theorem lexer_string_roundtrip:
  assumes "ahead l = [W CHR 0x22] @ concat (map quote_char s) @ [W CHR 0x22] @ rest"
  shows "\<exists>l'. scan_token lc l = Inr l' \<and> v_token l' = T_STRING \<and> v_string l' = s \<and> ahead l' = rest"
proof -
  have l: "v_c l = Some 34" "v_stream l = concat (map quote_char s) @ W CHR 0x22 # rest"
    using ends_at[of l 34 "concat (map quote_char s) @ W CHR 0x22 # rest"] assms by auto
  have "scan_token lc l = scan_string lc [] l"
    using l(1) by (simp add: scan_token_def operator_starts_def)
  then show ?thesis using scan_string_spec[OF l(2), of lc "[]"] by simp
qed

theorem lexer_string_roundtrip_witness:
  "\<exists>l'. scan_token c_locale (at_text ([34] @ concat (map quote_char [97, 34, 10, 92, 0x3042]) @ [34] @ [59])) = Inr l' \<and>
     v_string l' = [97, 34, 10, 92, 0x3042] \<and> ahead l' = [59]"
  using lexer_string_roundtrip[of "at_text ([34] @ concat (map quote_char [97, 34, 10, 92, 0x3042]) @ [34] @ [59])"
      "[97, 34, 10, 92, 0x3042]" "[59]" c_locale]
  by auto

text \<open>C9: Indentation.  At the end of a line, the indentation of the next line that holds a token replaces
  that of the line before when one of the two starts with the other; otherwise (tabs where there were
  blanks) the line is a lexical error.\<close>

theorem lexer_indentation:
  assumes "ahead l = line @ W CHR 0x0A # ws @ rest" "W CHR 0x0A \<notin> set line"
    and "\<forall>c \<in> set ws. is_blank lc c" "rest = [] \<or> \<not> is_blank lc (hd rest)"
    and "rest = [] \<or> hd rest \<noteq> W CHR 0x0A \<and> hd rest \<noteq> W CHR ''#''"
  shows "if take (min (length ws) (length (v_indent l))) ws = take (min (length ws) (length (v_indent l))) (v_indent l)
    then \<exists>l'. next_line lc l = Inr l' \<and> v_indent l' = ws \<and> ahead l' = rest
    else next_line lc l = Inl (Thrown ''lexical error.'')"
  using next_line_indent[OF assms] .

theorem lexer_indentation_witness:
  "\<exists>l'. next_line c_locale (at_text [35, 120, 10, 9, 32, 121]) = Inr l' \<and> v_indent l' = [9, 32] \<and> ahead l' = [121]"
  using lexer_indentation[of "at_text [35, 120, 10, 9, 32, 121]" "[35, 120]" "[9, 32]" "[121]" c_locale]
  by (auto simp: is_blank_def c_locale_def)



end
