(* ===== verification/Xm_Ast.thy ===== *)
theory Xm_Ast
  imports Xm_Lexer Xm_Operators
begin

text \<open>
  The syntax tree (src/include/xemmai/ast.h) and the scopes the parser fills in: the node classes as
  one datatype, \<open>t_scope\<close> with its variables, and the two passes over the variables of a scope,
  \<open>f_vary\<close> and \<open>f_classify\<close> (src/src/ast.cc).

  A scope is named by its place in the order of creation, a variable by its scope and its symbol: the
  C++ pointers are stable because a scope lives in the arena and a variable in a node of a
  \<open>std::map\<close>.  The blocks of the data-flow analysis that some nodes carry are filled by later
  passes and are not part of the tree here.
\<close>

section \<open>Nodes\<close>

type_synonym symbol = "wchar list"
type_synonym t_at = "nat \<times> nat \<times> nat"
type_synonym variable_ref = "nat \<times> symbol"

text \<open>The objects a literal can hold: symbols, strings, and the three types that bracket expressions
  call.\<close>

datatype lit_object = O_symbol symbol | O_string "wchar list" | O_tuple | O_list | O_map

datatype t_node =
    N_nodes "t_node list"
  | N_lambda t_at nat bool nat "t_node list" t_node
  | N_if "t_node option" t_node t_node
  | N_while "t_node option" t_node
  | N_for "t_node option" "t_node option" "t_node option" t_node
  | N_break t_node
  | N_continue t_at
  | N_return t_node
  | N_try t_node "(t_node \<times> variable_ref \<times> t_node) list" "t_node option"
  | N_throw t_at t_node
  | N_object_get t_at t_node symbol
  | N_object_get_indirect t_at t_node t_node
  | N_object_put t_at t_node symbol t_node
  | N_object_put_indirect t_at t_node t_node t_node
  | N_object_has t_at t_node symbol
  | N_object_has_indirect t_at t_node t_node
  | N_symbol_get t_at nat "nat option" symbol
  | N_scope_put t_at nat variable_ref t_node
  | N_self t_at nat
  | N_class t_at t_node
  | N_super t_at t_node
  | N_null t_at
  | N_literal_object t_at lit_object
  | N_literal_bool t_at bool
  | N_literal_integer t_at i64
  | N_literal_float t_at float64
  | N_unary t_at unop t_node
  | N_binary t_at binop t_node t_node
  | N_preserve
  | N_call t_at t_node "t_node list" "(t_at \<times> nat) list"
  | N_get_at t_at t_node t_node
  | N_set_at t_at t_node t_node t_node

section \<open>Scopes and variables\<close>

text \<open>\<open>v_index\<close> is assigned when the scope is complete; \<^const>\<open>None\<close> is the indeterminate value before
  that.\<close>

record t_variable =
  v_shared :: bool
  v_varies :: bool
  v_index :: "nat option"

definition t_variable_new :: t_variable where
  "t_variable_new = \<lparr>v_shared = False, v_varies = False, v_index = None\<rparr>"

text \<open>\<open>v_privates\<close> is the circular list from its head to \<open>v_tail\<close>, with its separate counter.\<close>

record t_scope =
  v_outer :: "nat option"
  v_scope_shared :: bool
  v_self_shared :: bool
  v_references :: "symbol list"
  v_unresolveds :: "symbol list"
  v_variables :: "(symbol \<times> t_variable) list"
  v_privates :: "symbol list"
  v_privates_size :: nat
  v_shareds :: nat

definition t_scope_new :: "nat option \<Rightarrow> t_scope" where
  "t_scope_new a_outer =
     \<lparr>v_outer = a_outer, v_scope_shared = False, v_self_shared = False, v_references = [], v_unresolveds = [],
      v_variables = [], v_privates = [], v_privates_size = 0, v_shareds = 0\<rparr>"

text \<open>\<open>t_list_with_size::f_push\<close>.  Pushing an element that is in the list already makes it the tail and
  links it to the head, which drops what followed it.\<close>

definition privates_push :: "symbol \<Rightarrow> t_scope \<Rightarrow> t_scope" where
  "privates_push p sc =
     sc\<lparr>v_privates := takeWhile (\<lambda>q. q \<noteq> p) (v_privates sc) @ [p], v_privates_size := Suc (v_privates_size sc)\<rparr>"

definition update_variable :: "symbol \<Rightarrow> (t_variable \<Rightarrow> t_variable) \<Rightarrow> t_scope \<Rightarrow> t_scope" where
  "update_variable s f sc = sc\<lparr>v_variables := map (\<lambda>(k, v). (k, if k = s then f v else v)) (v_variables sc)\<rparr>"

definition add_variable :: "symbol \<Rightarrow> t_scope \<Rightarrow> t_scope" where
  "add_variable s sc =
     (if map_of (v_variables sc) s = None then sc\<lparr>v_variables := v_variables sc @ [(s, t_variable_new)]\<rparr> else sc)"

definition is_shared :: "t_scope \<Rightarrow> symbol \<Rightarrow> bool" where
  "is_shared sc s = (case map_of (v_variables sc) s of None \<Rightarrow> False | Some v \<Rightarrow> v_shared v)"

definition index_of :: "t_scope \<Rightarrow> symbol \<Rightarrow> nat option" where
  "index_of sc s = (case map_of (v_variables sc) s of None \<Rightarrow> None | Some v \<Rightarrow> v_index v)"

text \<open>\<open>f_vary\<close>: every private after \<open>a_p\<close>, all of them when \<open>a_p\<close> is null.\<close>

definition privates_after :: "symbol option \<Rightarrow> symbol list \<Rightarrow> symbol list" where
  "privates_after a_p ps = (case a_p of None \<Rightarrow> ps | Some p \<Rightarrow> tl (dropWhile (\<lambda>q. q \<noteq> p) ps))"

definition f_vary :: "symbol option \<Rightarrow> t_scope \<Rightarrow> t_scope" where
  "f_vary a_p sc =
     fold (\<lambda>p. update_variable p (\<lambda>v. v\<lparr>v_varies := True\<rparr>)) (privates_after a_p (v_privates sc)) sc"

text \<open>\<open>f_classify\<close>: a shared variable leaves the list for a slot of the heap-allocated scope, the others
  are numbered on the stack.  \<open>kept\<close> is the part of the list before the walk.\<close>

fun classify :: "symbol list \<Rightarrow> symbol list \<Rightarrow> t_scope \<Rightarrow> t_scope" where
  "classify kept [] sc = sc\<lparr>v_privates := kept\<rparr>"
| "classify kept (p # ps) sc =
     (if is_shared sc p
      then classify kept ps ((update_variable p (\<lambda>v. v\<lparr>v_index := Some (v_shareds sc)\<rparr>) sc)\<lparr>v_shareds := Suc (v_shareds sc)\<rparr>)
      else classify (kept @ [p]) ps
        ((update_variable p (\<lambda>v. v\<lparr>v_index := Some (v_privates_size sc)\<rparr>) sc)\<lparr>v_privates_size := Suc (v_privates_size sc)\<rparr>))"

definition f_classify :: "symbol \<Rightarrow> t_scope \<Rightarrow> t_scope" where
  "f_classify a_p sc =
     (if v_privates sc \<noteq> [] \<and> a_p = last (v_privates sc) then classify [] (v_privates sc) sc
      else classify (takeWhile (\<lambda>q. q \<noteq> a_p) (v_privates sc) @ [a_p]) (privates_after (Some a_p) (v_privates sc)) sc)"

end
