(* ===== verification/Xm_Parser.thy ===== *)
theory Xm_Parser
  imports Xm_Ast
begin

text \<open>
  The recursive-descent parser (src/src/parser.cc, src/include/xemmai/parser.h) over the scanner of
  \<open>Xm_Lexer\<close>.  A parser is a function of the parser's state; \<^const>\<open>None\<close> is running out of fuel, and the
  termination theorem shows how much fuel is enough.

  Every recursion of the grammar goes through \<open>f_expression\<close>, so each routine takes the parser \<open>E\<close> of
  expressions and the fuel of its own loops, and \<open>f_expression\<close> ties the knot.  The registration of
  constants with the module (\<open>t_script::f_slot\<close>) and the allocation in the arena have no counterpart.
\<close>

section \<open>State and combinators\<close>

record t_parser =
  v_lexer :: t_lexer
  v_scopes :: "t_scope list"
  v_scope :: nat
  v_can_jump :: bool
  v_can_return :: bool

type_synonym 'a parser = "t_parser \<Rightarrow> ('a \<times> t_parser) result option"

definition p_out :: "'a parser" where
  "p_out s = None"

definition p_return :: "'a \<Rightarrow> 'a parser" where
  "p_return x s = Some (Inr (x, s))"

text \<open>\<open>f_throw\<close>: the error also carries the path and the position of the lexer.\<close>

definition p_throw :: "string \<Rightarrow> 'a parser" where
  "p_throw m s = Some (Inl (Thrown (''syntax error: '' @ m)))"

definition p_bind :: "'a parser \<Rightarrow> ('a \<Rightarrow> 'b parser) \<Rightarrow> 'b parser" where
  "p_bind m f s =
     (case m s of
        None \<Rightarrow> None
      | Some (Inl e) \<Rightarrow> Some (Inl e)
      | Some (Inr (x, s1)) \<Rightarrow> f x s1)"

definition p_then :: "unit parser \<Rightarrow> 'b parser \<Rightarrow> 'b parser" where
  "p_then m k = p_bind m (\<lambda>_. k)"

definition p_peek :: "(t_lexer \<Rightarrow> 'a parser) \<Rightarrow> 'a parser" where
  "p_peek f s = f (v_lexer s) s"

definition p_state :: "(t_parser \<Rightarrow> 'a parser) \<Rightarrow> 'a parser" where
  "p_state f s = f s s"

definition p_modify :: "(t_parser \<Rightarrow> t_parser) \<Rightarrow> unit parser" where
  "p_modify f s = Some (Inr ((), f s))"

definition update_scope :: "nat \<Rightarrow> (t_scope \<Rightarrow> t_scope) \<Rightarrow> t_parser \<Rightarrow> t_parser" where
  "update_scope i f s = s\<lparr>v_scopes := (v_scopes s)[i := f (v_scopes s ! i)]\<rparr>"

text \<open>\<open>v_lexer.f_next()\<close>.\<close>

definition next_token :: "wctype \<Rightarrow> unit parser" where
  "next_token lc s =
     (case t_lexer_f_next lc (v_lexer s) of
        Inl e \<Rightarrow> Some (Inl e)
      | Inr l \<Rightarrow> Some (Inr ((), s\<lparr>v_lexer := l\<rparr>)))"

definition f_indent :: "t_lexer \<Rightarrow> nat" where
  "f_indent l = length (v_indent l)"

section \<open>Helpers\<close>

definition f_single_colon :: "t_lexer \<Rightarrow> bool" where
  "f_single_colon l \<longleftrightarrow> v_token l = T_COLON \<and> v_integer l = 1"

definition f_symbol :: "t_lexer \<Rightarrow> symbol" where
  "f_symbol l = v_value l"

definition f_any :: "nat \<Rightarrow> t_token \<Rightarrow> t_lexer \<Rightarrow> bool" where
  "f_any a_indent a_right l \<longleftrightarrow> (\<not> v_newline l \<or> a_indent < f_indent l) \<and> v_token l \<noteq> a_right"

definition f_close :: "wctype \<Rightarrow> nat \<Rightarrow> t_token \<Rightarrow> unit parser" where
  "f_close lc a_indent a_right st =
     (p_peek (\<lambda>l. if (\<not> v_newline l \<or> a_indent \<le> f_indent l) \<and> v_token l = a_right then next_token lc else p_return ())) st"

definition f_variable :: "symbol \<Rightarrow> t_scope \<Rightarrow> t_scope" where
  "f_variable a_symbol sc =
     (if map_of (v_variables sc) a_symbol = None then privates_push a_symbol (add_variable a_symbol sc)
      else update_variable a_symbol (\<lambda>v. v\<lparr>v_varies := True\<rparr>) sc)"

definition expression_tokens :: "t_token list" where
  "expression_tokens =
     [T_EXCLAMATION, T_APOSTROPHE, T_LEFT_PARENTHESIS, T_PLUS, T_HYPHEN, T_COLON, T_ATMARK, T_LEFT_BRACKET,
      T_LEFT_BRACE, T_TILDE, T_NULL, T_TRUE, T_FALSE, T_SYMBOL, T_SELF, T_INTEGER, T_FLOAT, T_STRING, T_IF,
      T_WHILE, T_FOR, T_TRY]"

definition f_has_expression :: "t_lexer \<Rightarrow> bool" where
  "f_has_expression l \<longleftrightarrow> \<not> v_newline l \<and> v_token l \<in> set expression_tokens"

section \<open>Arguments and bodies\<close>

definition f_argument :: "wctype \<Rightarrow> t_node parser \<Rightarrow> nat \<Rightarrow> t_node list \<Rightarrow> (bool \<times> t_node list) parser" where
  "f_argument lc E a_indent a_nodes st =
     (p_bind E (\<lambda>e. p_peek (\<lambda>l.
       if v_token l \<noteq> T_COMMA then p_return (v_newline l \<and> a_indent < f_indent l, a_nodes @ [e])
       else if v_newline l \<and> f_indent l < a_indent then p_return (False, a_nodes @ [e])
       else p_then (next_token lc) (p_return (True, a_nodes @ [e]))))) st"

text \<open>The loop \<open>while (f_argument(indent, *nodes))\<close> of parenthesised expressions.\<close>

fun argument_loop :: "wctype \<Rightarrow> t_node parser \<Rightarrow> nat \<Rightarrow> nat \<Rightarrow> t_node list \<Rightarrow> t_node list parser" where
  "argument_loop lc E 0 a_indent a_nodes st = None"
| "argument_loop lc E (Suc n) a_indent a_nodes st =
     (p_bind (f_argument lc E a_indent a_nodes) (\<lambda>(more, nodes).
       if more then argument_loop lc E n a_indent nodes else p_return nodes)) st"

fun f_arguments :: "wctype \<Rightarrow> t_node parser \<Rightarrow> nat \<Rightarrow> nat \<Rightarrow> t_node list \<Rightarrow> (t_at \<times> nat) list
  \<Rightarrow> (t_node list \<times> (t_at \<times> nat) list) parser" where
  "f_arguments lc E 0 a_indent args expands st = None"
| "f_arguments lc E (Suc n) a_indent args expands st =
     (p_peek (\<lambda>l.
       p_bind (if v_token l = T_ASTERISK
               then p_then (next_token lc) (p_return (expands @ [(v_at l, length args)]))
               else p_return expands) (\<lambda>expands1.
       p_bind (f_argument lc E a_indent args) (\<lambda>(more, args1).
         if more then f_arguments lc E n a_indent args1 expands1 else p_return (args1, expands1))))) st"

fun f_expressions :: "wctype \<Rightarrow> t_node parser \<Rightarrow> nat \<Rightarrow> t_node list \<Rightarrow> t_node list parser" where
  "f_expressions lc E 0 a_nodes st = None"
| "f_expressions lc E (Suc n) a_nodes st =
     (p_bind E (\<lambda>e. p_peek (\<lambda>l.
       if v_newline l \<or> v_token l \<noteq> T_COMMA then p_return (a_nodes @ [e])
       else p_then (next_token lc) (f_expressions lc E n (a_nodes @ [e]))))) st"

definition f_options :: "wctype \<Rightarrow> t_node parser \<Rightarrow> nat \<Rightarrow> t_node option parser" where
  "f_options lc E n st =
     (p_peek (\<lambda>l.
       if v_newline l then p_return None
       else if v_token l = T_SEMICOLON then p_then (next_token lc) (p_return None)
       else p_bind (f_expressions lc E n []) (\<lambda>nodes. p_peek (\<lambda>l1.
         if v_newline l1 then p_return (Some (N_nodes nodes))
         else if v_token l1 \<noteq> T_SEMICOLON then p_throw ''expecting ';'.''
         else p_then (next_token lc) (p_return (Some (N_nodes nodes))))))) st"

text \<open>The loop \<open>do f_expressions(*nodes); while (v_lexer.f_newline() && v_lexer.f_indent() == indent)\<close>.\<close>

fun body_loop :: "wctype \<Rightarrow> t_node parser \<Rightarrow> nat \<Rightarrow> nat \<Rightarrow> t_node list \<Rightarrow> t_node list parser" where
  "body_loop lc E 0 indent nodes st = None"
| "body_loop lc E (Suc n) indent nodes st =
     (p_bind (f_expressions lc E (Suc n) nodes) (\<lambda>nodes1. p_peek (\<lambda>l.
       if v_newline l \<and> f_indent l = indent then body_loop lc E n indent nodes1 else p_return nodes1))) st"

definition f_body :: "wctype \<Rightarrow> t_node parser \<Rightarrow> nat \<Rightarrow> nat \<Rightarrow> t_node parser" where
  "f_body lc E n a_indent st =
     (p_peek (\<lambda>l.
       if \<not> v_newline l then E
       else if a_indent < f_indent l
            then p_bind (body_loop lc E n (f_indent l) []) (\<lambda>nodes. p_peek (\<lambda>l1.
              if f_indent l < f_indent l1 then p_throw ''unexpected indent.'' else p_return (N_nodes nodes)))
            else p_return (N_nodes []))) st"

section \<open>Targets\<close>

text \<open>The loop that follows \<open>outer\<close> colons from the current scope.\<close>

fun walk_outer :: "t_scope list \<Rightarrow> nat \<Rightarrow> nat option \<Rightarrow> nat option option" where
  "walk_outer scopes 0 scope = Some scope"
| "walk_outer scopes (Suc k) None = None"
| "walk_outer scopes (Suc k) (Some i) = walk_outer scopes k (v_outer (scopes ! i))"

text \<open>What an assignment to a symbol and a use of it record in the scope they name.\<close>

definition scope_assign :: "nat \<Rightarrow> symbol \<Rightarrow> t_scope \<Rightarrow> t_scope" where
  "scope_assign outer symbol sc =
     (let sc1 = f_variable symbol sc
      in if 0 < outer then update_variable symbol (\<lambda>v. v\<lparr>v_shared := True, v_varies := True\<rparr>) sc1 else sc1)"

definition scope_refer :: "nat \<Rightarrow> symbol \<Rightarrow> t_scope \<Rightarrow> t_scope" where
  "scope_refer outer symbol sc =
     (if 0 < outer then sc\<lparr>v_unresolveds := List.insert symbol (v_unresolveds sc)\<rparr>
      else sc\<lparr>v_references := List.insert symbol (v_references sc)\<rparr>)"

definition scope_share_self :: "t_scope \<Rightarrow> t_scope" where
  "scope_share_self sc = sc\<lparr>v_self_shared := True\<rparr>"

text \<open>A symbol, read or assigned to.  \<open>scope\<close> is null when the colons lead out of the module's scope.\<close>

definition target_symbol :: "wctype \<Rightarrow> t_node parser \<Rightarrow> bool \<Rightarrow> t_at \<Rightarrow> nat \<Rightarrow> nat option \<Rightarrow> t_node parser" where
  "target_symbol lc E a_assignable a_at outer scope st =
     (p_peek (\<lambda>l. let symbol = f_symbol l in
       p_then (next_token lc) (p_peek (\<lambda>l1.
         if v_token l1 = T_EQUAL then
           (if \<not> a_assignable then p_throw ''can not assign to expression.''
            else case scope of
              None \<Rightarrow> p_throw ''no more outer scope.''
            | Some i \<Rightarrow>
                p_then (next_token lc)
                (p_then (p_modify (update_scope i (scope_assign outer symbol)))
                (p_bind E (\<lambda>value. p_return (N_scope_put a_at outer (i, symbol) value)))))
         else
           p_then (case scope of
              None \<Rightarrow> p_return ()
            | Some i \<Rightarrow> p_modify (update_scope i (scope_refer outer symbol)))
           (p_return (N_symbol_get a_at outer scope symbol)))))) st"

text \<open>The characters after \<open>$\<close>: \<open>@\<close> is the class, \<open>^\<close> the superclass.\<close>

definition self_chain :: "t_at \<Rightarrow> nat \<Rightarrow> wchar list \<Rightarrow> t_node" where
  "self_chain a_at outer cs =
     foldl (\<lambda>t c. if c = W CHR ''@'' then N_class a_at t else N_super a_at t) (N_self a_at outer) cs"

definition target_self :: "wctype \<Rightarrow> t_node parser \<Rightarrow> bool \<Rightarrow> t_at \<Rightarrow> nat \<Rightarrow> nat option \<Rightarrow> t_node parser" where
  "target_self lc E a_assignable a_at outer scope st =
     ((case scope of
        None \<Rightarrow> p_throw ''no more outer scope.''
      | Some i \<Rightarrow>
          p_then (if 0 < outer then p_modify (update_scope i scope_share_self) else p_return ())
          (p_peek (\<lambda>l.
            let target = self_chain a_at outer (v_value l)
            in p_then (next_token lc) (p_peek (\<lambda>l1.
              if \<not> v_newline l1 \<and> v_token l1 = T_SYMBOL then
                (let at1 = v_at l1; key = f_symbol l1 in
                 p_then (next_token lc) (p_peek (\<lambda>l2.
                   if v_token l2 = T_EQUAL then
                     (if \<not> a_assignable then p_throw ''can not assign to expression.''
                      else p_then (next_token lc) (p_bind E (\<lambda>value. p_return (N_object_put at1 target key value))))
                   else p_return (N_object_get at1 target key))))
              else p_return target)))))) st"

definition target_name :: "wctype \<Rightarrow> t_node parser \<Rightarrow> bool \<Rightarrow> t_at \<Rightarrow> t_node parser" where
  "target_name lc E a_assignable a_at st =
     (p_bind
       (p_state (\<lambda>s. let l = v_lexer s in
          if v_token l = T_COLON then
            (let outer = unat (v_integer l) in
             case walk_outer (v_scopes s) outer (Some (v_scope s)) of
               None \<Rightarrow> p_throw ''no more outer scope.''
             | Some scope \<Rightarrow> p_then (next_token lc) (p_return (outer, scope)))
          else p_return (0, Some (v_scope s))))
       (\<lambda>(outer, scope). p_peek (\<lambda>l. case v_token l of
            T_SYMBOL \<Rightarrow> target_symbol lc E a_assignable a_at outer scope
          | T_SELF \<Rightarrow> target_self lc E a_assignable a_at outer scope
          | _ \<Rightarrow> p_throw ''expecting symbol or self.''))) st"

text \<open>Brackets around arguments: \<open>'(...)\<close>, \<open>[...]\<close>, and the call \<open>f(...)\<close>.\<close>

definition bracket_call :: "wctype \<Rightarrow> t_node parser \<Rightarrow> nat \<Rightarrow> t_at \<Rightarrow> t_node \<Rightarrow> t_token \<Rightarrow> t_node parser" where
  "bracket_call lc E n a_at target right st =
     (p_peek (\<lambda>l. let indent = f_indent l in
       p_then (next_token lc)
       (p_bind (p_peek (\<lambda>l1. if f_any indent right l1 then f_arguments lc E n indent [] [] else p_return ([], []))) (\<lambda>(args, expands).
       p_then (f_close lc indent right) (p_return (N_call a_at target args expands)))))) st"

definition target_quote :: "wctype \<Rightarrow> t_node parser \<Rightarrow> nat \<Rightarrow> t_at \<Rightarrow> t_node parser" where
  "target_quote lc E n a_at st =
     (p_then (next_token lc) (p_peek (\<lambda>l. case v_token l of
         T_SYMBOL \<Rightarrow> p_then (next_token lc) (p_return (N_literal_object a_at (O_symbol (f_symbol l))))
       | T_LEFT_PARENTHESIS \<Rightarrow> bracket_call lc E n a_at (N_literal_object a_at O_tuple) T_RIGHT_PARENTHESIS
       | _ \<Rightarrow> p_throw ''expecting symbol or '('.''))) st"

definition target_nodes :: "wctype \<Rightarrow> t_node parser \<Rightarrow> nat \<Rightarrow> t_node parser" where
  "target_nodes lc E n st =
     (p_peek (\<lambda>l. let indent = f_indent l in
       p_then (next_token lc)
       (p_bind (p_peek (\<lambda>l1. if f_any indent T_RIGHT_PARENTHESIS l1 then argument_loop lc E n indent [] else p_return [])) (\<lambda>nodes.
       p_then (f_close lc indent T_RIGHT_PARENTHESIS) (p_return (N_nodes nodes)))))) st"

text \<open>Pairs of a map, up to the closing brace.\<close>

fun pair_loop :: "wctype \<Rightarrow> t_node parser \<Rightarrow> nat \<Rightarrow> nat \<Rightarrow> t_node list \<Rightarrow> t_node list parser" where
  "pair_loop lc E 0 indent args st = None"
| "pair_loop lc E (Suc n) indent args st =
     (p_bind E (\<lambda>key. p_peek (\<lambda>l.
       if \<not> f_single_colon l then p_throw ''expecting ':'.''
       else p_then (next_token lc) (p_bind E (\<lambda>value. p_peek (\<lambda>l1.
         if v_token l1 = T_COMMA then
           (if v_newline l1 \<and> f_indent l1 < indent then p_return (args @ [key, value])
            else p_then (next_token lc) (pair_loop lc E n indent (args @ [key, value])))
         else if \<not> v_newline l1 \<or> f_indent l1 \<le> indent then p_return (args @ [key, value])
         else pair_loop lc E n indent (args @ [key, value]))))))) st"

definition target_map :: "wctype \<Rightarrow> t_node parser \<Rightarrow> nat \<Rightarrow> t_at \<Rightarrow> t_node parser" where
  "target_map lc E n a_at st =
     (p_peek (\<lambda>l. let indent = f_indent l in
       p_then (next_token lc)
       (p_bind (p_peek (\<lambda>l1. if f_any indent T_RIGHT_BRACE l1 then pair_loop lc E n indent [] else p_return [])) (\<lambda>args.
       p_then (f_close lc indent T_RIGHT_BRACE) (p_return (N_call a_at (N_literal_object a_at O_map) args [])))))) st"

section \<open>Lambdas\<close>

definition add_parameter :: "symbol \<Rightarrow> t_scope \<Rightarrow> t_scope" where
  "add_parameter s sc = privates_push s (add_variable s sc)"

text \<open>The parameters: whether the last one takes the rest, and the default values so far.\<close>

fun lambda_parameters :: "wctype \<Rightarrow> t_node parser \<Rightarrow> nat \<Rightarrow> nat \<Rightarrow> t_node list \<Rightarrow> (bool \<times> t_node list) parser" where
  "lambda_parameters lc E 0 i defaults st = None"
| "lambda_parameters lc E (Suc n) i defaults st =
     (p_peek (\<lambda>l. case v_token l of
        T_SYMBOL \<Rightarrow>
          p_then (p_modify (update_scope i (add_parameter (f_symbol l))))
          (p_then (next_token lc)
          (p_bind (p_peek (\<lambda>l1.
             if v_token l1 = T_EQUAL then p_then (next_token lc) (p_bind E (\<lambda>e. p_return (defaults @ [e])))
             else if defaults \<noteq> [] then p_throw ''expecting '='.''
             else p_return defaults)) (\<lambda>defaults1. p_peek (\<lambda>l2.
             if v_newline l2 \<and> v_token l2 \<noteq> T_RIGHT_PARENTHESIS then lambda_parameters lc E n i defaults1
             else if v_token l2 = T_COMMA then p_then (next_token lc) (lambda_parameters lc E n i defaults1)
             else p_return (False, defaults1)))))
      | T_ASTERISK \<Rightarrow>
          p_then (next_token lc) (p_peek (\<lambda>l1.
            if v_token l1 \<noteq> T_SYMBOL then p_throw ''expecting symbol.''
            else p_then (p_modify (update_scope i (add_parameter (f_symbol l1))))
              (p_then (next_token lc) (p_return (True, defaults)))))
      | _ \<Rightarrow> p_throw ''expecting symbol or '*'.'')) st"

text \<open>Free symbols of the finished lambda go to the enclosing scope; its own variables that an inner
  scope uses become shared.\<close>

definition resolve_lambda :: "nat \<Rightarrow> nat \<Rightarrow> t_parser \<Rightarrow> t_parser" where
  "resolve_lambda i outer s =
     (let sc = v_scopes s ! i;
          own = (\<lambda>x. map_of (v_variables sc) x \<noteq> None);
          sc1 = fold (\<lambda>x. update_variable x (\<lambda>v. v\<lparr>v_shared := True\<rparr>)) (filter own (v_unresolveds sc)) sc;
          free = filter (\<lambda>x. \<not> own x) (v_unresolveds sc) @ filter (\<lambda>x. \<not> own x) (v_references sc)
      in update_scope outer (\<lambda>o1. o1\<lparr>v_unresolveds := fold List.insert free (v_unresolveds o1)\<rparr>)
           (update_scope i (\<lambda>_. sc1) s))"

text \<open>The walk over the arguments, \<open>p = p->v_next\<close> around the circular list.\<close>

fun index_arguments :: "nat \<Rightarrow> nat \<Rightarrow> t_scope \<Rightarrow> t_scope" where
  "index_arguments i 0 sc = sc"
| "index_arguments i (Suc k) sc =
     (let p = v_privates sc ! (i mod length (v_privates sc))
      in index_arguments (Suc i) k
           (if is_shared sc p
            then (update_variable p (\<lambda>v. v\<lparr>v_index := Some (v_shareds sc)\<rparr>) sc)\<lparr>v_shareds := Suc (v_shareds sc)\<rparr>
            else update_variable p (\<lambda>v. v\<lparr>v_index := Some i\<rparr>) sc))"

definition finish_lambda :: "nat \<Rightarrow> t_scope \<Rightarrow> t_scope" where
  "finish_lambda arguments sc0 =
     (let sc = (if v_self_shared sc0 then sc0\<lparr>v_shareds := Suc (v_shareds sc0)\<rparr> else sc0);
          sc1 = index_arguments 0 arguments sc;
          ps = v_privates sc1
      in if 0 < arguments then
           (let p = ps ! ((arguments - 1) mod length ps)
            in if p \<noteq> last ps then f_classify p (sc1\<lparr>v_privates_size := arguments\<rparr>) else sc1)
         else if ps \<noteq> [] then f_classify (last ps) (sc1\<lparr>v_privates_size := arguments\<rparr>)
         else sc1)"

text \<open>The parameter list, if there is one.\<close>

definition lambda_head :: "wctype \<Rightarrow> t_node parser \<Rightarrow> nat \<Rightarrow> nat \<Rightarrow> (bool \<times> t_node list) parser" where
  "lambda_head lc E n i st =
     (p_peek (\<lambda>l.
       if \<not> v_newline l \<and> v_token l = T_LEFT_PARENTHESIS then
         p_then (next_token lc) (p_peek (\<lambda>l1.
           p_bind (if v_token l1 \<noteq> T_RIGHT_PARENTHESIS then
               p_bind (lambda_parameters lc E n i []) (\<lambda>r. p_peek (\<lambda>l2.
                 if v_token l2 \<noteq> T_RIGHT_PARENTHESIS then p_throw ''expecting ')'.'' else p_return r))
             else p_return (False, [])) (\<lambda>r. p_then (next_token lc) (p_return r))))
       else p_return (False, []))) st"

text \<open>Entering the scope \<open>i\<close> of a lambda, and leaving it for the state \<open>s\<close> before.\<close>

definition enter_lambda :: "nat \<Rightarrow> t_parser \<Rightarrow> t_parser" where
  "enter_lambda i s = (update_scope (v_scope s) (\<lambda>sc. sc\<lparr>v_scope_shared := True\<rparr>) s)\<lparr>v_scope := i, v_can_return := True\<rparr>"

definition leave_lambda :: "nat \<Rightarrow> nat \<Rightarrow> t_parser \<Rightarrow> t_parser \<Rightarrow> t_parser" where
  "leave_lambda i arguments s s1 =
     update_scope i (finish_lambda arguments)
       ((resolve_lambda i (v_scope s) s1)\<lparr>v_scope := v_scope s, v_can_jump := v_can_jump s, v_can_return := v_can_return s\<rparr>)"

definition lambda_body :: "wctype \<Rightarrow> t_node parser \<Rightarrow> nat \<Rightarrow> t_at \<Rightarrow> nat \<Rightarrow> nat \<Rightarrow> bool \<times> t_node list \<Rightarrow> t_node parser" where
  "lambda_body lc E n a_at indent i head st =
     (p_state (\<lambda>s. let arguments = length (v_variables (v_scopes s ! i)) in
       p_then (p_modify (enter_lambda i))
       (p_bind (f_body lc E n indent) (\<lambda>body.
       p_then (p_modify (leave_lambda i arguments s))
       (p_return (N_lambda a_at i (fst head) arguments (snd head) body)))))) st"

definition target_lambda :: "wctype \<Rightarrow> t_node parser \<Rightarrow> nat \<Rightarrow> t_at \<Rightarrow> t_node parser" where
  "target_lambda lc E n a_at st =
     (p_peek (\<lambda>l. let indent = f_indent l in
       p_then (next_token lc)
       (p_state (\<lambda>s. let i = length (v_scopes s) in
         p_then (p_modify (\<lambda>s1. s1\<lparr>v_scopes := v_scopes s @ [t_scope_new (Some (v_scope s))]\<rparr>))
         (p_bind (lambda_head lc E n i) (lambda_body lc E n a_at indent i)))))) st"

section \<open>Primary expressions\<close>

definition literal :: "wctype \<Rightarrow> t_node \<Rightarrow> t_node parser" where
  "literal lc node st = (p_then (next_token lc) (p_return node)) st"

text \<open>\<open>break\<close> and \<open>return\<close>: the value is null when no expression follows.\<close>

definition jump :: "wctype \<Rightarrow> t_node parser \<Rightarrow> (t_node \<Rightarrow> t_node) \<Rightarrow> t_at \<Rightarrow> t_node parser" where
  "jump lc E build a_at st =
     (p_then (next_token lc) (p_peek (\<lambda>l.
       if f_has_expression l then p_bind E (\<lambda>e. p_return (build e)) else p_return (build (N_null a_at))))) st"

definition f_target :: "wctype \<Rightarrow> t_node parser \<Rightarrow> nat \<Rightarrow> bool \<Rightarrow> t_node parser" where
  "f_target lc E n a_assignable st =
     (p_state (\<lambda>s. let l = v_lexer s; a_at = v_at l in
       case v_token l of
         T_COLON \<Rightarrow> target_name lc E a_assignable a_at
       | T_SYMBOL \<Rightarrow> target_name lc E a_assignable a_at
       | T_SELF \<Rightarrow> target_name lc E a_assignable a_at
       | T_APOSTROPHE \<Rightarrow> target_quote lc E n a_at
       | T_LEFT_PARENTHESIS \<Rightarrow> target_nodes lc E n
       | T_ATMARK \<Rightarrow> target_lambda lc E n a_at
       | T_LEFT_BRACKET \<Rightarrow> bracket_call lc E n a_at (N_literal_object a_at O_list) T_RIGHT_BRACKET
       | T_LEFT_BRACE \<Rightarrow> target_map lc E n a_at
       | T_NULL \<Rightarrow> literal lc (N_null a_at)
       | T_TRUE \<Rightarrow> literal lc (N_literal_bool a_at True)
       | T_FALSE \<Rightarrow> literal lc (N_literal_bool a_at False)
       | T_INTEGER \<Rightarrow> literal lc (N_literal_integer a_at (v_integer l))
       | T_FLOAT \<Rightarrow> literal lc (N_literal_float a_at (v_float l))
       | T_STRING \<Rightarrow> literal lc (N_literal_object a_at (O_string (v_string l)))
       | T_BREAK \<Rightarrow> (if v_can_jump s then jump lc E N_break a_at else p_throw ''expecting inside loop.'')
       | T_CONTINUE \<Rightarrow> (if v_can_jump s then literal lc (N_continue a_at) else p_throw ''expecting inside loop.'')
       | T_RETURN \<Rightarrow> (if v_can_return s then jump lc E N_return a_at else p_throw ''expecting within lambda.'')
       | T_THROW \<Rightarrow> p_then (next_token lc) (p_bind E (\<lambda>e. p_return (N_throw a_at e)))
       | _ \<Rightarrow> p_throw ''unexpected token.'')) st"

section \<open>Actions\<close>

text \<open>A parenthesised key, and \<open>= value\<close> after an assignable target.\<close>

definition indirect_key :: "wctype \<Rightarrow> t_node parser \<Rightarrow> t_token \<Rightarrow> t_node parser" where
  "indirect_key lc E right st =
     (p_peek (\<lambda>l. let indent = f_indent l in
       p_then (next_token lc) (p_bind E (\<lambda>key. p_then (f_close lc indent right) (p_return key))))) st"

definition assigned :: "wctype \<Rightarrow> t_node parser \<Rightarrow> bool \<Rightarrow> (t_node \<Rightarrow> t_node) \<Rightarrow> t_node parser" where
  "assigned lc E a_assignable build st =
     ((if \<not> a_assignable then p_throw ''can not assign to expression.''
      else p_then (next_token lc) (p_bind E (\<lambda>value. p_return (build value))))) st"

text \<open>What follows a dot: the new target, and whether the loop goes on.\<close>

definition dot_indirect :: "wctype \<Rightarrow> t_node parser \<Rightarrow> t_node \<Rightarrow> bool \<Rightarrow> t_at \<Rightarrow> (bool \<times> t_node) parser" where
  "dot_indirect lc E a_target a_assignable a_at st =
     (p_bind (indirect_key lc E T_RIGHT_PARENTHESIS) (\<lambda>key. p_peek (\<lambda>l.
       if v_token l = T_EQUAL then
         p_bind (assigned lc E a_assignable (N_object_put_indirect a_at a_target key)) (\<lambda>t. p_return (False, t))
       else p_return (True, N_object_get_indirect a_at a_target key)))) st"

definition dot_symbol :: "wctype \<Rightarrow> t_node parser \<Rightarrow> t_node \<Rightarrow> bool \<Rightarrow> t_at \<Rightarrow> (bool \<times> t_node) parser" where
  "dot_symbol lc E a_target a_assignable a_at st =
     (p_peek (\<lambda>l. let key = f_symbol l in
       p_then (next_token lc) (p_peek (\<lambda>l1.
         if v_token l1 = T_EQUAL then
           p_bind (assigned lc E a_assignable (N_object_put a_at a_target key)) (\<lambda>t. p_return (False, t))
         else p_return (True, N_object_get a_at a_target key))))) st"

definition dot_has :: "wctype \<Rightarrow> t_node parser \<Rightarrow> t_node \<Rightarrow> t_at \<Rightarrow> (bool \<times> t_node) parser" where
  "dot_has lc E a_target a_at st =
     (p_then (next_token lc) (p_peek (\<lambda>l. case v_token l of
         T_LEFT_PARENTHESIS \<Rightarrow>
           p_bind (indirect_key lc E T_RIGHT_PARENTHESIS) (\<lambda>key. p_return (True, N_object_has_indirect a_at a_target key))
       | T_SYMBOL \<Rightarrow> p_then (next_token lc) (p_return (True, N_object_has a_at a_target (f_symbol l)))
       | _ \<Rightarrow> p_throw ''expecting '(' or symbol.''))) st"

definition action_dot :: "wctype \<Rightarrow> t_node parser \<Rightarrow> t_node \<Rightarrow> bool \<Rightarrow> t_at \<Rightarrow> (bool \<times> t_node) parser" where
  "action_dot lc E a_target a_assignable a_at st =
     (p_then (next_token lc) (p_peek (\<lambda>l. case v_token l of
         T_LEFT_PARENTHESIS \<Rightarrow> dot_indirect lc E a_target a_assignable a_at
       | T_SYMBOL \<Rightarrow> dot_symbol lc E a_target a_assignable a_at
       | T_ATMARK \<Rightarrow> p_then (next_token lc) (p_return (True, N_class a_at a_target))
       | T_HAT \<Rightarrow> p_then (next_token lc) (p_return (True, N_super a_at a_target))
       | T_QUESTION \<Rightarrow> dot_has lc E a_target a_at
       | _ \<Rightarrow> p_throw ''expecting '(' or '?' or '@' or '^' or symbol.''))) st"

fun f_action :: "wctype \<Rightarrow> t_node parser \<Rightarrow> nat \<Rightarrow> nat \<Rightarrow> t_node \<Rightarrow> bool \<Rightarrow> t_node parser" where
  "f_action lc E 0 a_indent a_target a_assignable st = None"
| "f_action lc E (Suc n) a_indent a_target a_assignable st =
     (p_peek (\<lambda>l.
       if \<not> v_newline l \<or> a_indent < f_indent l \<and> v_token l = T_DOT then
         (case v_token l of
            T_LEFT_PARENTHESIS \<Rightarrow>
              p_bind (bracket_call lc E (Suc n) (v_at l) a_target T_RIGHT_PARENTHESIS) (\<lambda>t.
                f_action lc E n a_indent t a_assignable)
          | T_DOT \<Rightarrow>
              p_bind (action_dot lc E a_target a_assignable (v_at l)) (\<lambda>(more, t).
                if more then f_action lc E n a_indent t a_assignable else p_return t)
          | T_LEFT_BRACKET \<Rightarrow>
              p_bind (indirect_key lc E T_RIGHT_BRACKET) (\<lambda>index. p_peek (\<lambda>l1.
                if v_token l1 = T_EQUAL then assigned lc E a_assignable (N_set_at (v_at l) a_target index)
                else f_action lc E n a_indent (N_get_at (v_at l) a_target index) a_assignable))
          | _ \<Rightarrow> p_return a_target)
       else p_return a_target)) st"

section \<open>Operators\<close>

fun unary_instruction :: "t_token \<Rightarrow> unop option" where
  "unary_instruction T_PLUS = Some U_PLUS"
| "unary_instruction T_HYPHEN = Some U_MINUS"
| "unary_instruction T_EXCLAMATION = Some U_NOT"
| "unary_instruction T_TILDE = Some U_COMPLEMENT"
| "unary_instruction _ = None"

text \<open>A sign, or the complement, before a number literal makes another literal.\<close>

definition signed_literal :: "unop \<Rightarrow> t_at \<Rightarrow> t_lexer \<Rightarrow> t_node option" where
  "signed_literal op a_at l =
     (case op of
        U_PLUS \<Rightarrow>
          (if v_token l = T_INTEGER then Some (N_literal_integer a_at (v_integer l))
           else if v_token l = T_FLOAT then Some (N_literal_float a_at (v_float l)) else None)
      | U_MINUS \<Rightarrow>
          (if v_token l = T_INTEGER then Some (N_literal_integer a_at (- v_integer l))
           else if v_token l = T_FLOAT then Some (N_literal_float a_at (f64_neg (v_float l))) else None)
      | U_COMPLEMENT \<Rightarrow>
          (if v_token l = T_INTEGER then Some (N_literal_integer a_at (not (v_integer l))) else None)
      | U_NOT \<Rightarrow> None)"

fun f_unary :: "wctype \<Rightarrow> t_node parser \<Rightarrow> nat \<Rightarrow> bool \<Rightarrow> t_node parser" where
  "f_unary lc E 0 a_assignable st = None"
| "f_unary lc E (Suc n) a_assignable st =
     (p_peek (\<lambda>l. let indent = f_indent l in
       case unary_instruction (v_token l) of
         None \<Rightarrow> p_bind (f_target lc E n a_assignable) (\<lambda>t. f_action lc E (Suc n) indent t a_assignable)
       | Some op \<Rightarrow>
           p_then (next_token lc) (p_peek (\<lambda>l1.
             case signed_literal op (v_at l) l1 of
               Some t \<Rightarrow> p_then (next_token lc) (f_action lc E (Suc n) indent t a_assignable)
             | None \<Rightarrow> p_bind (f_unary lc E n False) (\<lambda>e. p_return (N_unary (v_at l) op e)))))) st"

text \<open>The loop that every level of left-associative operators runs.\<close>

fun binary_loop :: "wctype \<Rightarrow> (t_token \<Rightarrow> binop option) \<Rightarrow> t_node parser \<Rightarrow> nat \<Rightarrow> t_node \<Rightarrow> t_node parser" where
  "binary_loop lc ops operand 0 node st = None"
| "binary_loop lc ops operand (Suc n) node st =
     (p_peek (\<lambda>l.
       if v_newline l then p_return node
       else case ops (v_token l) of
              None \<Rightarrow> p_return node
            | Some op \<Rightarrow>
                p_then (next_token lc) (p_bind operand (\<lambda>right.
                  binary_loop lc ops operand n (N_binary (v_at l) op node right))))) st"

fun multiplicative_instruction :: "t_token \<Rightarrow> binop option" where
  "multiplicative_instruction T_ASTERISK = Some B_MULTIPLY"
| "multiplicative_instruction T_SLASH = Some B_DIVIDE"
| "multiplicative_instruction T_PERCENT = Some B_MODULUS"
| "multiplicative_instruction _ = None"

fun additive_instruction :: "t_token \<Rightarrow> binop option" where
  "additive_instruction T_PLUS = Some B_ADD"
| "additive_instruction T_HYPHEN = Some B_SUBTRACT"
| "additive_instruction _ = None"

fun shift_instruction :: "t_token \<Rightarrow> binop option" where
  "shift_instruction T_LEFT_SHIFT = Some B_LEFT_SHIFT"
| "shift_instruction T_RIGHT_SHIFT = Some B_RIGHT_SHIFT"
| "shift_instruction _ = None"

fun relational_instruction :: "t_token \<Rightarrow> binop option" where
  "relational_instruction T_LESS = Some B_LESS"
| "relational_instruction T_LESS_EQUAL = Some B_LESS_EQUAL"
| "relational_instruction T_GREATER = Some B_GREATER"
| "relational_instruction T_GREATER_EQUAL = Some B_GREATER_EQUAL"
| "relational_instruction _ = None"

fun equality_instruction :: "t_token \<Rightarrow> binop option" where
  "equality_instruction T_EQUALS = Some B_EQUALS"
| "equality_instruction T_NOT_EQUALS = Some B_NOT_EQUALS"
| "equality_instruction T_IDENTICAL = Some B_IDENTICAL"
| "equality_instruction T_NOT_IDENTICAL = Some B_NOT_IDENTICAL"
| "equality_instruction _ = None"

definition f_multiplicative :: "wctype \<Rightarrow> t_node parser \<Rightarrow> nat \<Rightarrow> bool \<Rightarrow> t_node parser" where
  "f_multiplicative lc E n a_assignable st =
     (p_bind (f_unary lc E n a_assignable) (binary_loop lc multiplicative_instruction (f_unary lc E n False) n)) st"

definition f_additive :: "wctype \<Rightarrow> t_node parser \<Rightarrow> nat \<Rightarrow> bool \<Rightarrow> t_node parser" where
  "f_additive lc E n a_assignable st =
     (p_bind (f_multiplicative lc E n a_assignable) (binary_loop lc additive_instruction (f_multiplicative lc E n False) n)) st"

definition f_shift :: "wctype \<Rightarrow> t_node parser \<Rightarrow> nat \<Rightarrow> bool \<Rightarrow> t_node parser" where
  "f_shift lc E n a_assignable st =
     (p_bind (f_additive lc E n a_assignable) (binary_loop lc shift_instruction (f_additive lc E n False) n)) st"

definition f_relational :: "wctype \<Rightarrow> t_node parser \<Rightarrow> nat \<Rightarrow> bool \<Rightarrow> t_node parser" where
  "f_relational lc E n a_assignable st =
     (p_bind (f_shift lc E n a_assignable) (binary_loop lc relational_instruction (f_shift lc E n False) n)) st"

definition f_equality :: "wctype \<Rightarrow> t_node parser \<Rightarrow> nat \<Rightarrow> bool \<Rightarrow> t_node parser" where
  "f_equality lc E n a_assignable st =
     (p_bind (f_relational lc E n a_assignable) (binary_loop lc equality_instruction (f_relational lc E n False) n)) st"

text \<open>The levels of one operator each.\<close>

definition only :: "t_token \<Rightarrow> binop \<Rightarrow> t_token \<Rightarrow> binop option" where
  "only t op t1 = (if t1 = t then Some op else None)"

definition f_and :: "wctype \<Rightarrow> t_node parser \<Rightarrow> nat \<Rightarrow> bool \<Rightarrow> t_node parser" where
  "f_and lc E n a_assignable st =
     (p_bind (f_equality lc E n a_assignable) (binary_loop lc (only T_AMPERSAND B_AND) (f_equality lc E n False) n)) st"

definition f_xor :: "wctype \<Rightarrow> t_node parser \<Rightarrow> nat \<Rightarrow> bool \<Rightarrow> t_node parser" where
  "f_xor lc E n a_assignable st =
     (p_bind (f_and lc E n a_assignable) (binary_loop lc (only T_HAT B_XOR) (f_and lc E n False) n)) st"

definition f_or :: "wctype \<Rightarrow> t_node parser \<Rightarrow> nat \<Rightarrow> bool \<Rightarrow> t_node parser" where
  "f_or lc E n a_assignable st =
     (p_bind (f_xor lc E n a_assignable) (binary_loop lc (only T_BAR B_OR) (f_xor lc E n False) n)) st"

text \<open>The short-circuit operators become conditionals.\<close>

fun branch_loop :: "wctype \<Rightarrow> t_token \<Rightarrow> (t_node \<Rightarrow> t_node \<Rightarrow> t_node) \<Rightarrow> t_node parser \<Rightarrow> nat \<Rightarrow> t_node \<Rightarrow> t_node parser" where
  "branch_loop lc t build operand 0 node st = None"
| "branch_loop lc t build operand (Suc n) node st =
     (p_peek (\<lambda>l.
       if \<not> v_newline l \<and> v_token l = t then
         p_then (next_token lc) (p_bind operand (\<lambda>right. branch_loop lc t build operand n (build node right)))
       else p_return node)) st"

definition and_also :: "t_node \<Rightarrow> t_node \<Rightarrow> t_node" where
  "and_also node right = N_if (Some node) right N_preserve"

definition or_else :: "t_node \<Rightarrow> t_node \<Rightarrow> t_node" where
  "or_else node right = N_if (Some node) N_preserve right"

definition f_and_also :: "wctype \<Rightarrow> t_node parser \<Rightarrow> nat \<Rightarrow> bool \<Rightarrow> t_node parser" where
  "f_and_also lc E n a_assignable st =
     (p_bind (f_or lc E n a_assignable) (branch_loop lc T_AND_ALSO and_also (f_or lc E n False) n)) st"

definition f_or_else :: "wctype \<Rightarrow> t_node parser \<Rightarrow> nat \<Rightarrow> bool \<Rightarrow> t_node parser" where
  "f_or_else lc E n a_assignable st =
     (p_bind (f_and_also lc E n a_assignable) (branch_loop lc T_OR_ELSE or_else (f_and_also lc E n False) n)) st"

fun f_conditional :: "wctype \<Rightarrow> t_node parser \<Rightarrow> nat \<Rightarrow> bool \<Rightarrow> t_node parser" where
  "f_conditional lc E 0 a_assignable st = None"
| "f_conditional lc E (Suc n) a_assignable st =
     (p_bind (f_or_else lc E (Suc n) a_assignable) (\<lambda>node. p_peek (\<lambda>l.
       if v_newline l \<or> v_token l \<noteq> T_QUESTION then p_return node
       else p_then (next_token lc) (p_bind (f_conditional lc E n False) (\<lambda>x. p_peek (\<lambda>l1.
         if \<not> f_single_colon l1 then p_throw ''expecting ':'.''
         else p_then (next_token lc) (p_bind (f_conditional lc E n False) (\<lambda>y. p_return (N_if (Some node) x y))))))))) st"

section \<open>Statements\<close>

definition p_flags :: "bool \<Rightarrow> bool \<Rightarrow> unit parser" where
  "p_flags can_jump can_return st = (p_modify (\<lambda>s. s\<lparr>v_can_jump := can_jump, v_can_return := can_return\<rparr>)) st"

definition tail_of :: "t_parser \<Rightarrow> symbol option" where
  "tail_of s = (let ps = v_privates (v_scopes s ! v_scope s) in if ps = [] then None else Some (last ps))"

text \<open>The body of a loop: jumps are allowed in it, and the variables it creates vary.\<close>

definition loop_body :: "wctype \<Rightarrow> t_node parser \<Rightarrow> nat \<Rightarrow> nat \<Rightarrow> symbol option \<Rightarrow> t_node parser" where
  "loop_body lc E n indent tail st =
     (p_state (\<lambda>s.
       p_then (p_flags True (v_can_return s))
       (p_bind (f_body lc E n indent) (\<lambda>body.
       p_then (p_state (\<lambda>s1. p_flags (v_can_jump s) (v_can_return s1)))
       (p_then (p_state (\<lambda>s1. p_modify (update_scope (v_scope s1) (f_vary tail)))) (p_return body)))))) st"

definition expression_if :: "wctype \<Rightarrow> t_node parser \<Rightarrow> nat \<Rightarrow> t_node parser" where
  "expression_if lc E n st =
     (p_peek (\<lambda>l. let a_at = v_at l; indent = f_indent l in
       p_then (next_token lc)
       (p_bind (f_options lc E n) (\<lambda>condition.
       p_bind (f_body lc E n indent) (\<lambda>x. p_peek (\<lambda>l1.
         if (\<not> v_newline l1 \<or> f_indent l1 = indent) \<and> v_token l1 = T_ELSE
         then p_then (next_token lc) (p_bind (f_body lc E n indent) (\<lambda>y. p_return (N_if condition x y)))
         else p_return (N_if condition x (N_null a_at)))))))) st"

definition expression_while :: "wctype \<Rightarrow> t_node parser \<Rightarrow> nat \<Rightarrow> t_node parser" where
  "expression_while lc E n st =
     (p_peek (\<lambda>l. let indent = f_indent l in
       p_then (next_token lc)
       (p_state (\<lambda>s. let tail = tail_of s in
       p_bind (f_options lc E n) (\<lambda>condition.
       p_bind (loop_body lc E n indent tail) (\<lambda>body. p_return (N_while condition body))))))) st"

definition expression_for :: "wctype \<Rightarrow> t_node parser \<Rightarrow> nat \<Rightarrow> t_node parser" where
  "expression_for lc E n st =
     (p_peek (\<lambda>l. let indent = f_indent l in
       p_then (next_token lc)
       (p_bind (f_options lc E n) (\<lambda>initialization.
       p_state (\<lambda>s. let tail = tail_of s in
       p_bind (f_options lc E n) (\<lambda>condition.
       p_bind (f_options lc E n) (\<lambda>step.
       p_bind (loop_body lc E n indent tail) (\<lambda>body.
         p_return (N_for initialization condition step body))))))))) st"

text \<open>The \<open>catch\<close> clauses of a \<open>try\<close>.\<close>

fun catch_loop :: "wctype \<Rightarrow> t_node parser \<Rightarrow> nat \<Rightarrow> nat \<Rightarrow> (t_node \<times> variable_ref \<times> t_node) list
  \<Rightarrow> (t_node \<times> variable_ref \<times> t_node) list parser" where
  "catch_loop lc E 0 indent catches st = None"
| "catch_loop lc E (Suc n) indent catches st =
     (p_peek (\<lambda>l.
       if f_indent l = indent \<and> v_token l = T_CATCH then
         p_then (next_token lc) (p_bind E (\<lambda>expression. p_state (\<lambda>s. let l1 = v_lexer s in
           if v_token l1 \<noteq> T_SYMBOL then p_throw ''expecting symbol.''
           else p_then (next_token lc)
             (p_then (p_modify (update_scope (v_scope s) (f_variable (f_symbol l1))))
             (p_bind (f_body lc E n indent) (\<lambda>body.
               catch_loop lc E n indent (catches @ [(expression, (v_scope s, f_symbol l1), body)])))))))
       else p_return catches)) st"

text \<open>The body of \<open>finally\<close>: nothing may jump out of it.\<close>

definition finally_body :: "wctype \<Rightarrow> t_node parser \<Rightarrow> nat \<Rightarrow> nat \<Rightarrow> t_node parser" where
  "finally_body lc E n indent st =
     (p_state (\<lambda>s.
       p_then (p_flags False False)
       (p_bind (f_body lc E n indent) (\<lambda>body.
       p_then (p_flags (v_can_jump s) (v_can_return s)) (p_return body))))) st"

definition expression_try :: "wctype \<Rightarrow> t_node parser \<Rightarrow> nat \<Rightarrow> t_node parser" where
  "expression_try lc E n st =
     (p_peek (\<lambda>l. let indent = f_indent l in
       p_then (next_token lc)
       (p_bind (f_body lc E n indent) (\<lambda>body.
       p_bind (catch_loop lc E n indent []) (\<lambda>catches. p_peek (\<lambda>l1.
         if f_indent l1 = indent \<and> v_token l1 = T_FINALLY then
           p_then (next_token lc)
           (p_bind (finally_body lc E n indent) (\<lambda>final. p_return (N_try body catches (Some final))))
         else if catches = [] then p_throw ''expecting 'finally'.''
         else p_return (N_try body catches None))))))) st"

fun f_expression :: "wctype \<Rightarrow> nat \<Rightarrow> t_node parser" where
  "f_expression lc 0 st = None"
| "f_expression lc (Suc n) st =
     (p_peek (\<lambda>l. case v_token l of
         T_IF \<Rightarrow> expression_if lc (f_expression lc n) (Suc n)
       | T_WHILE \<Rightarrow> expression_while lc (f_expression lc n) (Suc n)
       | T_FOR \<Rightarrow> expression_for lc (f_expression lc n) (Suc n)
       | T_TRY \<Rightarrow> expression_try lc (f_expression lc n) (Suc n)
       | _ \<Rightarrow> f_conditional lc (f_expression lc n) (Suc n) True)) st"

section \<open>The whole script\<close>

fun program_loop :: "wctype \<Rightarrow> t_node parser \<Rightarrow> nat \<Rightarrow> nat \<Rightarrow> t_node list \<Rightarrow> t_node list parser" where
  "program_loop lc E 0 indent nodes st = None"
| "program_loop lc E (Suc n) indent nodes st =
     (p_bind (f_expressions lc E (Suc n) nodes) (\<lambda>nodes1. p_peek (\<lambda>l.
       if v_token l = T_EOF then p_return nodes1
       else if \<not> v_newline l then p_throw ''expecting newline.''
       else if f_indent l \<noteq> indent then p_throw ''unexpected indent.''
       else program_loop lc E n indent nodes1))) st"

text \<open>The end of \<open>operator()\<close>: the variables that inner scopes use are shared, and all are numbered.\<close>

definition finish_program :: "t_scope \<Rightarrow> t_scope" where
  "finish_program sc =
     (let sc1 = fold (\<lambda>x. update_variable x (\<lambda>v. v\<lparr>v_shared := True\<rparr>))
            (filter (\<lambda>x. map_of (v_variables sc) x \<noteq> None) (v_unresolveds sc)) sc;
          sc2 = (if v_self_shared sc1 then sc1\<lparr>v_shareds := Suc (v_shareds sc1)\<rparr> else sc1)
      in if v_privates sc2 \<noteq> [] then f_classify (last (v_privates sc2)) (sc2\<lparr>v_privates_size := 0\<rparr>) else sc2)"

definition t_parser_run :: "wctype \<Rightarrow> nat \<Rightarrow> t_node parser" where
  "t_parser_run lc n st =
     (p_bind (p_peek (\<lambda>l. if v_token l = T_EOF then p_return [] else program_loop lc (f_expression lc n) n (f_indent l) [])) (\<lambda>nodes.
     p_then (p_state (\<lambda>s. p_modify (update_scope (v_scope s) finish_program))) (p_return (N_nodes nodes)))) st"

text \<open>\<open>t_parser::t_parser\<close> on the scope of a module, and the run of it.\<close>

definition parse_script :: "wctype \<Rightarrow> nat \<Rightarrow> wchar list \<Rightarrow> (t_node \<times> t_parser) result option" where
  "parse_script lc n text =
     (case t_lexer_new lc text of
        Inl e \<Rightarrow> Some (Inl e)
      | Inr l \<Rightarrow> t_parser_run lc n
          \<lparr>v_lexer = l, v_scopes = [t_scope_new None], v_scope = 0, v_can_jump = False, v_can_return = False\<rparr>)"

end
