(* ===== verification/Xm_Parser_Correct.thy ===== *)
theory Xm_Parser_Correct
  imports Xm_Parser
begin

text \<open>
  The parser of \<open>Xm_Parser\<close> returns on every input, and what it builds is well formed.

  \<open>holds Q r\<close> says that the run \<open>r\<close> ends, and that \<open>Q\<close> is true of its result when it is not an error.
  Every routine of the grammar has one lemma \<open>..._holds\<close>: started in a state that satisfies
  \<open>parser_ok\<close>, it uses up input (\<open>budget\<close>), it leaves the flags and the current scope as they were and
  scopes only grow (\<open>keeps\<close>), and its nodes satisfy \<open>good\<close>.  The rules \<open>..._go\<close> carry these facts along a
  sequence of steps, so that the proof of a routine follows its text.
\<close>

section \<open>Weakest preconditions\<close>

definition holds :: "('a \<Rightarrow> t_parser \<Rightarrow> bool) \<Rightarrow> ('a \<times> t_parser) result option \<Rightarrow> bool" where
  "holds Q r \<longleftrightarrow> (\<exists>x. r = Some x \<and> (\<forall>a s. x = Inr (a, s) \<longrightarrow> Q a s))"

lemma holds_simps [simp]:
  "holds Q (p_return a s) \<longleftrightarrow> Q a s"
  "holds Q (p_throw msg s)"
  "holds Q (p_bind m f s) \<longleftrightarrow> holds (\<lambda>a s1. holds Q (f a s1)) (m s)"
  "holds Q' (p_then u k s) \<longleftrightarrow> holds (\<lambda>_ s1. holds Q' (k s1)) (u s)"
  "holds Q (p_peek g s) \<longleftrightarrow> holds Q (g (v_lexer s) s)"
  "holds Q (p_state h s) \<longleftrightarrow> holds Q (h s s)"
  by (auto simp: holds_def p_return_def p_throw_def p_bind_def p_then_def p_peek_def p_state_def
      split: option.splits sum.splits)

lemma holds_intros:
  "Q a s \<Longrightarrow> holds Q (p_return a s)"
  "holds Q (p_throw msg s)"
  "holds (\<lambda>a s1. holds Q' (f a s1)) (m s) \<Longrightarrow> holds Q' (p_bind m f s)"
  "holds (\<lambda>_ s1. holds Q' (k s1)) (u s) \<Longrightarrow> holds Q' (p_then u k s)"
  "holds Q (g (v_lexer s) s) \<Longrightarrow> holds Q (p_peek g s)"
  "holds Q (h s s) \<Longrightarrow> holds Q (p_state h s)"
  by simp_all

lemma holds_if: "(b \<Longrightarrow> holds Q (x s)) \<Longrightarrow> (\<not> b \<Longrightarrow> holds Q (y s)) \<Longrightarrow> holds Q ((if b then x else y) s)"
  by simp

lemma holds_option:
  "(o1 = None \<Longrightarrow> holds Q (x s)) \<Longrightarrow> (\<And>c. o1 = Some c \<Longrightarrow> holds Q (y c s)) \<Longrightarrow>
   holds Q ((case o1 of None \<Rightarrow> x | Some c \<Rightarrow> y c) s)"
  by (cases o1) auto

lemma holds_prod: "(\<And>a b. ab = (a, b) \<Longrightarrow> holds Q (f a b s)) \<Longrightarrow> holds Q ((case ab of (a, b) \<Rightarrow> f a b) s)"
  by (cases ab) auto

lemmas wp = holds_intros holds_if holds_option holds_prod

lemma holds_modify: "holds Q (p_modify e s) \<longleftrightarrow> Q () (e s)"
  by (simp add: holds_def p_modify_def)

lemma holds_mono: "holds Q r \<Longrightarrow> (\<And>a s. Q a s \<Longrightarrow> Q' a s) \<Longrightarrow> holds Q' r"
  by (auto simp: holds_def)

lemma holds_Some: "holds Q r \<Longrightarrow> \<exists>x. r = Some x"
  by (auto simp: holds_def)

section \<open>Scopes only grow\<close>

definition scope_names :: "t_scope \<Rightarrow> symbol set" where
  "scope_names sc = set (map fst (v_variables sc))"

definition grows :: "t_scope list \<Rightarrow> t_scope list \<Rightarrow> bool" where
  "grows a b \<longleftrightarrow> length a \<le> length b \<and>
     (\<forall>i < length a. v_outer (b ! i) = v_outer (a ! i) \<and> scope_names (a ! i) \<subseteq> scope_names (b ! i))"

lemma grows_refl [simp]: "grows a a"
  by (simp add: grows_def)

lemma grows_trans: "grows a b \<Longrightarrow> grows b c \<Longrightarrow> grows a c"
  unfolding grows_def by (metis less_le_trans order_trans subset_trans)

definition scopes_ok :: "t_scope list \<Rightarrow> bool" where
  "scopes_ok ss \<longleftrightarrow> (\<forall>i < length ss. \<forall>j. v_outer (ss ! i) = Some j \<longrightarrow> j < i)"

lemma walk_outer_None: "walk_outer ss k None = (if k = 0 then Some None else None)"
  by (cases k) auto

lemma walk_outer_grows:
  "grows a b \<Longrightarrow> scopes_ok a \<Longrightarrow> \<forall>i. c = Some i \<longrightarrow> i < length a \<Longrightarrow> walk_outer b k c = walk_outer a k c"
proof (induction k arbitrary: c)
  case (Suc k)
  then show ?case
    by (cases c) (auto simp: grows_def scopes_ok_def intro!: Suc.IH dest: less_trans)
qed simp

lemma walk_outer_less:
  "walk_outer ss k c = Some (Some j) \<Longrightarrow> scopes_ok ss \<Longrightarrow> \<forall>i. c = Some i \<longrightarrow> i < length ss \<Longrightarrow> j < length ss"
proof (induction k arbitrary: c)
  case (Suc k)
  then obtain a where a: "c = Some a" "a < length ss" "walk_outer ss k (v_outer (ss ! a)) = Some (Some j)"
    by (cases c) auto
  have "\<forall>i. v_outer (ss ! a) = Some i \<longrightarrow> i < length ss"
    using Suc.prems(2) a(2) by (meson scopes_ok_def less_trans)
  then show ?case using Suc.IH[OF a(3) Suc.prems(2)] by blast
qed auto

section \<open>What a well-formed tree is\<close>

lemma size_catch [termination_simp]:
  "(e, v, b) \<in> set cs \<Longrightarrow> size e < size_list (size_prod size (size_prod (\<lambda>_. 0) size)) cs"
  "(e, v, b) \<in> set cs \<Longrightarrow> size b < size_list (size_prod size (size_prod (\<lambda>_. 0) size)) cs"
  by (induction cs) auto

lemma size_set_option [termination_simp]: "x \<in> set_option c \<Longrightarrow> size x < size_option size c"
  by (cases c) auto

fun good_node :: "t_scope list \<Rightarrow> nat \<Rightarrow> bool \<Rightarrow> bool \<Rightarrow> t_node \<Rightarrow> bool" where
  "good_node ss c j r (N_nodes ns) = (\<forall>n \<in> set ns. good_node ss c j r n)"
| "good_node ss c j r (N_lambda p i va k ds b) =
     (i < length ss \<and> v_outer (ss ! i) = Some c \<and> (\<forall>n \<in> set ds. good_node ss c j r n) \<and> good_node ss i j True b)"
| "good_node ss c j r (N_if e x y) =
     ((\<forall>n \<in> set_option e. good_node ss c j r n) \<and> good_node ss c j r x \<and> good_node ss c j r y)"
| "good_node ss c j r (N_while e b) = ((\<forall>n \<in> set_option e. good_node ss c j r n) \<and> good_node ss c True r b)"
| "good_node ss c j r (N_for i e f b) =
     ((\<forall>n \<in> set_option i. good_node ss c j r n) \<and> (\<forall>n \<in> set_option e. good_node ss c j r n) \<and>
      (\<forall>n \<in> set_option f. good_node ss c j r n) \<and> good_node ss c True r b)"
| "good_node ss c j r (N_break e) = (j \<and> good_node ss c j r e)"
| "good_node ss c j r (N_continue p) = j"
| "good_node ss c j r (N_return e) = (r \<and> good_node ss c j r e)"
| "good_node ss c j r (N_try b cs f) =
     (good_node ss c j r b \<and>
      (\<forall>(e, v, d) \<in> set cs. good_node ss c j r e \<and> fst v = c \<and> snd v \<in> scope_names (ss ! c) \<and> good_node ss c j r d) \<and>
      (\<forall>n \<in> set_option f. good_node ss c False False n))"
| "good_node ss c j r (N_throw p e) = good_node ss c j r e"
| "good_node ss c j r (N_object_get p t k) = good_node ss c j r t"
| "good_node ss c j r (N_object_get_indirect p t k) = (good_node ss c j r t \<and> good_node ss c j r k)"
| "good_node ss c j r (N_object_put p t k v) = (good_node ss c j r t \<and> good_node ss c j r v)"
| "good_node ss c j r (N_object_put_indirect p t k v) =
     (good_node ss c j r t \<and> good_node ss c j r k \<and> good_node ss c j r v)"
| "good_node ss c j r (N_object_has p t k) = good_node ss c j r t"
| "good_node ss c j r (N_object_has_indirect p t k) = (good_node ss c j r t \<and> good_node ss c j r k)"
| "good_node ss c j r (N_symbol_get p k sc x) = (walk_outer ss k (Some c) = Some sc)"
| "good_node ss c j r (N_scope_put p k v e) =
     (walk_outer ss k (Some c) = Some (Some (fst v)) \<and> snd v \<in> scope_names (ss ! fst v) \<and> good_node ss c j r e)"
| "good_node ss c j r (N_self p k) = (\<exists>i. walk_outer ss k (Some c) = Some (Some i))"
| "good_node ss c j r (N_class p t) = good_node ss c j r t"
| "good_node ss c j r (N_super p t) = good_node ss c j r t"
| "good_node ss c j r (N_unary p op e) = good_node ss c j r e"
| "good_node ss c j r (N_binary p op x y) = (good_node ss c j r x \<and> good_node ss c j r y)"
| "good_node ss c j r (N_call p t as es) = (good_node ss c j r t \<and> (\<forall>n \<in> set as. good_node ss c j r n))"
| "good_node ss c j r (N_get_at p t i) = (good_node ss c j r t \<and> good_node ss c j r i)"
| "good_node ss c j r (N_set_at p t i v) = (good_node ss c j r t \<and> good_node ss c j r i \<and> good_node ss c j r v)"
| "good_node ss c j r _ = True"

lemma good_node_grows:
  "good_node a c j r n \<Longrightarrow> grows a b \<Longrightarrow> scopes_ok a \<Longrightarrow> c < length a \<Longrightarrow> good_node b c j r n"
proof (induction a c j r n rule: good_node.induct)
  case (2 ss c j r p i va k ds b')
  then show ?case by (auto simp: grows_def)
next
  case (9 ss c j r b' cs f)
  then show ?case by (fastforce simp: grows_def)
next
  case (17 ss c j r p k sc x)
  then show ?case using walk_outer_grows[of ss b "Some c" k] by simp
next
  case (18 ss c j r p k v e)
  have "fst v < length ss" using walk_outer_less[of ss k "Some c" "fst v"] 18 by simp
  then show ?case using walk_outer_grows[of ss b "Some c" k] 18 by (auto simp: grows_def)
next
  case (19 ss c j r p k)
  then show ?case using walk_outer_grows[of ss b "Some c" k] by simp
qed auto

section \<open>The invariant of the parser\<close>

text \<open>An upper bound on the tokens still to be accepted.\<close>

definition budget :: "t_parser \<Rightarrow> nat" where
  "budget s = left (v_lexer s) + (if v_token (v_lexer s) = T_EOF then 0 else 1)"

definition parser_ok :: "t_parser \<Rightarrow> bool" where
  "parser_ok s \<longleftrightarrow> scopes_ok (v_scopes s) \<and> v_scope s < length (v_scopes s)"

definition good :: "t_parser \<Rightarrow> t_node \<Rightarrow> bool" where
  "good s n \<longleftrightarrow> good_node (v_scopes s) (v_scope s) (v_can_jump s) (v_can_return s) n"

lemma good_simps [simp]:
  "good s (N_nodes ns) \<longleftrightarrow> (\<forall>n \<in> set ns. good s n)"
  "good s (N_if e x y) \<longleftrightarrow> (\<forall>n \<in> set_option e. good s n) \<and> good s x \<and> good s y"
  "good s (N_break e0) \<longleftrightarrow> v_can_jump s \<and> good s e0"
  "good s (N_continue p) \<longleftrightarrow> v_can_jump s"
  "good s (N_return e0) \<longleftrightarrow> v_can_return s \<and> good s e0"
  "good s (N_throw p e0) \<longleftrightarrow> good s e0"
  "good s (N_object_get p t k) \<longleftrightarrow> good s t"
  "good s (N_object_get_indirect p t x) \<longleftrightarrow> good s t \<and> good s x"
  "good s (N_object_put p t k v) \<longleftrightarrow> good s t \<and> good s v"
  "good s (N_object_put_indirect p t x v) \<longleftrightarrow> good s t \<and> good s x \<and> good s v"
  "good s (N_object_has p t k) \<longleftrightarrow> good s t"
  "good s (N_object_has_indirect p t x) \<longleftrightarrow> good s t \<and> good s x"
  "good s (N_class p t) \<longleftrightarrow> good s t"
  "good s (N_super p t) \<longleftrightarrow> good s t"
  "good s (N_null p)" "good s (N_literal_object p ob)" "good s (N_literal_bool p bl)"
  "good s (N_literal_integer p w)" "good s (N_literal_float p fl)" "good s N_preserve"
  "good s (N_unary p uop x) \<longleftrightarrow> good s x"
  "good s (N_binary p op x y) \<longleftrightarrow> good s x \<and> good s y"
  "good s (N_call p t as es) \<longleftrightarrow> good s t \<and> (\<forall>n \<in> set as. good s n)"
  "good s (N_get_at p t x) \<longleftrightarrow> good s t \<and> good s x"
  "good s (N_set_at p t x v) \<longleftrightarrow> good s t \<and> good s x \<and> good s v"
  by (auto simp: good_def)

text \<open>What a parser leaves alone.\<close>

definition keeps :: "t_parser \<Rightarrow> t_parser \<Rightarrow> bool" where
  "keeps s s1 \<longleftrightarrow> grows (v_scopes s) (v_scopes s1) \<and> parser_ok s1 \<and> v_scope s1 = v_scope s \<and>
     v_can_jump s1 = v_can_jump s \<and> v_can_return s1 = v_can_return s"

lemma keeps_refl: "parser_ok s \<Longrightarrow> keeps s s"
  by (simp add: keeps_def)

lemma keeps_trans: "keeps s s1 \<Longrightarrow> keeps s1 s2 \<Longrightarrow> keeps s s2"
  by (auto simp: keeps_def intro: grows_trans)

lemma keeps_ok: "keeps s s1 \<Longrightarrow> parser_ok s1"
  by (simp add: keeps_def)

lemma good_keeps: "good s n \<Longrightarrow> keeps s s1 \<Longrightarrow> parser_ok s \<Longrightarrow> good s1 n"
  unfolding good_def keeps_def parser_ok_def using good_node_grows by simp

text \<open>Every call of the scanner uses up a token, unless it was the end of the stream.\<close>

lemma holds_next_scopes:
  assumes "wctype_ok lc" "parser_ok s"
    and "\<And>s1. keeps s s1 \<Longrightarrow> v_scopes s1 = v_scopes s \<Longrightarrow> budget s1 \<le> budget s \<Longrightarrow>
      v_token (v_lexer s) \<noteq> T_EOF \<longrightarrow> budget s1 < budget s \<Longrightarrow> Q () s1"
  shows "holds Q (next_token lc s)"
proof (cases "t_lexer_f_next lc (v_lexer s)")
  case (Inr l)
  let ?s1 = "s\<lparr>v_lexer := l\<rparr>"
  have "left l \<le> left (v_lexer s)" "v_token l \<noteq> T_EOF \<Longrightarrow> left l < left (v_lexer s)"
    using f_next_le[OF assms(1) Inr] f_next_progress[OF assms(1) Inr] by auto
  then have "budget ?s1 \<le> budget s" "v_token (v_lexer s) \<noteq> T_EOF \<longrightarrow> budget ?s1 < budget s"
    by (auto simp: budget_def)
  moreover have "keeps s ?s1" using assms(2) by (simp add: keeps_def parser_ok_def)
  ultimately have "Q () ?s1" using assms(3)[of ?s1] by simp
  then show ?thesis by (simp add: holds_def next_token_def Inr)
qed (simp add: holds_def next_token_def)

lemma holds_next:
  assumes "wctype_ok lc" "parser_ok s"
    and "\<And>s1. keeps s s1 \<Longrightarrow> budget s1 \<le> budget s \<Longrightarrow> v_token (v_lexer s) \<noteq> T_EOF \<longrightarrow> budget s1 < budget s \<Longrightarrow> Q () s1"
  shows "holds Q (next_token lc s)"
  using holds_next_scopes[OF assms(1,2)] assms(3) by blast

section \<open>Updates of scopes\<close>

definition conservative :: "(t_scope \<Rightarrow> t_scope) \<Rightarrow> bool" where
  "conservative f \<longleftrightarrow> (\<forall>sc. v_outer (f sc) = v_outer sc \<and> scope_names sc \<subseteq> scope_names (f sc))"

lemma conservativeI:
  "(\<And>sc. v_outer (f sc) = v_outer sc) \<Longrightarrow> (\<And>sc. scope_names sc \<subseteq> scope_names (f sc)) \<Longrightarrow> conservative f"
  by (simp add: conservative_def)

lemma nth_update_if: "j < length xs \<Longrightarrow> xs[i := x] ! j = (if i = j then x else xs ! j)"
  by (auto simp: nth_list_update)

lemma keeps_update: "conservative f \<Longrightarrow> parser_ok s \<Longrightarrow> keeps s (update_scope i f s)"
  by (auto simp: keeps_def grows_def parser_ok_def scopes_ok_def update_scope_def conservative_def nth_update_if)

lemma update_scope_simps [simp]:
  "v_lexer (update_scope i f s) = v_lexer s" "v_scope (update_scope i f s) = v_scope s"
  "v_can_jump (update_scope i f s) = v_can_jump s" "v_can_return (update_scope i f s) = v_can_return s"
  "budget (update_scope i f s) = budget s" "length (v_scopes (update_scope i f s)) = length (v_scopes s)"
  by (simp_all add: update_scope_def budget_def)

lemma scope_update_simps [simp]:
  "v_outer (update_variable x g sc) = v_outer sc" "scope_names (update_variable x g sc) = scope_names sc"
  "v_outer (privates_push x sc) = v_outer sc" "scope_names (privates_push x sc) = scope_names sc"
  "v_outer (add_variable x sc) = v_outer sc" "scope_names (add_variable x sc) = insert x (scope_names sc)"
  by (auto simp: update_variable_def privates_push_def add_variable_def scope_names_def map_of_eq_None_iff
      split: prod.splits intro: rev_image_eqI)

lemma f_variable_simps [simp]:
  "v_outer (f_variable x sc) = v_outer sc" "scope_names (f_variable x sc) = insert x (scope_names sc)"
  by (auto simp: f_variable_def map_of_eq_None_iff) (force simp: scope_names_def map_of_eq_None_iff)+

lemma fold_update_variable [simp]:
  "v_outer (fold (\<lambda>x. update_variable x g) xs sc) = v_outer sc"
  "scope_names (fold (\<lambda>x. update_variable x g) xs sc) = scope_names sc"
  by (induction xs arbitrary: sc) simp_all

lemma scope_names_updates [simp]:
  "scope_names (sc\<lparr>v_privates := ps\<rparr>) = scope_names sc" "scope_names (sc\<lparr>v_privates_size := k\<rparr>) = scope_names sc"
  "scope_names (sc\<lparr>v_shareds := k\<rparr>) = scope_names sc" "scope_names (sc\<lparr>v_unresolveds := us\<rparr>) = scope_names sc"
  "scope_names (sc\<lparr>v_references := us\<rparr>) = scope_names sc" "scope_names (sc\<lparr>v_self_shared := b\<rparr>) = scope_names sc"
  "scope_names (sc\<lparr>v_scope_shared := b\<rparr>) = scope_names sc"
  by (simp_all add: scope_names_def)

lemma classify_simps [simp]:
  "v_outer (classify kept ps sc) = v_outer sc" "scope_names (classify kept ps sc) = scope_names sc"
  by (induction kept ps sc rule: classify.induct) simp_all

lemma index_arguments_simps [simp]:
  "v_outer (index_arguments i k sc) = v_outer sc" "scope_names (index_arguments i k sc) = scope_names sc"
  by (induction i k sc rule: index_arguments.induct) (simp_all add: Let_def)

lemma finish_simps [simp]:
  "v_outer (f_vary p sc) = v_outer sc" "scope_names (f_vary p sc) = scope_names sc"
  "v_outer (finish_lambda k sc) = v_outer sc" "scope_names (finish_lambda k sc) = scope_names sc"
  "v_outer (finish_program sc) = v_outer sc" "scope_names (finish_program sc) = scope_names sc"
  by (simp_all add: f_vary_def finish_lambda_def finish_program_def f_classify_def Let_def)

lemma holds_update_at:
  assumes "conservative f" "i < length (v_scopes s)" "parser_ok s"
    and "\<And>s1. keeps s s1 \<Longrightarrow> v_lexer s1 = v_lexer s \<Longrightarrow> budget s1 = budget s \<Longrightarrow> i < length (v_scopes s1) \<Longrightarrow>
      v_scopes s1 ! i = f (v_scopes s ! i) \<Longrightarrow> Q () s1"
  shows "holds Q (p_modify (update_scope i f) s)"
  using assms(4)[OF keeps_update[OF assms(1,3)], of i] assms(2) by (simp add: holds_modify) (simp add: update_scope_def)

lemma holds_update:
  assumes "conservative f" "parser_ok s"
    and "\<And>s1. keeps s s1 \<Longrightarrow> v_lexer s1 = v_lexer s \<Longrightarrow> budget s1 = budget s \<Longrightarrow> Q () s1"
  shows "holds Q (p_modify (update_scope i f) s)"
  using assms(3)[OF keeps_update[OF assms(1,2)], of i] by (simp add: holds_modify)


section \<open>Parsers that use up input\<close>

definition eats :: "nat \<Rightarrow> t_node parser \<Rightarrow> bool" where
  "eats N p \<longleftrightarrow> (\<forall>s. parser_ok s \<longrightarrow> budget s < N \<longrightarrow> holds (\<lambda>a s1. keeps s s1 \<and> budget s1 < budget s \<and> good s1 a) (p s))"

text \<open>The rules again for a step in the middle of a run that began in \<open>start\<close>.\<close>

lemma holds_from:
  assumes "holds (\<lambda>a s1. keeps s s1 \<and> P a s1) r" "keeps start s"
    and "\<And>a s1. keeps start s1 \<Longrightarrow> keeps s s1 \<Longrightarrow> P a s1 \<Longrightarrow> Q a s1"
  shows "holds Q r"
  using assms(1) by (rule holds_mono) (use assms(2,3) keeps_trans in blast)

lemma eats_from:
  assumes "eats N p" "keeps start s" "budget s < N"
    and "\<And>a s1. keeps start s1 \<Longrightarrow> keeps s s1 \<Longrightarrow> budget s1 < budget s \<Longrightarrow> good s1 a \<Longrightarrow> Q a s1"
  shows "holds Q (p s)"
proof (rule holds_from[OF _ assms(2)])
  show "holds (\<lambda>a s1. keeps s s1 \<and> budget s1 < budget s \<and> good s1 a) (p s)"
    using assms(1,3) keeps_ok[OF assms(2)] unfolding eats_def by blast
qed (use assms(4) in blast)

lemma next_from:
  assumes "wctype_ok lc" "keeps start s"
    and "\<And>s1. keeps start s1 \<Longrightarrow> keeps s s1 \<Longrightarrow> budget s1 \<le> budget s \<Longrightarrow>
      v_token (v_lexer s) \<noteq> T_EOF \<longrightarrow> budget s1 < budget s \<Longrightarrow> Q () s1"
  shows "holds Q (next_token lc s)"
  using holds_next[OF assms(1) keeps_ok[OF assms(2)]] assms(3) keeps_trans[OF assms(2)] by blast

lemma next_eat:
  assumes "wctype_ok lc" "keeps start s" "v_token (v_lexer s) \<noteq> T_EOF"
    and "\<And>s1. keeps start s1 \<Longrightarrow> keeps s s1 \<Longrightarrow> budget s1 < budget s \<Longrightarrow> Q () s1"
  shows "holds Q (next_token lc s)"
  using next_from[OF assms(1,2)] assms(3,4) by blast

lemma update_from:
  assumes "conservative f" "keeps start s"
    and "\<And>s1. keeps start s1 \<Longrightarrow> keeps s s1 \<Longrightarrow> v_lexer s1 = v_lexer s \<Longrightarrow> budget s1 = budget s \<Longrightarrow> Q () s1"
  shows "holds Q (p_modify (update_scope i f) s)"
  using holds_update[OF assms(1) keeps_ok[OF assms(2)]] assms(3) keeps_trans[OF assms(2)] by blast

lemma update_at_from:
  assumes "conservative f" "i < length (v_scopes s)" "keeps start s"
    and "\<And>s1. keeps start s1 \<Longrightarrow> keeps s s1 \<Longrightarrow> v_lexer s1 = v_lexer s \<Longrightarrow> budget s1 = budget s \<Longrightarrow> i < length (v_scopes s1) \<Longrightarrow>
      v_scopes s1 ! i = f (v_scopes s ! i) \<Longrightarrow> Q () s1"
  shows "holds Q (p_modify (update_scope i f) s)"
  using holds_update_at[OF assms(1,2) keeps_ok[OF assms(3)]] assms(4) keeps_trans[OF assms(3)] by blast

lemmas stays = keeps_ok good_keeps

abbreviation took :: "t_parser \<Rightarrow> t_node list \<Rightarrow> t_parser \<Rightarrow> bool" where
  "took s ns s1 \<equiv> keeps s s1 \<and> budget s1 < budget s \<and> (\<forall>n \<in> set ns. good s1 n)"

abbreviation took1 :: "t_parser \<Rightarrow> t_node \<Rightarrow> t_parser \<Rightarrow> bool" where
  "took1 s a s1 \<equiv> keeps s s1 \<and> budget s1 < budget s \<and> good s1 a"

abbreviation passed1 :: "t_parser \<Rightarrow> t_node \<Rightarrow> t_parser \<Rightarrow> bool" where
  "passed1 s a s1 \<equiv> keeps s s1 \<and> budget s1 \<le> budget s \<and> good s1 a"

lemma f_argument_holds:
  assumes "wctype_ok lc" "eats N E" "parser_ok s" "budget s < N" "\<forall>n \<in> set nodes. good s n"
  shows "holds (\<lambda>r. took s (snd r)) (f_argument lc E a_indent nodes s)"
  using assms(3-) unfolding f_argument_def
  by (intro wp keeps_refl[OF assms(3)] eats_from[OF assms(2), where start = s] next_from[OF assms(1), where start = s] conjI; auto; blast intro: stays)

lemma argument_loop_holds:
  assumes "wctype_ok lc" "eats N E"
  shows "parser_ok s \<Longrightarrow> budget s < N \<Longrightarrow> budget s < n \<Longrightarrow> \<forall>n \<in> set nodes. good s n \<Longrightarrow>
    holds (took s) (argument_loop lc E n a_indent nodes s)"
proof (induction n arbitrary: s nodes)
  case (Suc n)
  show ?case using Suc.prems unfolding argument_loop.simps
    by (intro wp keeps_refl[OF Suc.prems(1)] f_argument_holds[OF assms, THEN holds_from[where start = s]] Suc.IH[THEN holds_from[where start = s]] conjI; auto intro: keeps_ok; blast intro: stays)
qed simp

lemma f_arguments_holds:
  assumes "wctype_ok lc" "eats N E"
  shows "parser_ok s \<Longrightarrow> budget s < N \<Longrightarrow> budget s < n \<Longrightarrow> \<forall>n \<in> set args. good s n \<Longrightarrow>
    holds (\<lambda>r. took s (fst r)) (f_arguments lc E n a_indent args expands s)"
proof (induction n arbitrary: s args expands)
  case (Suc n)
  show ?case using Suc.prems unfolding f_arguments.simps
    by (intro wp keeps_refl[OF Suc.prems(1)] f_argument_holds[OF assms, THEN holds_from[where start = s]] next_from[OF assms(1), where start = s]
        Suc.IH[THEN holds_from[where start = s]] conjI; auto intro: keeps_ok; blast intro: stays)
qed simp

lemma f_expressions_holds:
  assumes "wctype_ok lc" "eats N E"
  shows "parser_ok s \<Longrightarrow> budget s < N \<Longrightarrow> budget s < n \<Longrightarrow> \<forall>n \<in> set nodes. good s n \<Longrightarrow>
    holds (took s) (f_expressions lc E n nodes s)"
proof (induction n arbitrary: s nodes)
  case (Suc n)
  show ?case using Suc.prems unfolding f_expressions.simps
    by (intro wp keeps_refl[OF Suc.prems(1)] eats_from[OF assms(2), where start = s] next_from[OF assms(1), where start = s]
        Suc.IH[THEN holds_from[where start = s]] conjI; auto intro: keeps_ok; blast intro: stays)
qed simp

lemma f_close_holds:
  assumes "wctype_ok lc" "parser_ok s"
  shows "holds (\<lambda>_ s1. keeps s s1 \<and> budget s1 \<le> budget s) (f_close lc a_indent right s)"
  using assms(2) unfolding f_close_def by (auto intro!: holds_next[OF assms(1)] keeps_refl)

lemma f_options_holds:
  assumes "wctype_ok lc" "eats N E" "parser_ok s" "budget s < N" "budget s < n"
  shows "holds (\<lambda>c s1. keeps s s1 \<and> budget s1 \<le> budget s \<and> (\<forall>n \<in> set_option c. good s1 n)) (f_options lc E n s)"
  using assms(3-) unfolding f_options_def
  by (intro wp keeps_refl[OF assms(3)] f_expressions_holds[OF assms(1,2), THEN holds_from[where start = s]] next_from[OF assms(1), where start = s] conjI;
      auto; blast intro: stays)

lemma body_loop_holds:
  assumes "wctype_ok lc" "eats N E"
  shows "parser_ok s \<Longrightarrow> budget s < N \<Longrightarrow> budget s < n \<Longrightarrow> \<forall>n \<in> set nodes. good s n \<Longrightarrow>
    holds (took s) (body_loop lc E n indent nodes s)"
proof (induction n arbitrary: s nodes)
  case (Suc n)
  show ?case using Suc.prems unfolding body_loop.simps
    by (intro wp keeps_refl[OF Suc.prems(1)] f_expressions_holds[OF assms, THEN holds_from[where start = s]] Suc.IH[THEN holds_from[where start = s]] conjI;
        auto intro: keeps_ok; blast intro: stays)
qed simp

lemma f_body_holds:
  assumes "wctype_ok lc" "eats N E" "parser_ok s" "budget s < N" "budget s < n"
  shows "holds (passed1 s) (f_body lc E n a_indent s)"
  using assms(3-) unfolding f_body_def
  by (intro wp keeps_refl[OF assms(3)] eats_from[OF assms(2), where start = s] body_loop_holds[OF assms(1,2), THEN holds_from[where start = s]] conjI; auto)

lemma walk_good:
  assumes "parser_ok s" "walk_outer (v_scopes s) k (Some (v_scope s)) = Some c" "keeps s s1"
  shows "good s1 (N_symbol_get p k c x)" "c = Some i \<Longrightarrow> good s1 (N_self p k)"
    "c = Some i \<Longrightarrow> x \<in> scope_names (v_scopes s1 ! i) \<Longrightarrow> good s1 e \<Longrightarrow> good s1 (N_scope_put p k (i, x) e)"
  using assms walk_outer_grows[of "v_scopes s" "v_scopes s1" "Some (v_scope s)" k]
  by (auto simp: good_def keeps_def parser_ok_def)

lemma keeps_name: "x \<in> scope_names (v_scopes s ! i) \<Longrightarrow> i < length (v_scopes s) \<Longrightarrow> keeps s s1 \<Longrightarrow> x \<in> scope_names (v_scopes s1 ! i)"
  by (auto simp: keeps_def grows_def)

lemma keeps_length: "i < length (v_scopes s) \<Longrightarrow> keeps s s1 \<Longrightarrow> i < length (v_scopes s1)"
  by (auto simp: keeps_def grows_def)

lemma conservative_updates [simp, intro]:
  "conservative (scope_assign outer x)" "conservative (scope_refer outer x)" "conservative scope_share_self"
  "conservative (add_parameter x)" "conservative (f_variable x)" "conservative (f_vary p)"
  "conservative (finish_lambda k)" "conservative finish_program"
  by (auto intro!: conservativeI simp: scope_assign_def scope_refer_def scope_share_self_def add_parameter_def Let_def)

lemma scope_assign_name [simp]: "x \<in> scope_names (scope_assign outer x sc)"
  by (simp add: scope_assign_def Let_def)

lemma assigned_name:
  "v_scopes s ! i = scope_assign outer x sc \<Longrightarrow> i < length (v_scopes s) \<Longrightarrow> keeps s s1 \<Longrightarrow> x \<in> scope_names (v_scopes s1 ! i)"
  by (rule keeps_name[of x s i]) simp_all

lemma target_symbol_holds:
  assumes "wctype_ok lc" "eats N E" "parser_ok s" "budget s \<le> N" "v_token (v_lexer s) = T_SYMBOL"
    "walk_outer (v_scopes s) outer (Some (v_scope s)) = Some scope"
  shows "holds (took1 s) (target_symbol lc E a_assignable a_at outer scope s)"
proof (cases scope)
  case None
  have get: "good s1 (N_symbol_get a_at outer None y)" if "keeps s s1" for s1 y
    using walk_good(1)[OF assms(3,6) that] None by simp
  show ?thesis
    using assms(3-5) unfolding target_symbol_def Let_def None option.case
    by (intro wp holds_next[OF assms(1)] conjI get; auto elim: keeps_ok)
next
  case (Some i)
  have len: "i < length (v_scopes s1)" if "keeps s s1" for s1
    using walk_outer_less[of "v_scopes s" outer "Some (v_scope s)" i] assms(3,6) Some that
    by (auto simp: parser_ok_def intro: keeps_length)
  have get: "good s1 (N_symbol_get a_at outer (Some i) y)" if "keeps s s1" for s1 y
    using walk_good(1)[OF assms(3,6) that] Some by simp
  have put: "good s1 (N_scope_put a_at outer (i, y) e)"
    if "keeps s s1" "y \<in> scope_names (v_scopes s1 ! i)" "good s1 e" for s1 y e
    using walk_good(3)[OF assms(3,6)] that Some by blast
  show ?thesis
    using assms(3-5) unfolding target_symbol_def Let_def Some option.case
    by (intro wp keeps_refl[OF assms(3)] eats_from[OF assms(2), where start = s] next_from[OF assms(1), where start = s]
        update_at_from[where start = s] conservative_updates conjI get put; auto intro: assigned_name len)
qed

lemma good_self_chain:
  assumes "good s (N_self a_at outer)"
  shows "good s (self_chain a_at outer cs)"
proof -
  have "good s t \<Longrightarrow> good s (foldl (\<lambda>t c. if c = W CHR ''@'' then N_class a_at t else N_super a_at t) t cs)" for t
    by (induction cs arbitrary: t) auto
  then show ?thesis using assms unfolding self_chain_def by blast
qed

lemma target_self_holds:
  assumes "wctype_ok lc" "eats N E" "parser_ok s" "budget s \<le> N" "v_token (v_lexer s) = T_SELF"
    "walk_outer (v_scopes s) outer (Some (v_scope s)) = Some scope"
  shows "holds (took1 s) (target_self lc E a_assignable a_at outer scope s)"
proof (cases scope)
  case (Some i)
  have self: "good s1 (self_chain a_at k cs)" if "keeps s s1" "k = outer" for s1 k cs
    using good_self_chain walk_good(2)[OF assms(3,6) that(1) Some] that(2) by blast
  show ?thesis
    using assms(3-5) unfolding target_self_def Let_def Some option.case
    by (intro wp keeps_refl[OF assms(3)] eats_from[OF assms(2), where start = s] next_from[OF assms(1), where start = s]
        update_from[where start = s] conservative_updates conjI; auto intro: self)
qed (simp add: target_self_def)

lemma target_name_holds:
  assumes "wctype_ok lc" "eats N E" "parser_ok s" "budget s \<le> N" "v_token (v_lexer s) \<in> {T_COLON, T_SYMBOL, T_SELF}"
  shows "holds (took1 s) (target_name lc E a_assignable a_at s)"
proof -
  have dispatch: "holds (took1 s1) ((case v_token (v_lexer s1) of
      T_SYMBOL \<Rightarrow> target_symbol lc E a_assignable a_at outer scope
    | T_SELF \<Rightarrow> target_self lc E a_assignable a_at outer scope
    | _ \<Rightarrow> p_throw ''expecting symbol or self.'') s1)"
    if "parser_ok s1" "budget s1 \<le> N" "walk_outer (v_scopes s1) outer (Some (v_scope s1)) = Some scope" for s1 outer scope
    using that target_symbol_holds[OF assms(1,2)] target_self_holds[OF assms(1,2)]
    by (cases "v_token (v_lexer s1)") simp_all
  have same: "walk_outer (v_scopes s) k (Some (v_scope s1)) = Some c"
    if "keeps s s1" "v_scopes s1 = v_scopes s" "walk_outer (v_scopes s) k (Some (v_scope s)) = Some c" for s1 k c
    using that by (simp add: keeps_def)
  show ?thesis
    using assms(3-5) unfolding target_name_def Let_def
    by (intro wp keeps_refl[OF assms(3)] holds_next_scopes[OF assms(1)] dispatch[THEN holds_from[where start = s]] conjI; auto intro: same keeps_ok)
qed

lemma bracket_call_holds:
  assumes "wctype_ok lc" "eats N E" "parser_ok s" "budget s \<le> N" "budget s \<le> n" "v_token (v_lexer s) \<noteq> T_EOF" "good s target"
  shows "holds (took1 s) (bracket_call lc E n a_at target right s)"
  using assms(3-) unfolding bracket_call_def Let_def
  by (intro wp keeps_refl[OF assms(3)] next_from[OF assms(1), where start = s] f_arguments_holds[OF assms(1,2), THEN holds_from[where start = s]]
      f_close_holds[OF assms(1), THEN holds_from[where start = s]] conjI; auto intro: keeps_ok; blast intro: stays)

lemma target_quote_holds:
  assumes "wctype_ok lc" "eats N E" "parser_ok s" "budget s \<le> N" "budget s \<le> n" "v_token (v_lexer s) \<noteq> T_EOF"
  shows "holds (took1 s) (target_quote lc E n a_at s)"
proof -
  have dispatch: "holds (passed1 s1) ((case v_token (v_lexer s1) of
      T_SYMBOL \<Rightarrow> p_then (next_token lc) (p_return (N_literal_object a_at (O_symbol (f_symbol (v_lexer s1)))))
    | T_LEFT_PARENTHESIS \<Rightarrow> bracket_call lc E n a_at (N_literal_object a_at O_tuple) T_RIGHT_PARENTHESIS
    | _ \<Rightarrow> p_throw ''expecting symbol or '('.'') s1)"
    if "parser_ok s1" "budget s1 \<le> N" "budget s1 \<le> n" for s1
    using that bracket_call_holds[OF assms(1,2), of s1, THEN holds_mono]
    by (cases "v_token (v_lexer s1)") (auto intro!: holds_next[OF assms(1)])
  show ?thesis
    using assms(3-) unfolding target_quote_def
    by (intro wp keeps_refl[OF assms(3)] next_from[OF assms(1), where start = s] dispatch[THEN holds_from[where start = s]] conjI; auto intro: keeps_ok)
qed

lemma target_nodes_holds:
  assumes "wctype_ok lc" "eats N E" "parser_ok s" "budget s \<le> N" "budget s \<le> n" "v_token (v_lexer s) \<noteq> T_EOF"
  shows "holds (took1 s) (target_nodes lc E n s)"
  using assms(3-) unfolding target_nodes_def Let_def
  by (intro wp keeps_refl[OF assms(3)] next_from[OF assms(1), where start = s] argument_loop_holds[OF assms(1,2), THEN holds_from[where start = s]]
      f_close_holds[OF assms(1), THEN holds_from[where start = s]] conjI; auto intro: keeps_ok; blast intro: stays)

lemma eats_go:
  assumes "eats N p" "parser_ok start" "keeps start s" "budget s < N"
    and "\<And>a s1. keeps start s1 \<Longrightarrow> parser_ok s1 \<Longrightarrow> \<forall>a. good s a \<longrightarrow> good s1 a \<Longrightarrow> \<forall>a. good start a \<longrightarrow> good s1 a \<Longrightarrow>
      budget s1 < budget s \<Longrightarrow> good s1 a \<Longrightarrow> Q a s1"
  shows "holds Q (p s)"
  by (rule eats_from[OF assms(1,3,4)]) (rule assms(5); use assms(2,3) in \<open>auto intro: stays\<close>)

lemma next_go:
  assumes "wctype_ok lc" "parser_ok start" "keeps start s" "v_token (v_lexer s) \<noteq> T_EOF"
    and "\<And>s1. keeps start s1 \<Longrightarrow> parser_ok s1 \<Longrightarrow> \<forall>a. good s a \<longrightarrow> good s1 a \<Longrightarrow> \<forall>a. good start a \<longrightarrow> good s1 a \<Longrightarrow>
      budget s1 < budget s \<Longrightarrow> Q () s1"
  shows "holds Q (next_token lc s)"
  by (rule next_eat[OF assms(1,3,4)]) (rule assms(5); use assms(2,3) in \<open>auto intro: stays\<close>)

lemma holds_go:
  assumes "holds (\<lambda>a s1. keeps s s1 \<and> P a s1) r" "parser_ok start" "keeps start s"
    and "\<And>a s1. keeps start s1 \<Longrightarrow> parser_ok s1 \<Longrightarrow> \<forall>a. good s a \<longrightarrow> good s1 a \<Longrightarrow> \<forall>a. good start a \<longrightarrow> good s1 a \<Longrightarrow>
      P a s1 \<Longrightarrow> Q a s1"
  shows "holds Q r"
  by (rule holds_from[OF assms(1,3)]) (rule assms(4); use assms(2,3) in \<open>auto intro: stays\<close>)

lemma update_go:
  assumes "conservative f" "parser_ok start" "keeps start s"
    and "\<And>s1. keeps start s1 \<Longrightarrow> parser_ok s1 \<Longrightarrow> \<forall>a. good s a \<longrightarrow> good s1 a \<Longrightarrow> \<forall>a. good start a \<longrightarrow> good s1 a \<Longrightarrow>
      v_lexer s1 = v_lexer s \<Longrightarrow> budget s1 = budget s \<Longrightarrow> Q () s1"
  shows "holds Q (p_modify (update_scope i f) s)"
  by (rule update_from[OF assms(1,3)]) (rule assms(4); use assms(2,3) in \<open>auto intro: stays\<close>)

lemma close_go:
  assumes "wctype_ok lc" "parser_ok start" "keeps start s"
    and "\<And>s1. keeps start s1 \<Longrightarrow> parser_ok s1 \<Longrightarrow> \<forall>a. good s a \<longrightarrow> good s1 a \<Longrightarrow> \<forall>a. good start a \<longrightarrow> good s1 a \<Longrightarrow>
      budget s1 \<le> budget s \<Longrightarrow> Q () s1"
  shows "holds Q (f_close lc a_indent right s)"
  by (rule holds_go[OF f_close_holds[OF assms(1) keeps_ok[OF assms(3)]] assms(2,3)]) (use assms(4) in simp)

lemma pair_loop_holds:
  assumes "wctype_ok lc" "eats N E"
  shows "parser_ok s \<Longrightarrow> budget s < N \<Longrightarrow> budget s < n \<Longrightarrow> \<forall>n \<in> set args. good s n \<Longrightarrow>
    holds (took s) (pair_loop lc E n indent args s)"
proof (induction n arbitrary: s args)
  case (Suc n)
  show ?case using Suc.prems unfolding pair_loop.simps
    by (intro wp keeps_refl[OF Suc.prems(1)] eats_go[OF assms(2) Suc.prems(1)] next_go[OF assms(1) Suc.prems(1)]
        holds_go[OF Suc.IH Suc.prems(1)] conjI; simp add: f_single_colon_def)
qed simp

lemma target_map_holds:
  assumes "wctype_ok lc" "eats N E" "parser_ok s" "budget s \<le> N" "budget s \<le> n" "v_token (v_lexer s) \<noteq> T_EOF"
  shows "holds (took1 s) (target_map lc E n a_at s)"
  using assms(3-) unfolding target_map_def Let_def
  by (intro wp keeps_refl[OF assms(3)] next_from[OF assms(1), where start = s] pair_loop_holds[OF assms(1,2), THEN holds_from[where start = s]]
      f_close_holds[OF assms(1), THEN holds_from[where start = s]] conjI; auto intro: keeps_ok; blast intro: stays)

lemma lambda_parameters_holds:
  assumes "wctype_ok lc" "eats N E"
  shows "parser_ok s \<Longrightarrow> budget s < N \<Longrightarrow> budget s < n \<Longrightarrow> \<forall>n \<in> set ds. good s n \<Longrightarrow>
    holds (\<lambda>r. took s (snd r)) (lambda_parameters lc E n i ds s)"
proof (induction n arbitrary: s ds)
  case (Suc n)
  show ?case
  proof (cases "v_token (v_lexer s)")
    case T_SYMBOL
    then show ?thesis using Suc.prems unfolding lambda_parameters.simps
      by (intro holds_intros(5), unfold T_SYMBOL t_token.case,
          intro wp keeps_refl[OF Suc.prems(1)] eats_go[OF assms(2) Suc.prems(1)] next_go[OF assms(1) Suc.prems(1)]
        update_go[OF _ Suc.prems(1)] holds_go[OF Suc.IH Suc.prems(1)] conservative_updates conjI; simp)
  next
    case T_ASTERISK
    then show ?thesis using Suc.prems unfolding lambda_parameters.simps
      by (intro holds_intros(5), unfold T_ASTERISK t_token.case,
          intro wp keeps_refl[OF Suc.prems(1)] next_go[OF assms(1) Suc.prems(1)]
        update_go[OF _ Suc.prems(1)] conservative_updates conjI; simp)
  qed simp_all
qed simp

text \<open>The scope of a lambda is entered and left.\<close>

lemma grows_update:
  "v_outer (f (v_scopes s ! i)) = v_outer (v_scopes s ! i) \<Longrightarrow> scope_names (v_scopes s ! i) \<subseteq> scope_names (f (v_scopes s ! i)) \<Longrightarrow>
   grows (v_scopes s) (v_scopes (update_scope i f s))"
  by (auto simp: grows_def update_scope_def nth_update_if)

lemma grows_scopes_ok: "grows a b \<Longrightarrow> scopes_ok a \<Longrightarrow> length b = length a \<Longrightarrow> scopes_ok b"
  by (simp add: grows_def scopes_ok_def)

lemma resolve_lambda_simps [simp]:
  "length (v_scopes (resolve_lambda i outer s)) = length (v_scopes s)"
  "v_lexer (resolve_lambda i outer s) = v_lexer s"
  by (simp_all add: resolve_lambda_def Let_def)

lemma resolve_lambda_grows: "grows (v_scopes s) (v_scopes (resolve_lambda i outer s))"
  unfolding resolve_lambda_def Let_def by (rule grows_trans; rule grows_update; simp)

lemma enter_lambda_ok:
  assumes "parser_ok s" "i < length (v_scopes s)"
  shows "parser_ok (enter_lambda i s)" "budget (enter_lambda i s) = budget s"
    "grows (v_scopes s) (v_scopes (enter_lambda i s))" "v_lexer (enter_lambda i s) = v_lexer s"
    "v_scope (enter_lambda i s) = i" "v_can_return (enter_lambda i s)" "v_can_jump (enter_lambda i s) = v_can_jump s"
  using assms grows_update[of "\<lambda>sc. sc\<lparr>v_scope_shared := True\<rparr>" s "v_scope s"] grows_scopes_ok[of "v_scopes s"]
  by (auto simp: enter_lambda_def parser_ok_def budget_def)

lemma leave_lambda_ok:
  assumes "parser_ok s" "i < length (v_scopes s)" "keeps (enter_lambda i s) s1"
  shows "keeps s (leave_lambda i k s s1)" "budget (leave_lambda i k s s1) = budget s1"
    "grows (v_scopes s1) (v_scopes (leave_lambda i k s s1))"
proof -
  let ?s2 = "(resolve_lambda i (v_scope s) s1)\<lparr>v_scope := v_scope s, v_can_jump := v_can_jump s, v_can_return := v_can_return s\<rparr>"
  have "grows (v_scopes ?s2) (v_scopes (leave_lambda i k s s1))"
    unfolding leave_lambda_def by (rule grows_update) simp_all
  then show out: "grows (v_scopes s1) (v_scopes (leave_lambda i k s s1))"
    using grows_trans[OF resolve_lambda_grows] by simp
  have inside: "grows (v_scopes s) (v_scopes s1)"
    using assms(3) enter_lambda_ok(3)[OF assms(1,2)] grows_trans by (auto simp: keeps_def)
  have "length (v_scopes (leave_lambda i k s s1)) = length (v_scopes s1)" by (simp add: leave_lambda_def)
  moreover have "scopes_ok (v_scopes s1)" using assms(3) by (simp add: keeps_def parser_ok_def)
  moreover have "v_scope s < length (v_scopes s1)" using assms(1) inside by (simp add: parser_ok_def grows_def)
  ultimately show "keeps s (leave_lambda i k s s1)"
    using out grows_scopes_ok[OF out] grows_trans[OF inside out] by (simp add: keeps_def parser_ok_def leave_lambda_def)
  show "budget (leave_lambda i k s s1) = budget s1" by (simp add: leave_lambda_def budget_def)
qed

lemma lambda_good:
  assumes "parser_ok s" "i < length (v_scopes s)" "v_outer (v_scopes s ! i) = Some (v_scope s)"
    "\<forall>n \<in> set ds. good s n" "keeps (enter_lambda i s) s1" "good s1 body"
  shows "good (leave_lambda i k s s1) (N_lambda p i va k' ds body)"
proof -
  let ?s2 = "leave_lambda i k s s1"
  note out = leave_lambda_ok[OF assms(1,2,5), where k = k]
  have s1: "v_scope s1 = i" "v_can_jump s1 = v_can_jump s" "v_can_return s1" "parser_ok s1"
    using assms(5) enter_lambda_ok[OF assms(1,2)] by (auto simp: keeps_def)
  have "good_node (v_scopes ?s2) i (v_can_jump s) True body"
    using good_node_grows[OF _ out(3)] assms(6) s1 by (simp add: good_def parser_ok_def)
  moreover have "\<forall>n \<in> set ds. good ?s2 n" using assms(1,4) good_keeps out(1) by blast
  moreover have "i < length (v_scopes ?s2)" "v_outer (v_scopes ?s2 ! i) = Some (v_scope s)"
    "v_scope ?s2 = v_scope s" "v_can_jump ?s2 = v_can_jump s" "v_can_return ?s2 = v_can_return s"
    using out(1) assms(2,3) by (auto simp: keeps_def grows_def)
  ultimately show ?thesis by (simp add: good_def)
qed

lemma append_scope_keeps:
  assumes "parser_ok s"
  shows "keeps s (s\<lparr>v_scopes := v_scopes s @ [t_scope_new (Some (v_scope s))]\<rparr>)"
  using assms unfolding keeps_def grows_def parser_ok_def scopes_ok_def
  by (auto simp: nth_append t_scope_new_def less_Suc_eq)

lemma lambda_head_holds:
  assumes "wctype_ok lc" "eats N E" "parser_ok s" "budget s < N" "budget s < n"
  shows "holds (\<lambda>r s1. keeps s s1 \<and> budget s1 \<le> budget s \<and> (\<forall>d \<in> set (snd r). good s1 d)) (lambda_head lc E n i s)"
  using assms(3-) unfolding lambda_head_def
  by (intro wp keeps_refl[OF assms(3)] next_go[OF assms(1,3)]
        holds_go[OF lambda_parameters_holds[OF assms(1,2)] assms(3)] conjI; simp)

lemma lambda_body_holds:
  assumes "wctype_ok lc" "eats N E" "parser_ok s" "budget s < N" "budget s < n"
    "i < length (v_scopes s)" "v_outer (v_scopes s ! i) = Some (v_scope s)" "\<forall>d \<in> set (snd head). good s d"
  shows "holds (passed1 s) (lambda_body lc E n a_at indent i head s)"
proof -
  note into = enter_lambda_ok[OF assms(3,6)]
  have body: "holds (passed1 (enter_lambda i s)) (f_body lc E n indent (enter_lambda i s))"
    using f_body_holds[OF assms(1,2) into(1)] into(2) assms(4,5) by simp
  have out: "passed1 s (N_lambda p i va k (snd head) b) (leave_lambda i k s s1)" if "passed1 (enter_lambda i s) b s1" for b s1 p va k
    using lambda_good[OF assms(3,6,7,8)] leave_lambda_ok[OF assms(3,6)] that into(2) by simp
  show ?thesis
    using holds_mono[OF body out] by (simp add: lambda_body_def Let_def holds_modify)
qed

lemma keeps_outer: "keeps s s1 \<Longrightarrow> i < length (v_scopes s) \<Longrightarrow> v_outer (v_scopes s1 ! i) = v_outer (v_scopes s ! i)"
  by (simp add: keeps_def grows_def)

lemma keeps_scope: "keeps s s1 \<Longrightarrow> v_scope s1 = v_scope s"
  by (simp add: keeps_def)

text \<open>What follows the mark of a lambda, in a state with the new scope.\<close>

lemma lambda_rest_holds:
  assumes "wctype_ok lc" "eats N E" "parser_ok s" "budget s < N" "budget s < n"
    "i < length (v_scopes s)" "v_outer (v_scopes s ! i) = Some (v_scope s)"
  shows "holds (passed1 s) (p_bind (lambda_head lc E n i) (lambda_body lc E n a_at indent i) s)"
proof (rule holds_intros(3), rule holds_mono[OF lambda_head_holds[OF assms(1-5)]])
  fix head :: "bool \<times> t_node list" and s1 assume s1: "keeps s s1 \<and> budget s1 \<le> budget s \<and> (\<forall>d \<in> set (snd head). good s1 d)"
  have "v_outer (v_scopes s1 ! i) = Some (v_scope s1)" "i < length (v_scopes s1)"
    using keeps_outer[OF _ assms(6)] keeps_scope keeps_length[OF assms(6)] s1 assms(7) by auto
  then have "holds (passed1 s1) (lambda_body lc E n a_at indent i head s1)"
    using s1 assms(4,5) by (intro lambda_body_holds[OF assms(1,2)]) (auto intro: keeps_ok)
  then show "holds (passed1 s) (lambda_body lc E n a_at indent i head s1)"
    by (rule holds_from[where start = s]) (use s1 in auto)
qed

lemma target_lambda_holds:
  assumes "wctype_ok lc" "eats N E" "parser_ok s" "budget s \<le> N" "budget s \<le> n" "v_token (v_lexer s) \<noteq> T_EOF"
  shows "holds (took1 s) (target_lambda lc E n a_at s)"
proof -
  let ?new = "\<lambda>s1. s1\<lparr>v_scopes := v_scopes s1 @ [t_scope_new (Some (v_scope s1))]\<rparr>"
  have rest: "holds (took1 s) (p_bind (lambda_head lc E n (length (v_scopes s1))) (lambda_body lc E n a_at indent (length (v_scopes s1))) (?new s1))"
    if s1: "keeps s s1" "budget s1 < budget s" for s1 indent
  proof -
    have new: "keeps s1 (?new s1)" "budget (?new s1) = budget s1" "length (v_scopes s1) < length (v_scopes (?new s1))"
      "v_outer (v_scopes (?new s1) ! length (v_scopes s1)) = Some (v_scope (?new s1))"
      using append_scope_keeps[OF keeps_ok[OF s1(1)]] by (simp_all add: budget_def t_scope_new_def)
    have "holds (passed1 (?new s1)) (p_bind (lambda_head lc E n (length (v_scopes s1))) (lambda_body lc E n a_at indent (length (v_scopes s1))) (?new s1))"
      using new s1(2) assms(4,5) by (intro lambda_rest_holds[OF assms(1,2) keeps_ok[OF new(1)]]) simp_all
    then show ?thesis
      by (rule holds_from[OF _ keeps_trans[OF s1(1) new(1)]]) (use s1(2) new(2) in auto)
  qed
  show ?thesis unfolding target_lambda_def Let_def
    by (intro holds_intros(4-6) next_eat[OF assms(1) keeps_refl[OF assms(3)] assms(6)]) (use rest in \<open>simp only: holds_modify\<close>)
qed

lemma literal_holds:
  assumes "wctype_ok lc" "parser_ok s" "v_token (v_lexer s) \<noteq> T_EOF" "\<And>s1. keeps s s1 \<Longrightarrow> good s1 node"
  shows "holds (took1 s) (literal lc node s)"
  unfolding literal_def by (intro wp next_eat[OF assms(1) keeps_refl[OF assms(2)] assms(3)]) (simp add: assms(4))

lemma jump_holds:
  assumes "wctype_ok lc" "eats N E" "parser_ok s" "budget s \<le> N" "v_token (v_lexer s) \<noteq> T_EOF"
    "\<And>s1 e. keeps s s1 \<Longrightarrow> good s1 e \<Longrightarrow> good s1 (build e)"
  shows "holds (took1 s) (jump lc E build a_at s)"
  using assms(3-5) unfolding jump_def
  by (intro wp keeps_refl[OF assms(3)] next_go[OF assms(1,3)] eats_go[OF assms(2,3)] conjI assms(6); simp)

lemma f_target_holds:
  assumes "wctype_ok lc" "eats N E" "parser_ok s" "budget s \<le> N" "budget s \<le> n"
  shows "holds (took1 s) (f_target lc E n a_assignable s)"
proof -
  have throws: "holds (took1 s) (p_then (next_token lc) (p_bind E (\<lambda>e. p_return (N_throw p e))) s)"
    if "v_token (v_lexer s) = T_THROW" for p
    using assms(3-) that by (intro wp keeps_refl[OF assms(3)] next_go[OF assms(1,3)] eats_go[OF assms(2,3)] conjI; simp)
  have jumps: "v_can_jump s1 = v_can_jump s" "v_can_return s1 = v_can_return s" if "keeps s s1" for s1
    using that by (simp_all add: keeps_def)
  note parts = target_name_holds target_quote_holds target_nodes_holds target_lambda_holds bracket_call_holds target_map_holds
  note rules = parts[OF assms(1,2,3,4)] literal_holds[OF assms(1,3)] jump_holds[OF assms(1-4)] throws
  show ?thesis unfolding f_target_def Let_def
    by (cases "v_token (v_lexer s)"; simp add: Let_def del: holds_simps(3,4); (intro rules impI)?; (simp add: assms(5) jumps)?)
qed

lemma indirect_key_holds:
  assumes "wctype_ok lc" "eats N E" "parser_ok s" "budget s \<le> N" "v_token (v_lexer s) \<noteq> T_EOF"
  shows "holds (took1 s) (indirect_key lc E right s)"
  using assms(3-) unfolding indirect_key_def Let_def
  by (intro wp keeps_refl[OF assms(3)] next_go[OF assms(1,3)] eats_go[OF assms(2,3)] close_go[OF assms(1,3)] conjI; simp)

lemma assigned_holds:
  assumes "wctype_ok lc" "eats N E" "parser_ok s" "budget s \<le> N" "v_token (v_lexer s) \<noteq> T_EOF"
    "\<And>s1 e. \<forall>a. good s a \<longrightarrow> good s1 a \<Longrightarrow> good s1 e \<Longrightarrow> good s1 (build e)"
  shows "holds (took1 s) (assigned lc E a_assignable build s)"
  using assms(3-5) unfolding assigned_def
  by (intro wp keeps_refl[OF assms(3)] next_go[OF assms(1,3)] eats_go[OF assms(2,3)] conjI assms(6); simp)

lemma dot_indirect_holds:
  assumes "wctype_ok lc" "eats N E" "parser_ok s" "budget s \<le> N" "v_token (v_lexer s) = T_LEFT_PARENTHESIS" "good s a_target"
  shows "holds (\<lambda>r. took1 s (snd r)) (dot_indirect lc E a_target a_assignable a_at s)"
  using assms(3-) unfolding dot_indirect_def
  by (intro wp keeps_refl[OF assms(3)] holds_go[OF indirect_key_holds[OF assms(1,2)] assms(3)]
      holds_go[OF assigned_holds[OF assms(1,2)] assms(3)] conjI; simp)

lemma dot_symbol_holds:
  assumes "wctype_ok lc" "eats N E" "parser_ok s" "budget s \<le> N" "v_token (v_lexer s) = T_SYMBOL" "good s a_target"
  shows "holds (\<lambda>r. took1 s (snd r)) (dot_symbol lc E a_target a_assignable a_at s)"
  using assms(3-) unfolding dot_symbol_def Let_def
  by (intro wp keeps_refl[OF assms(3)] next_go[OF assms(1,3)] holds_go[OF assigned_holds[OF assms(1,2)] assms(3)] conjI; simp)

lemma dot_has_holds:
  assumes "wctype_ok lc" "eats N E" "parser_ok s" "budget s \<le> N" "v_token (v_lexer s) \<noteq> T_EOF" "good s a_target"
  shows "holds (\<lambda>r. took1 s (snd r)) (dot_has lc E a_target a_at s)"
proof -
  have dispatch: "holds (\<lambda>r. took1 s1 (snd r)) ((case v_token (v_lexer s1) of
               T_LEFT_PARENTHESIS \<Rightarrow>
                 p_bind (indirect_key lc E T_RIGHT_PARENTHESIS) (\<lambda>key. p_return (True, N_object_has_indirect a_at a_target key))
             | T_SYMBOL \<Rightarrow> p_then (next_token lc) (p_return (True, N_object_has a_at a_target (f_symbol (v_lexer s1))))
             | _ \<Rightarrow> p_throw ''expecting '(' or symbol.'') s1)" if "parser_ok s1" "budget s1 \<le> N" "good s1 a_target" for s1
    using that
    by (cases "v_token (v_lexer s1)")
      (simp_all, auto intro!: holds_go[OF indirect_key_holds[OF assms(1,2)] that(1)] next_go[OF assms(1) that(1)] keeps_refl)
  show ?thesis using assms(3-) unfolding dot_has_def
    by (intro wp keeps_refl[OF assms(3)] next_go[OF assms(1,3)] holds_go[OF dispatch assms(3)] conjI; simp)
qed

lemma action_dot_holds:
  assumes "wctype_ok lc" "eats N E" "parser_ok s" "budget s \<le> N" "v_token (v_lexer s) \<noteq> T_EOF" "good s a_target"
  shows "holds (\<lambda>r. took1 s (snd r)) (action_dot lc E a_target a_assignable a_at s)"
proof -
  have dispatch: "holds (\<lambda>r. took1 s1 (snd r)) ((case v_token (v_lexer s1) of
         T_LEFT_PARENTHESIS \<Rightarrow> dot_indirect lc E a_target a_assignable a_at
       | T_SYMBOL \<Rightarrow> dot_symbol lc E a_target a_assignable a_at
       | T_ATMARK \<Rightarrow> p_then (next_token lc) (p_return (True, N_class a_at a_target))
       | T_HAT \<Rightarrow> p_then (next_token lc) (p_return (True, N_super a_at a_target))
       | T_QUESTION \<Rightarrow> dot_has lc E a_target a_at
       | _ \<Rightarrow> p_throw ''expecting '(' or '?' or '@' or '^' or symbol.'') s1)"
    if "parser_ok s1" "budget s1 \<le> N" "good s1 a_target" for s1
    using that dot_indirect_holds[OF assms(1,2)] dot_symbol_holds[OF assms(1,2)] dot_has_holds[OF assms(1,2)]
    by (cases "v_token (v_lexer s1)") (simp_all, auto intro!: next_go[OF assms(1) that(1)] keeps_refl)
  show ?thesis using assms(3-) unfolding action_dot_def
    by (intro wp keeps_refl[OF assms(3)] next_go[OF assms(1,3)] holds_go[OF dispatch assms(3)] conjI; simp)
qed

lemma f_action_holds:
  assumes "wctype_ok lc" "eats N E"
  shows "parser_ok s \<Longrightarrow> budget s \<le> N \<Longrightarrow> budget s < n \<Longrightarrow> good s a_target \<Longrightarrow>
    holds (passed1 s) (f_action lc E n a_indent a_target a_assignable s)"
proof (induction n arbitrary: s a_target)
  case (Suc n)
  note ok = Suc.prems(1)
  have index: "holds (passed1 s) (p_bind (indirect_key lc E T_RIGHT_BRACKET) (\<lambda>index. p_peek (\<lambda>l1.
                if v_token l1 = T_EQUAL then assigned lc E a_assignable (N_set_at (v_at l) a_target index)
                else f_action lc E n a_indent (N_get_at (v_at l) a_target index) a_assignable)) s)"
    if "v_token (v_lexer s) \<noteq> T_EOF" for l
    using Suc.prems that
    by (intro wp keeps_refl[OF ok] holds_go[OF indirect_key_holds[OF assms] ok] holds_go[OF assigned_holds[OF assms] ok] holds_go[OF Suc.IH ok] conjI; simp)
  have dot: "holds (passed1 s) (p_bind (action_dot lc E a_target a_assignable (v_at l)) (\<lambda>(more, t).
                if more then f_action lc E n a_indent t a_assignable else p_return t) s)"
    if "v_token (v_lexer s) \<noteq> T_EOF" for l
    using Suc.prems that
    by (intro wp keeps_refl[OF ok] holds_go[OF action_dot_holds[OF assms] ok] holds_go[OF Suc.IH ok] conjI; simp)
  have call: "holds (passed1 s) (p_bind (bracket_call lc E (Suc n) (v_at l) a_target T_RIGHT_PARENTHESIS) (\<lambda>t.
                f_action lc E n a_indent t a_assignable) s)"
    if "v_token (v_lexer s) \<noteq> T_EOF" for l
    using Suc.prems that
    by (intro wp keeps_refl[OF ok] holds_go[OF bracket_call_holds[OF assms] ok] holds_go[OF Suc.IH ok] conjI; simp)
  show ?case unfolding f_action.simps
  proof (intro holds_intros(5) holds_if)
    show "holds (passed1 s) (p_return a_target s)" using Suc.prems keeps_refl[OF ok] by simp
  qed (use index dot call Suc.prems keeps_refl[OF ok] in \<open>cases "v_token (v_lexer s)"; simp del: holds_simps(3,4)\<close>)
qed simp

lemma unary_instruction_EOF: "unary_instruction t = Some op \<Longrightarrow> t \<noteq> T_EOF"
  by (cases t) auto

lemma signed_literal_good: "signed_literal op p l = Some t \<Longrightarrow> good s t \<and> v_token l \<noteq> T_EOF"
  by (cases op) (auto simp: signed_literal_def split: if_splits)

lemma f_unary_holds:
  assumes "wctype_ok lc" "eats N E"
  shows "parser_ok s \<Longrightarrow> budget s \<le> N \<Longrightarrow> budget s < n \<Longrightarrow> holds (took1 s) (f_unary lc E n a_assignable s)"
proof (induction n arbitrary: s a_assignable)
  case (Suc n)
  note ok = Suc.prems(1)
  show ?case unfolding f_unary.simps Let_def
    using Suc.prems
    by (intro wp keeps_refl[OF ok] holds_go[OF f_target_holds[OF assms] ok] holds_go[OF f_action_holds[OF assms] ok]
        next_go[OF assms(1) ok] holds_go[OF Suc.IH ok] conjI; simp add: unary_instruction_EOF signed_literal_good)
qed simp

lemma f_unary_eats: "wctype_ok lc \<Longrightarrow> eats N E \<Longrightarrow> n \<le> Suc N \<Longrightarrow> eats n (f_unary lc E n a_assignable)"
  unfolding eats_def[of n] using f_unary_holds by auto

lemma binary_loop_holds:
  assumes "wctype_ok lc" "eats N p" "ops T_EOF = None"
  shows "parser_ok s \<Longrightarrow> budget s \<le> N \<Longrightarrow> budget s < n \<Longrightarrow> good s node \<Longrightarrow> holds (passed1 s) (binary_loop lc ops p n node s)"
proof (induction n arbitrary: s node)
  case (Suc n)
  note ok = Suc.prems(1)
  have [simp]: "ops t = Some op \<Longrightarrow> t \<noteq> T_EOF" for t op using assms(3) by auto
  show ?case unfolding binary_loop.simps
    using Suc.prems
    by (intro wp keeps_refl[OF ok] eats_go[OF assms(2) ok] next_go[OF assms(1) ok] holds_go[OF Suc.IH ok] conjI; simp)
qed simp

lemma branch_loop_holds:
  assumes "wctype_ok lc" "eats N p" "t \<noteq> T_EOF" "\<And>s x y. good s x \<Longrightarrow> good s y \<Longrightarrow> good s (build x y)"
  shows "parser_ok s \<Longrightarrow> budget s \<le> N \<Longrightarrow> budget s < n \<Longrightarrow> good s node \<Longrightarrow> holds (passed1 s) (branch_loop lc t build p n node s)"
proof (induction n arbitrary: s node)
  case (Suc n)
  note ok = Suc.prems(1)
  show ?case unfolding branch_loop.simps
    using Suc.prems assms(3,4)
    by (intro wp keeps_refl[OF ok] eats_go[OF assms(2) ok] next_go[OF assms(1) ok] holds_go[OF Suc.IH ok] conjI; simp)
qed simp

lemma level_eats:
  assumes "wctype_ok lc" "eats n p" "eats n q" "ops T_EOF = None"
  shows "eats n (p_bind p (binary_loop lc ops q n))"
  unfolding eats_def
proof (intro allI impI)
  fix s assume s: "parser_ok s" "budget s < n"
  show "holds (took1 s) (p_bind p (binary_loop lc ops q n) s)"
    using s by (intro wp keeps_refl[OF s(1)] eats_go[OF assms(2) s(1)] holds_go[OF binary_loop_holds[where ops = ops, OF assms(1,3,4)] s(1)] conjI; simp)
qed

lemma branch_eats:
  assumes "wctype_ok lc" "eats n p" "eats n q" "t \<noteq> T_EOF" "\<And>s x y. good s x \<Longrightarrow> good s y \<Longrightarrow> good s (build x y)"
  shows "eats n (p_bind p (branch_loop lc t build q n))"
  unfolding eats_def
proof (intro allI impI)
  fix s assume s: "parser_ok s" "budget s < n"
  show "holds (took1 s) (p_bind p (branch_loop lc t build q n) s)"
    using s by (intro wp keeps_refl[OF s(1)] eats_go[OF assms(2) s(1)] holds_go[OF branch_loop_holds[where build = build, OF assms(1,3,4,5)] s(1)] conjI; simp)
qed

lemma f_or_else_eats:
  assumes "wctype_ok lc" "eats N E" "n \<le> Suc N"
  shows "eats n (f_or_else lc E n a_assignable)"
proof -
  note unary = f_unary_eats[OF assms]
  have "eats n (f_multiplicative lc E n b)" for b
    using level_eats[OF assms(1) unary unary, of multiplicative_instruction] by (simp add: f_multiplicative_def[abs_def])
  from level_eats[OF assms(1) this this] have "eats n (f_additive lc E n b)" for b
    by (simp add: f_additive_def[abs_def])
  from level_eats[OF assms(1) this this] have "eats n (f_shift lc E n b)" for b
    by (simp add: f_shift_def[abs_def])
  from level_eats[OF assms(1) this this] have "eats n (f_relational lc E n b)" for b
    by (simp add: f_relational_def[abs_def])
  from level_eats[OF assms(1) this this] have "eats n (f_equality lc E n b)" for b
    by (simp add: f_equality_def[abs_def])
  from level_eats[OF assms(1) this this] have "eats n (f_and lc E n b)" for b
    by (simp add: f_and_def[abs_def] only_def)
  from level_eats[OF assms(1) this this] have "eats n (f_xor lc E n b)" for b
    by (simp add: f_xor_def[abs_def] only_def)
  from level_eats[OF assms(1) this this] have "eats n (f_or lc E n b)" for b
    by (simp add: f_or_def[abs_def] only_def)
  from branch_eats[OF assms(1) this this] have "eats n (f_and_also lc E n b)" for b
    by (simp add: f_and_also_def[abs_def] and_also_def)
  from branch_eats[OF assms(1) this this] show ?thesis
    by (simp add: f_or_else_def[abs_def] or_else_def)
qed

lemma f_conditional_holds:
  assumes "wctype_ok lc" "eats N E"
  shows "parser_ok s \<Longrightarrow> n \<le> Suc N \<Longrightarrow> budget s < n \<Longrightarrow> holds (took1 s) (f_conditional lc E n a_assignable s)"
proof (induction n arbitrary: s a_assignable)
  case (Suc n)
  note ok = Suc.prems(1)
  show ?case unfolding f_conditional.simps
    using Suc.prems
    by (intro wp keeps_refl[OF ok] eats_go[OF f_or_else_eats[OF assms Suc.prems(2)] ok] next_go[OF assms(1) ok]
        holds_go[OF Suc.IH ok] conjI; simp add: f_single_colon_def)
qed simp

text \<open>A parser run under other flags, which are put back after it.\<close>

abbreviation flagged :: "bool \<Rightarrow> bool \<Rightarrow> t_parser \<Rightarrow> t_parser" where
  "flagged j r s \<equiv> s\<lparr>v_can_jump := j, v_can_return := r\<rparr>"

definition good_under :: "bool \<Rightarrow> bool \<Rightarrow> t_parser \<Rightarrow> t_node \<Rightarrow> bool" where
  "good_under j r s n \<longleftrightarrow> good_node (v_scopes s) (v_scope s) j r n"

lemma good_under_keeps: "good_under j r s n \<Longrightarrow> keeps s s1 \<Longrightarrow> parser_ok s \<Longrightarrow> good_under j r s1 n"
  unfolding good_under_def keeps_def parser_ok_def using good_node_grows by simp

lemma flagged_back:
  assumes "parser_ok s" "passed1 (flagged j r s) a s1"
  shows "keeps s (flagged (v_can_jump s) (v_can_return s) s1)" "budget (flagged (v_can_jump s) (v_can_return s) s1) \<le> budget s"
    "good_under j r (flagged (v_can_jump s) (v_can_return s) s1) a" "v_can_jump s1 = j" "v_can_return s1 = r" "keeps (flagged j r s) s1"
  using assms by (auto simp: keeps_def parser_ok_def budget_def good_def good_under_def)

lemma flagged_ok: "parser_ok (flagged j r s) = parser_ok s" "budget (flagged j r s) = budget s" "v_lexer (flagged j r s) = v_lexer s"
  by (simp_all add: parser_ok_def budget_def)

lemma loop_body_holds:
  assumes "wctype_ok lc" "eats N E" "parser_ok s" "budget s < N" "budget s < n"
  shows "holds (\<lambda>b s1. keeps s s1 \<and> budget s1 \<le> budget s \<and> good_under True (v_can_return s1) s1 b) (loop_body lc E n indent tail s)"
proof -
  let ?ret = "\<lambda>s1. flagged (v_can_jump s) (v_can_return s) s1"
  have body: "holds (passed1 (flagged True (v_can_return s) s)) (f_body lc E n indent (flagged True (v_can_return s) s))"
    using assms(3-5) by (intro f_body_holds[OF assms(1,2)]) (simp_all only: flagged_ok)
  have vary: "keeps s s2 \<and> budget s2 \<le> budget s \<and> good_under True (v_can_return s2) s2 b"
    if s1: "passed1 (flagged True (v_can_return s) s) b s1" and s2: "s2 = update_scope (v_scope s1) (f_vary tail) (flagged (v_can_jump s) (v_can_return s1) s1)" for b s1 s2
  proof -
    note ret = flagged_back[OF assms(3) s1]
    have t2: "s2 = update_scope (v_scope s1) (f_vary tail) (?ret s1)" using s2 ret(5) by simp
    have k: "keeps (?ret s1) s2" unfolding t2 by (rule keeps_update[OF _ keeps_ok[OF ret(1)]]) simp
    have "v_can_return s2 = v_can_return s" "budget s2 = budget (?ret s1)" by (simp_all add: t2)
    then show ?thesis using keeps_trans[OF ret(1) k] ret(2) good_under_keeps[OF ret(3) k keeps_ok[OF ret(1)]] by simp
  qed
  let ?out = "\<lambda>s1. update_scope (v_scope s1) (f_vary tail) (flagged (v_can_jump s) (v_can_return s1) s1)"
  have "holds (\<lambda>b s1. keeps s (?out s1) \<and> budget (?out s1) \<le> budget s \<and> good_under True (v_can_return (?out s1)) (?out s1) b)
      (f_body lc E n indent (flagged True (v_can_return s) s))"
    by (rule holds_mono[OF body]) (rule vary[OF _ refl])
  then show ?thesis unfolding loop_body_def p_flags_def by (simp add: holds_modify)
qed

lemma good_loops [simp]:
  "good s (N_while e b) \<longleftrightarrow> (\<forall>n \<in> set_option e. good s n) \<and> good_under True (v_can_return s) s b"
  "good s (N_for i e f b) \<longleftrightarrow> (\<forall>n \<in> set_option i. good s n) \<and> (\<forall>n \<in> set_option e. good s n) \<and>
     (\<forall>n \<in> set_option f. good s n) \<and> good_under True (v_can_return s) s b"
  by (auto simp: good_def good_under_def)

lemma expression_if_holds:
  assumes "wctype_ok lc" "eats N E" "parser_ok s" "budget s \<le> N" "budget s \<le> n" "v_token (v_lexer s) = T_IF"
  shows "holds (took1 s) (expression_if lc E n s)"
  using assms(3-) unfolding expression_if_def Let_def
  by (intro wp keeps_refl[OF assms(3)] next_go[OF assms(1,3)] holds_go[OF f_options_holds[OF assms(1,2)] assms(3)]
      holds_go[OF f_body_holds[OF assms(1,2)] assms(3)] conjI; simp)

lemma expression_while_holds:
  assumes "wctype_ok lc" "eats N E" "parser_ok s" "budget s \<le> N" "budget s \<le> n" "v_token (v_lexer s) = T_WHILE"
  shows "holds (took1 s) (expression_while lc E n s)"
  using assms(3-) unfolding expression_while_def Let_def
  by (intro wp keeps_refl[OF assms(3)] next_go[OF assms(1,3)] holds_go[OF f_options_holds[OF assms(1,2)] assms(3)]
      holds_go[OF loop_body_holds[OF assms(1,2)] assms(3)] conjI; simp)

lemma expression_for_holds:
  assumes "wctype_ok lc" "eats N E" "parser_ok s" "budget s \<le> N" "budget s \<le> n" "v_token (v_lexer s) = T_FOR"
  shows "holds (took1 s) (expression_for lc E n s)"
  using assms(3-) unfolding expression_for_def Let_def
  by (intro wp keeps_refl[OF assms(3)] next_go[OF assms(1,3)] holds_go[OF f_options_holds[OF assms(1,2)] assms(3)]
      holds_go[OF loop_body_holds[OF assms(1,2)] assms(3)] conjI; simp)

definition good_catch :: "t_parser \<Rightarrow> t_node \<times> variable_ref \<times> t_node \<Rightarrow> bool" where
  "good_catch s c \<longleftrightarrow> (case c of (e, v, d) \<Rightarrow> good s e \<and> fst v = v_scope s \<and> snd v \<in> scope_names (v_scopes s ! v_scope s) \<and> good s d)"

lemma good_catchI:
  "good s e \<Longrightarrow> v_scope s' = v_scope s \<Longrightarrow> x \<in> scope_names (v_scopes s ! v_scope s) \<Longrightarrow> good s d \<Longrightarrow> good_catch s (e, (v_scope s', x), d)"
  by (simp add: good_catch_def)

lemma keeps_scopes: "keeps s s1 \<Longrightarrow> keeps s s2 \<Longrightarrow> v_scope s1 = v_scope s2"
  by (simp add: keeps_def)

lemma good_catch_keeps: "good_catch s c \<Longrightarrow> keeps s s1 \<Longrightarrow> parser_ok s \<Longrightarrow> good_catch s1 c"
  by (auto simp: good_catch_def good_keeps keeps_scope parser_ok_def intro: keeps_name split: prod.splits)

lemma good_try [simp]:
  "good s (N_try b cs f) \<longleftrightarrow> good s b \<and> (\<forall>c \<in> set cs. good_catch s c) \<and> (\<forall>n \<in> set_option f. good_under False False s n)"
  by (auto simp: good_def good_under_def good_catch_def)

lemma variable_go:
  assumes "parser_ok start" "keeps start s" "v_scope s' = v_scope s"
    and "\<And>s1. keeps start s1 \<Longrightarrow> parser_ok s1 \<Longrightarrow> \<forall>a. good s a \<longrightarrow> good s1 a \<Longrightarrow> \<forall>a. good start a \<longrightarrow> good s1 a \<Longrightarrow>
      v_lexer s1 = v_lexer s \<Longrightarrow> budget s1 = budget s \<Longrightarrow> x \<in> scope_names (v_scopes s1 ! v_scope s1) \<Longrightarrow> Q () s1"
  shows "holds Q (p_modify (update_scope (v_scope s') (f_variable x)) s)"
proof (unfold assms(3), rule update_at_from[OF _ _ assms(2)])
  fix s1
  assume s1: "keeps start s1" "keeps s s1" "v_lexer s1 = v_lexer s" "budget s1 = budget s"
    "v_scopes s1 ! v_scope s = f_variable x (v_scopes s ! v_scope s)"
  have "x \<in> scope_names (v_scopes s1 ! v_scope s1)" using s1(5) keeps_scope[OF s1(2)] by simp
  then show "Q () s1" using s1 assms(1,2) by (intro assms(4)) (auto intro: stays)
qed (use keeps_ok[OF assms(2)] in \<open>simp_all add: parser_ok_def\<close>)

lemma catch_body_holds:
  assumes "wctype_ok lc" "eats N E" "parser_ok s" "budget s < N" "budget s < n" "x \<in> scope_names (v_scopes s ! v_scope s)"
  shows "holds (\<lambda>b s1. keeps s s1 \<and> budget s1 \<le> budget s \<and> good s1 b \<and> x \<in> scope_names (v_scopes s1 ! v_scope s1)) (f_body lc E n indent s)"
  by (rule holds_mono[OF f_body_holds[OF assms(1-5)]]) (use assms(3,6) keeps_name keeps_scope in \<open>auto simp: parser_ok_def\<close>)

lemma catch_loop_holds:
  assumes "wctype_ok lc" "eats N E"
  shows "parser_ok s \<Longrightarrow> budget s \<le> N \<Longrightarrow> budget s < n \<Longrightarrow> \<forall>c \<in> set cs. good_catch s c \<Longrightarrow>
    holds (\<lambda>cs s1. keeps s s1 \<and> budget s1 \<le> budget s \<and> (\<forall>c \<in> set cs. good_catch s1 c)) (catch_loop lc E n indent cs s)"
proof (induction n arbitrary: s cs)
  case (Suc n)
  note ok = Suc.prems(1)
  have old: "good_catch s1 c" if "keeps s s1" "c \<in> set cs" for s1 c
    using Suc.prems(4) good_catch_keeps[OF _ that(1) ok] that(2) by blast
  show ?case unfolding catch_loop.simps Let_def
    using Suc.prems(1-3)
    by (intro wp keeps_refl[OF ok] next_go[OF assms(1) ok] eats_go[OF assms(2) ok] variable_go[OF ok]
        holds_go[OF catch_body_holds[OF assms] ok] holds_go[OF Suc.IH ok] conjI ballI; simp; (auto intro: old old[OF keeps_refl[OF ok]] good_catchI keeps_scopes)?)
qed simp

lemma finally_body_holds:
  assumes "wctype_ok lc" "eats N E" "parser_ok s" "budget s < N" "budget s < n"
  shows "holds (\<lambda>b s1. keeps s s1 \<and> budget s1 \<le> budget s \<and> good_under False False s1 b) (finally_body lc E n indent s)"
proof -
  have "holds (passed1 (flagged False False s)) (f_body lc E n indent (flagged False False s))"
    using assms(3-5) by (intro f_body_holds[OF assms(1,2)]) (simp_all only: flagged_ok)
  then have "holds (\<lambda>b s1. keeps s (flagged (v_can_jump s) (v_can_return s) s1) \<and>
      budget (flagged (v_can_jump s) (v_can_return s) s1) \<le> budget s \<and>
      good_under False False (flagged (v_can_jump s) (v_can_return s) s1) b) (f_body lc E n indent (flagged False False s))"
    by (rule holds_mono) (use flagged_back[OF assms(3)] in blast)
  then show ?thesis unfolding finally_body_def p_flags_def by (simp add: holds_modify)
qed

lemma try_go:
  assumes "holds (\<lambda>a s1. keeps s s1 \<and> P a s1) r" "parser_ok start" "keeps start s"
    and "\<And>a s1. keeps start s1 \<Longrightarrow> parser_ok s1 \<Longrightarrow> \<forall>a. good s a \<longrightarrow> good s1 a \<Longrightarrow>
      \<forall>c. good_catch s c \<longrightarrow> good_catch s1 c \<Longrightarrow> P a s1 \<Longrightarrow> Q a s1"
  shows "holds Q r"
  by (rule holds_from[OF assms(1,3)]) (rule assms(4); use assms(2,3) in \<open>auto intro: stays good_catch_keeps\<close>)

lemma next_holds:
  assumes "wctype_ok lc" "parser_ok s" "v_token (v_lexer s) \<noteq> T_EOF"
  shows "holds (\<lambda>_ s1. keeps s s1 \<and> budget s1 < budget s) (next_token lc s)"
  by (rule next_eat[OF assms(1) keeps_refl[OF assms(2)] assms(3)]) simp

lemma expression_try_holds:
  assumes "wctype_ok lc" "eats N E" "parser_ok s" "budget s \<le> N" "budget s \<le> n" "v_token (v_lexer s) = T_TRY"
  shows "holds (took1 s) (expression_try lc E n s)"
  using assms(3-) unfolding expression_try_def Let_def
  by (intro wp keeps_refl[OF assms(3)] try_go[OF next_holds[OF assms(1)] assms(3)] try_go[OF f_body_holds[OF assms(1,2)] assms(3)]
     try_go[OF catch_loop_holds[OF assms(1,2)] assms(3)] try_go[OF finally_body_holds[OF assms(1,2)] assms(3)] conjI; simp del: split_paired_All; blast?)

lemma f_expression_eats:
  assumes "wctype_ok lc"
  shows "eats n (f_expression lc n)"
proof (induction n)
  case 0
  then show ?case by (simp add: eats_def)
next
  case (Suc n)
  note stmts = expression_if_holds expression_while_holds expression_for_holds expression_try_holds
  show ?case unfolding eats_def
  proof (intro allI impI)
    fix s assume s: "parser_ok s" "budget s < Suc n"
    show "holds (took1 s) (f_expression lc (Suc n) s)"
      using s stmts[OF assms Suc.IH s(1)] f_conditional_holds[OF assms Suc.IH s(1)]
      by (cases "v_token (v_lexer s)") (simp_all del: f_conditional.simps)
  qed
qed

section \<open>The whole script\<close>

lemma program_loop_holds:
  assumes "wctype_ok lc" "eats N E"
  shows "parser_ok s \<Longrightarrow> budget s < N \<Longrightarrow> budget s < n \<Longrightarrow> \<forall>n \<in> set nodes. good s n \<Longrightarrow>
    holds (\<lambda>ns s1. keeps s s1 \<and> (\<forall>n \<in> set ns. good s1 n) \<and> v_token (v_lexer s1) = T_EOF) (program_loop lc E n indent nodes s)"
proof (induction n arbitrary: s nodes)
  case (Suc n)
  note ok = Suc.prems(1)
  show ?case using Suc.prems unfolding program_loop.simps
    by (intro wp keeps_refl[OF ok] holds_go[OF f_expressions_holds[OF assms] ok] holds_go[OF Suc.IH ok] conjI; simp)
qed simp

lemma t_parser_run_holds:
  assumes "wctype_ok lc" "parser_ok s" "budget s < n"
  shows "holds (\<lambda>a s1. keeps s s1 \<and> good s1 a \<and> v_token (v_lexer s1) = T_EOF) (t_parser_run lc n s)"
  using assms(2-) unfolding t_parser_run_def
  by (intro wp keeps_refl[OF assms(2)] holds_go[OF program_loop_holds[OF assms(1) f_expression_eats[OF assms(1)]] assms(2)]
      update_go[OF _ assms(2)] conservative_updates conjI; simp)

lemma left_first_line: "left (first_line lc l) \<le> left l"
proof (induction lc l rule: first_line.induct)
  case (1 lc l)
  let ?l1 = "f_read_indent lc l"
  have "left (f_skip_line lc (?l1\<lparr>v_indent := []\<rparr>)) \<le> left ?l1"
    using left_f_skip_line[of lc "?l1\<lparr>v_indent := []\<rparr>"] stream_le_left[of ?l1] by simp
  then show ?case
    using 1[OF refl] left_f_read_indent[of lc l] unfolding first_line.simps[of lc l] Let_def
    by (cases "blank (v_c ?l1)") (simp_all del: first_line.simps f_read_indent.simps f_skip_line.simps)
qed

lemma parse_script_holds:
  assumes "wctype_ok lc" "Suc (length text) < n"
  shows "holds (\<lambda>a s. v_scope s = 0 \<and> \<not> v_can_jump s \<and> \<not> v_can_return s \<and> parser_ok s \<and> good s a \<and> v_token (v_lexer s) = T_EOF)
    (parse_script lc n text)"
proof (cases "t_lexer_new lc text")
  case (Inr l)
  let ?s = "\<lparr>v_lexer = l, v_scopes = [t_scope_new None], v_scope = 0, v_can_jump = False, v_can_return = False\<rparr>"
  have "left l \<le> length text"
    by (rule order_trans[OF f_next_le[OF assms(1) Inr[unfolded t_lexer_new_def]]], rule order_trans[OF left_first_line])
      (simp add: getwc_def left_def split: list.splits)
  then have "budget ?s < n" using assms(2) by (simp add: budget_def)
  moreover have "parser_ok ?s" by (simp add: parser_ok_def scopes_ok_def t_scope_new_def)
  ultimately have "holds (\<lambda>a s1. keeps ?s s1 \<and> good s1 a \<and> v_token (v_lexer s1) = T_EOF) (t_parser_run lc n ?s)"
    by (intro t_parser_run_holds[OF assms(1)])
  then show ?thesis unfolding parse_script_def Inr by (auto elim: holds_mono simp: keeps_def)
qed (simp add: parse_script_def holds_def)

section \<open>Properties\<close>

text \<open>C25: the parser returns on every text, with a tree or with an error, when the fuel of its loops is more than
  one above the length of the text: no input makes it run forever.\<close>
theorem parser_terminates:
  assumes "wctype_ok lc" "Suc (length text) < n"
  shows "\<exists>r. parse_script lc n text = Some r"
  using holds_Some[OF parse_script_holds[OF assms]] .

theorem parser_terminates_witness: "\<exists>r. parse_script c_locale 9 (wide ''x = a'') = Some r"
  by (rule parser_terminates[OF c_locale_ok]) (simp add: wide_def)





end
