(* ===== verification/Xm_Slots.thy ===== *)
theory Xm_Slots
  imports Xm_Parser_Correct
begin

text \<open>
  The slots that the parser gives to variables (\<open>t_scope::f_classify\<close> and the end of a lambda and of the
  script, src/src/parser.cc, src/src/ast.cc): a variable that an inner function uses lives in the
  heap-allocated scope, any other on the stack.

  \<open>scope_wf\<close> is what the parser keeps of a scope while it is open, as long as no parameter is named twice;
  \<open>slots_ok\<close> is what later passes rely on: every variable has a slot, no two share one, and all slots are
  within the sizes that the code reserves.  Two scripts show what the parser does when a parameter is named
  twice, and that a loop around a lambda lets \<open>break\<close> into the lambda.
\<close>

section \<open>Reading variables\<close>

definition scope_wf :: "t_scope \<Rightarrow> bool" where
  "scope_wf sc \<longleftrightarrow> distinct (v_privates sc) \<and> set (v_privates sc) = scope_names sc \<and> v_privates_size sc = length (v_privates sc)"

lemma map_of_update_variable:
  "map_of (v_variables (update_variable x f sc)) y = (if y = x then map_option f (map_of (v_variables sc) y) else map_of (v_variables sc) y)"
proof -
  have "map_of (map (\<lambda>(k, v). (k, if k = x then f v else v)) vs) y = (if y = x then map_option f (map_of vs y) else map_of vs y)" for vs
    by (induction vs) auto
  then show ?thesis by (simp add: update_variable_def)
qed

lemma update_variable_simps [simp]:
  "v_privates (update_variable x f sc) = v_privates sc" "v_privates_size (update_variable x f sc) = v_privates_size sc"
  "v_shareds (update_variable x f sc) = v_shareds sc" "v_self_shared (update_variable x f sc) = v_self_shared sc"
  by (simp_all add: update_variable_def)

lemma name_variable: "x \<in> scope_names sc \<Longrightarrow> \<exists>v. map_of (v_variables sc) x = Some v"
  by (metis scope_names_def image_set map_of_eq_None_iff not_None_eq)

lemma index_of_simps [simp]:
  "x \<in> scope_names sc \<Longrightarrow> index_of (update_variable x (\<lambda>v. v\<lparr>v_index := Some i\<rparr>) sc) x = Some i"
  "y \<noteq> x \<Longrightarrow> index_of (update_variable x f sc) y = index_of sc y"
  "is_shared (update_variable x (\<lambda>v. v\<lparr>v_index := w\<rparr>) sc) = is_shared sc"
  "index_of (sc\<lparr>v_privates := ps\<rparr>) = index_of sc" "index_of (sc\<lparr>v_privates_size := k\<rparr>) = index_of sc"
  "index_of (sc\<lparr>v_shareds := k\<rparr>) = index_of sc"
  "is_shared (sc\<lparr>v_privates := ps\<rparr>) = is_shared sc" "is_shared (sc\<lparr>v_privates_size := k\<rparr>) = is_shared sc"
  "is_shared (sc\<lparr>v_shareds := k\<rparr>) = is_shared sc"
  using name_variable[of x sc]
  by (auto simp: index_of_def is_shared_def map_of_update_variable fun_eq_iff split: option.splits)

section \<open>Numbering\<close>

text \<open>\<open>f_classify\<close> gives the shared variables the next slots of the scope and the others the next slots of
  the stack, both in their order.\<close>

lemma classify_frame:
  "is_shared (classify kept ps sc) = is_shared sc"
  "y \<notin> set ps \<Longrightarrow> index_of (classify kept ps sc) y = index_of sc y"
  "v_privates (classify kept ps sc) = kept @ filter (\<lambda>p. \<not> is_shared sc p) ps"
  "v_shareds (classify kept ps sc) = v_shareds sc + length (filter (is_shared sc) ps)"
  "v_privates_size (classify kept ps sc) = v_privates_size sc + length (filter (\<lambda>p. \<not> is_shared sc p) ps)"
  by (induction kept ps sc rule: classify.induct) auto

lemma classify_index:
  assumes "distinct ps" "set ps \<subseteq> scope_names sc"
  shows "map (index_of (classify kept ps sc)) (filter (is_shared sc) ps) = map Some [v_shareds sc..<v_shareds (classify kept ps sc)]"
    "map (index_of (classify kept ps sc)) (filter (\<lambda>p. \<not> is_shared sc p) ps) =
       map Some [v_privates_size sc..<v_privates_size (classify kept ps sc)]"
  using assms
proof (induction kept ps sc rule: classify.induct)
  case (2 kept p ps sc)
  {
    case 1
    then show ?case using 2(1,3) by (auto simp: classify_frame upt_conv_Cons simp del: upt_Suc)
  next
    case 2
    then show ?case using "2.IH" by (auto simp: classify_frame upt_conv_Cons simp del: upt_Suc)
  }
qed auto

lemma index_arguments_frame:
  "is_shared (index_arguments i k sc) = is_shared sc" "v_privates (index_arguments i k sc) = v_privates sc"
  "v_privates_size (index_arguments i k sc) = v_privates_size sc"
  by (induction i k sc rule: index_arguments.induct) (auto simp: Let_def)

lemma index_arguments_shareds:
  "i + k \<le> length (v_privates sc) \<Longrightarrow>
   v_shareds (index_arguments i k sc) = v_shareds sc + length (filter (is_shared sc) (take k (drop i (v_privates sc))))"
proof (induction i k sc rule: index_arguments.induct)
  case (2 i k sc)
  then have "drop i (v_privates sc) = v_privates sc ! i # drop (Suc i) (v_privates sc)" by (simp add: Cons_nth_drop_Suc)
  then show ?case using 2 by (auto simp: Let_def)
qed simp

lemma index_arguments_other:
  "i + k \<le> length (v_privates sc) \<Longrightarrow> y \<notin> set (take k (drop i (v_privates sc))) \<Longrightarrow> index_of (index_arguments i k sc) y = index_of sc y"
proof (induction i k sc rule: index_arguments.induct)
  case (2 i k sc)
  then have "drop i (v_privates sc) = v_privates sc ! i # drop (Suc i) (v_privates sc)" by (simp add: Cons_nth_drop_Suc)
  then show ?case using 2 by (auto simp: Let_def)
qed simp

lemma index_arguments_index:
  assumes "distinct (v_privates sc)" "set (v_privates sc) = scope_names sc" "i + k \<le> length (v_privates sc)"
  shows "map (index_of (index_arguments i k sc)) (filter (is_shared sc) (take k (drop i (v_privates sc)))) =
       map Some [v_shareds sc..<v_shareds (index_arguments i k sc)]"
    "i \<le> j \<Longrightarrow> j < i + k \<Longrightarrow> \<not> is_shared sc (v_privates sc ! j) \<Longrightarrow> index_of (index_arguments i k sc) (v_privates sc ! j) = Some j"
  using assms
proof (induction i k sc rule: index_arguments.induct)
  case (2 i k sc)
  let ?p = "v_privates sc ! i"
  {
    case 1
    have d: "drop i (v_privates sc) = ?p # drop (Suc i) (v_privates sc)" using 1 by (simp add: Cons_nth_drop_Suc)
    have "?p \<notin> set (take k (drop (Suc i) (v_privates sc)))" using 1(1) d by (metis distinct.simps(2) distinct_drop in_set_takeD)
    moreover have "?p \<in> scope_names sc" using 1(2,3) nth_mem[of i "v_privates sc"] by simp
    ultimately show ?case using "2.IH"(1)[OF refl] 1 d
      by (auto simp: Let_def index_arguments_shareds index_arguments_other index_arguments_frame upt_conv_Cons simp del: upt_Suc)
  next
    case 2
    have d: "drop i (v_privates sc) = ?p # drop (Suc i) (v_privates sc)" using 2 by (simp add: Cons_nth_drop_Suc)
    have "?p \<notin> set (take k (drop (Suc i) (v_privates sc)))" using 2(4) d by (metis distinct.simps(2) distinct_drop in_set_takeD)
    moreover have "?p \<in> scope_names sc" using 2(5,6) nth_mem[of i "v_privates sc"] by simp
    ultimately have own: "\<not> is_shared sc ?p \<Longrightarrow> index_of (index_arguments i (Suc k) sc) ?p = Some i"
      using 2(6) by (simp add: Let_def index_arguments_other)
    show ?case
    proof (cases "j = i")
      case True
      then show ?thesis using own 2(3) by simp
    next
      case False
      then show ?thesis using "2.IH"(2)[OF refl] 2 by (auto simp: Let_def)
    qed
  }
qed auto

section \<open>Slots of a finished scope\<close>

definition slots_ok :: "t_scope \<Rightarrow> bool" where
  "slots_ok sc \<longleftrightarrow>
     (\<forall>x \<in> scope_names sc. case index_of sc x of None \<Rightarrow> False
        | Some i \<Rightarrow> if is_shared sc x then (if v_self_shared sc then 0 < i else True) \<and> i < v_shareds sc else i < v_privates_size sc) \<and>
     (\<forall>x \<in> scope_names sc. \<forall>y \<in> scope_names sc.
        index_of sc x = index_of sc y \<and> is_shared sc x = is_shared sc y \<longrightarrow> x = y)"

text \<open>A list of variables that takes consecutive slots.\<close>

lemma consecutive_nth:
  assumes "map f xs = map Some [a..<b]" "x \<in> set xs"
  shows "\<exists>i. f x = Some i \<and> a \<le> i \<and> i < b"
proof -
  have "f x \<in> set (map Some [a..<b])" using assms by (metis image_eqI list.set_map)
  then show ?thesis by auto
qed

lemma consecutive_inj:
  assumes "map f xs = map Some [a..<b]" "x \<in> set xs" "y \<in> set xs" "f x = f y"
  shows "x = y"
proof -
  have "distinct (map f xs)" unfolding assms(1) by (simp add: distinct_map)
  then show ?thesis using assms(2-) by (auto simp: distinct_map inj_on_def)
qed

lemma finish_split:
  fixes ps :: "symbol list"
  assumes "distinct ps" "k \<le> length ps" "0 < k"
  shows "takeWhile (\<lambda>q. q \<noteq> ps ! (k - 1)) ps @ [ps ! (k - 1)] = take k ps" "privates_after (Some (ps ! (k - 1))) ps = drop k ps"
    "ps ! (k - 1) = last ps \<longleftrightarrow> k = length ps"
proof -
  have split: "ps = take (k - 1) ps @ ps ! (k - 1) # drop k ps"
    using assms(2,3) id_take_nth_drop[of "k - 1" ps] by simp
  have "ps ! (k - 1) \<notin> set (take (k - 1) ps)"
    using assms(1) split by (metis disjoint_iff distinct_append list.set_intros(1))
  then have tw: "takeWhile (\<lambda>q. q \<noteq> ps ! (k - 1)) ps = take (k - 1) ps" "dropWhile (\<lambda>q. q \<noteq> ps ! (k - 1)) ps = ps ! (k - 1) # drop k ps"
    by (subst split, subst takeWhile_append2 dropWhile_append2; auto)+
  show "takeWhile (\<lambda>q. q \<noteq> ps ! (k - 1)) ps @ [ps ! (k - 1)] = take k ps"
    using tw(1) assms(2,3) take_Suc_conv_app_nth[of "k - 1" ps] by simp
  show "privates_after (Some (ps ! (k - 1))) ps = drop k ps" using tw(2) by (simp add: privates_after_def)
  show "ps ! (k - 1) = last ps \<longleftrightarrow> k = length ps"
  proof -
    have "ps ! (k - 1) = ps ! (length ps - 1) \<longleftrightarrow> k - 1 = length ps - 1"
      by (rule nth_eq_iff_index_eq[OF assms(1)]) (use assms in auto)
    moreover have "last ps = ps ! (length ps - 1)" using assms(2,3) by (intro last_conv_nth) auto
    ultimately show ?thesis using assms(2,3) by auto
  qed
qed

lemma finish_lambda_classify:
  assumes "scope_wf sc" "k \<le> length (v_privates sc)"
  shows "finish_lambda k sc =
    (let sc1 = index_arguments 0 k (if v_self_shared sc then sc\<lparr>v_shareds := Suc (v_shareds sc)\<rparr> else sc)
     in if k = length (v_privates sc) then sc1 else classify (take k (v_privates sc)) (drop k (v_privates sc)) (sc1\<lparr>v_privates_size := k\<rparr>))"
proof -
  let ?sc = "if v_self_shared sc then sc\<lparr>v_shareds := Suc (v_shareds sc)\<rparr> else sc"
  let ?ps = "v_privates sc"
  have ps: "v_privates (index_arguments 0 k ?sc) = ?ps" by (simp add: index_arguments_frame)
  show ?thesis
  proof (cases "k = 0")
    case True
    then show ?thesis using ps by (auto simp: finish_lambda_def Let_def f_classify_def)
  next
    case False
    then have "(k - 1) mod length ?ps = k - 1" using assms(2) by simp
    then show ?thesis
      using False ps finish_split[of ?ps k] assms by (auto simp: finish_lambda_def Let_def f_classify_def scope_wf_def)
  qed
qed

lemma finish_lambda_self [simp]: "v_self_shared (finish_lambda k sc) = v_self_shared sc"
proof -
  have c: "v_self_shared (classify kept ps sc1) = v_self_shared sc1" for kept ps sc1
    by (induction kept ps sc1 rule: classify.induct) auto
  have i: "v_self_shared (index_arguments i k sc1) = v_self_shared sc1" for i k sc1
    by (induction i k sc1 rule: index_arguments.induct) (auto simp: Let_def)
  show ?thesis by (simp add: finish_lambda_def f_classify_def Let_def c i)
qed

lemma finish_lambda_slots:
  assumes "scope_wf sc" "k \<le> length (v_privates sc)"
  defines "base \<equiv> v_shareds sc + (if v_self_shared sc then 1 else 0)"
    and "sc1 \<equiv> finish_lambda k sc"
  shows "is_shared sc1 = is_shared sc"
    "map (index_of sc1) (filter (is_shared sc) (v_privates sc)) = map Some [base..<v_shareds sc1]"
    "map (index_of sc1) (filter (\<lambda>p. \<not> is_shared sc p) (drop k (v_privates sc))) = map Some [k..<v_privates_size sc1]"
    "j < k \<Longrightarrow> \<not> is_shared sc (v_privates sc ! j) \<Longrightarrow> index_of sc1 (v_privates sc ! j) = Some j"
    "k \<le> v_privates_size sc1" "base \<le> v_shareds sc1"
proof -
  let ?sc = "if v_self_shared sc then sc\<lparr>v_shareds := Suc (v_shareds sc)\<rparr> else sc"
  let ?ps = "v_privates sc"
  let ?sc2 = "index_arguments 0 k ?sc"
  have wf: "distinct (v_privates ?sc)" "set (v_privates ?sc) = scope_names ?sc" "0 + k \<le> length (v_privates ?sc)"
    using assms(1,2) by (auto simp: scope_wf_def)
  have sh: "is_shared ?sc = is_shared sc" "v_privates ?sc = ?ps" "v_shareds ?sc = base" by (simp_all add: base_def)
  note frame = index_arguments_frame[where sc = ?sc, unfolded sh]
  note args = index_arguments_index[OF wf, unfolded sh]
  note args_n = index_arguments_shareds[OF wf(3), unfolded sh]
  have sc1: "sc1 = (if k = length ?ps then ?sc2 else classify (take k ?ps) (drop k ?ps) (?sc2\<lparr>v_privates_size := k\<rparr>))"
    using finish_lambda_classify[OF assms(1,2)] by (simp add: sc1_def Let_def)
  show shared: "is_shared sc1 = is_shared sc" by (simp add: sc1 classify_frame frame)
  have parts: "distinct ?ps" "set ?ps = scope_names sc" "distinct (drop k ?ps)" "set (take k ?ps) \<inter> set (drop k ?ps) = {}"
    using wf by (auto simp: sh set_take_disj_set_drop_if_distinct)
  have sub: "set (drop k ?ps) \<subseteq> scope_names (?sc2\<lparr>v_privates_size := k\<rparr>)"
    using parts(2) by (auto dest: in_set_dropD)
  note rest = classify_index[OF parts(3) sub, of "take k ?ps"]
  have old: "index_of sc1 x = index_of ?sc2 x" if "x \<in> set (take k ?ps)" for x
  proof -
    have "x \<notin> set (drop k ?ps)" using that parts(4) by blast
    then show ?thesis by (simp add: sc1 classify_frame)
  qed
  show "j < k \<Longrightarrow> \<not> is_shared sc (?ps ! j) \<Longrightarrow> index_of sc1 (?ps ! j) = Some j"
  proof -
    assume j: "j < k" "\<not> is_shared sc (?ps ! j)"
    have "?ps ! j \<in> set (take k ?ps)" using j(1) assms(2) by (auto simp: in_set_conv_nth intro!: exI[of _ j])
    then show ?thesis using old args(2)[of j] j by simp
  qed
  show "map (index_of sc1) (filter (\<lambda>p. \<not> is_shared sc p) (drop k ?ps)) = map Some [k..<v_privates_size sc1]"
    using rest(2) assms(1) by (simp add: sc1 frame scope_wf_def)
  show "k \<le> v_privates_size sc1" using assms(1) by (auto simp: sc1 classify_frame frame scope_wf_def)
  have n: "base \<le> v_shareds ?sc2" "v_shareds ?sc2 \<le> v_shareds sc1" using args_n by (auto simp: sc1 classify_frame)
  then show "base \<le> v_shareds sc1" by simp
  have "map (index_of sc1) (filter (is_shared sc) (take k ?ps)) = map Some [base..<v_shareds ?sc2]"
  proof -
    have "map (index_of sc1) (filter (is_shared sc) (take k ?ps)) = map (index_of ?sc2) (filter (is_shared sc) (take k ?ps))"
      by (rule map_cong[OF refl]) (use old in simp)
    then show ?thesis using args(1) by (simp only: drop_0)
  qed
  moreover have "map (index_of sc1) (filter (is_shared sc) (drop k ?ps)) = map Some [v_shareds ?sc2..<v_shareds sc1]"
    using rest(1) by (simp add: sc1 frame)
  ultimately have "map (index_of sc1) (filter (is_shared sc) (take k ?ps @ drop k ?ps)) = map Some [base..<v_shareds sc1]"
    using upt_add_eq_append[OF n(1), of "v_shareds sc1 - v_shareds ?sc2"] n(2)
    by (simp only: filter_append map_append le_add_diff_inverse)
  then show "map (index_of sc1) (filter (is_shared sc) ?ps) = map Some [base..<v_shareds sc1]" by simp
qed

lemma slots_okI:
  assumes "scope_wf sc" "k \<le> length (v_privates sc)"
  shows "slots_ok (finish_lambda k sc)"
proof -
  let ?sc1 = "finish_lambda k sc"
  let ?ps = "v_privates sc"
  note slots = finish_lambda_slots[OF assms]
  have ps: "distinct ?ps" "scope_names ?sc1 = set ?ps" using assms(1) by (auto simp: scope_wf_def)
  have shared: "x \<in> set (filter (is_shared sc) ?ps)" if "x \<in> set ?ps" "is_shared sc x" for x using that by simp
  have place: "(\<exists>j < k. x = ?ps ! j \<and> index_of ?sc1 x = Some j) \<or> x \<in> set (filter (\<lambda>p. \<not> is_shared sc p) (drop k ?ps))"
    if x: "x \<in> set ?ps" "\<not> is_shared sc x" for x
  proof -
    obtain j where j: "j < length ?ps" "x = ?ps ! j" using x(1) by (auto simp: in_set_conv_nth)
    show ?thesis
    proof (cases "j < k")
      case True
      then show ?thesis using slots(4)[of j] j x(2) by auto
    next
      case False
      then have "x \<in> set (drop k ?ps)" using j by (auto simp: in_set_conv_nth intro!: exI[of _ "j - k"])
      then show ?thesis using x(2) by simp
    qed
  qed
  have range: "case index_of ?sc1 x of None \<Rightarrow> False
      | Some i \<Rightarrow> if is_shared ?sc1 x then (if v_self_shared ?sc1 then 0 < i else True) \<and> i < v_shareds ?sc1 else i < v_privates_size ?sc1"
    if x: "x \<in> set ?ps" for x
  proof (cases "is_shared sc x")
    case True
    then show ?thesis using consecutive_nth[OF slots(2) shared[OF x True]] by (auto simp: slots(1))
  next
    case False
    have "\<exists>i. index_of ?sc1 x = Some i \<and> i < v_privates_size ?sc1"
      using place[OF x False] consecutive_nth[OF slots(3), of x] slots(5) by fastforce
    then show ?thesis using False by (auto simp: slots(1))
  qed
  have inj: "x = y" if "x \<in> set ?ps" "y \<in> set ?ps" "index_of ?sc1 x = index_of ?sc1 y" "is_shared sc x = is_shared sc y" for x y
  proof (cases "is_shared sc x")
    case True
    then show ?thesis using consecutive_inj[OF slots(2)] shared that by metis
  next
    case False
    then have "\<not> is_shared sc y" using that(4) by simp
    from place[OF that(1) False] place[OF that(2) this] show ?thesis
      using consecutive_nth[OF slots(3)] consecutive_inj[OF slots(3)] that(3) by fastforce
  qed
  show ?thesis unfolding slots_ok_def ps(2)
    by (intro conjI ballI impI) (rule range, assumption, rule inj, simp_all add: slots(1))
qed


lemma scope_wf_new: "scope_wf (t_scope_new outer)"
  by (simp add: scope_wf_def t_scope_new_def scope_names_def)

lemma scope_wf_updates:
  assumes "scope_wf sc"
  shows "scope_wf (update_variable x f sc)" "scope_wf (f_variable x sc)" "x \<notin> scope_names sc \<Longrightarrow> scope_wf (add_parameter x sc)"
    "scope_wf (scope_assign outer x sc)" "scope_wf (scope_refer outer x sc)" "scope_wf (f_vary p sc)"
proof -
  show upd: "scope_wf (update_variable x f sc)" for x f using assms by (simp add: scope_wf_def)
  have push: "takeWhile (\<lambda>q. q \<noteq> x) (v_privates sc) = v_privates sc" if "x \<notin> scope_names sc" for x
    using assms that by (intro takeWhile_eq_all_conv[THEN iffD2]) (auto simp: scope_wf_def)
  show add: "scope_wf (add_parameter x sc)" if "x \<notin> scope_names sc" for x
  proof -
    have "v_privates (add_parameter x sc) = v_privates sc @ [x]" "v_privates_size (add_parameter x sc) = Suc (v_privates_size sc)"
      using push[OF that] by (simp_all add: add_parameter_def privates_push_def add_variable_def)
    moreover have "scope_names (add_parameter x sc) = insert x (scope_names sc)" by (simp add: add_parameter_def)
    ultimately show ?thesis using assms that by (auto simp: scope_wf_def)
  qed
  have none: "map_of (v_variables sc) x = None \<longleftrightarrow> x \<notin> scope_names sc" for x
    by (simp add: map_of_eq_None_iff scope_names_def)
  show var: "scope_wf (f_variable x sc)" for x
    using add[of x] upd by (simp add: f_variable_def none add_parameter_def)
  show "scope_wf (scope_refer outer x sc)" using assms by (simp add: scope_wf_def scope_refer_def)
  show "scope_wf (scope_assign outer x sc)"
    using var[of x] by (simp add: scope_assign_def Let_def scope_wf_def)
  have "scope_wf sc1 \<Longrightarrow> scope_wf (fold (\<lambda>x. update_variable x g) xs sc1)" for xs sc1 and g :: "t_variable \<Rightarrow> t_variable"
    by (induction xs arbitrary: sc1) (simp_all add: scope_wf_def)
  then show "scope_wf (f_vary p sc)" using assms by (simp add: f_vary_def)
qed


section \<open>Properties\<close>

text \<open>C26: at the end of a lambda whose parameters have different names, every variable of its scope has a slot
  within the sizes reserved, no two variables share a slot, slot 0 of the shared ones is left to a captured
  \<open>self\<close>, and a parameter that no inner function uses is found at its own position on the stack.\<close>
theorem lambda_slots:
  assumes "scope_wf sc" "k \<le> length (v_privates sc)"
  shows "slots_ok (finish_lambda k sc) \<and>
    (\<forall>j < k. \<not> is_shared sc (v_privates sc ! j) \<longrightarrow> index_of (finish_lambda k sc) (v_privates sc ! j) = Some j)"
  using slots_okI[OF assms] finish_lambda_slots(4)[OF assms] by blast

theorem lambda_slots_witness:
  "slots_ok (finish_lambda 1 (f_variable [98] (add_parameter [97] (t_scope_new (Some 0)))))"
  using lambda_slots[of "f_variable [98] (add_parameter [97] (t_scope_new (Some 0)))" 1]
    scope_wf_updates(2)[OF scope_wf_updates(3)[OF scope_wf_new], of "[97]" "Some 0" "[98]"]
  by (simp add: f_variable_def add_parameter_def add_variable_def privates_push_def t_scope_new_def scope_names_def)






end
