(* ===== verification/Xm_Flow.thy ===== *)
theory Xm_Flow
  imports Xm_Parser_Correct
begin

text \<open>
  The data-flow analysis of local variables (src/include/xemmai/ast.h \<open>t_block\<close>, \<open>t_flow\<close>; src/src/ast.cc
  \<open>f_flow\<close>, \<open>f_analyze\<close>).  It tells the emitter where a variable of the stack may already hold a value and
  where its value is still needed, so that the emitter can clear it at the joins of the control flow.

  A node that branches owns some blocks.  A block is named by the place of its node in the tree, a list of
  child numbers with the innermost first, and by its role in the node; the C++ members are such names with
  the address of the node in place of its path.  \<open>f_flow\<close> links the blocks of one function and records the
  first use of each variable in each block; \<open>f_solve\<close> is the pair of worklist loops that \<open>f_analyze\<close> runs
  over the linked blocks.  The blocks of a function are kept in a table of its own: \<open>f_analyze\<close> of a lambda
  starts from its own body and never sees a block of the function around it.

  The indices of variables are kept at the width of the code: a difference of two \<open>size_t\<close>, narrowed to
  \<open>int\<close> where the source does so.
\<close>

section \<open>Blocks\<close>

datatype block_name =
    B_block_body | B_junction
  | B_block_true | B_block_false | B_block_exit
  | B_junction_condition | B_block_condition | B_junction_exit | B_junction_next | B_block_next
  | B_junction_try | B_block_try | B_junction_finally | B_block_finally
  | B_catch_expression nat | B_catch_body nat

type_synonym t_path = "nat list"
type_synonym block_id = "t_path \<times> block_name"

record t_private =
  v_in :: bool
  v_out :: bool
  v_define :: bool
  v_use :: bool

definition t_private_new :: t_private where
  "t_private_new = \<lparr>v_in = False, v_out = False, v_define = False, v_use = False\<rparr>"

record t_block =
  v_forward :: bool
  v_backward :: bool
  v_block_privates :: "t_private list"
  v_previouses :: "block_id list"
  v_nexts :: "block_id list"

definition t_block_new :: t_block where
  "t_block_new = \<lparr>v_forward = False, v_backward = False, v_block_privates = [], v_previouses = [], v_nexts = []\<rparr>"

type_synonym t_blocks = "block_id \<Rightarrow> t_block"

text \<open>\<open>std::vector::resize\<close>, which throws beyond \<open>max_size\<close> (elements of four bytes).\<close>

definition max_privates :: int where "max_privates = (2 ^ 63 - 1) div 4"

definition resize :: "nat \<Rightarrow> t_private list \<Rightarrow> t_private list" where
  "resize n xs = take n xs @ replicate (n - length xs) t_private_new"

definition resize_checked :: "int \<Rightarrow> t_private list \<Rightarrow> t_private list result" where
  "resize_checked n xs = (if max_privates < n then Inl (Thrown ''length_error'') else Inr (resize (nat n) xs))"

text \<open>\<open>t_block::f_use\<close>: only the first use in a block counts.\<close>

definition use_private :: "bool \<Rightarrow> t_private \<Rightarrow> t_private" where
  "use_private a_put x = (if v_out x then x else x\<lparr>v_out := True, v_define := a_put, v_use := \<not> a_put\<rparr>)"

definition f_use :: "i64 \<Rightarrow> bool \<Rightarrow> t_block \<Rightarrow> t_block result" where
  "f_use a_i a_put b =
     bind_result (if int (length (v_block_privates b)) < uint (a_i + 1) then resize_checked (uint (a_i + 1)) (v_block_privates b)
                  else Inr (v_block_privates b))
       (\<lambda>xs. if uint a_i < int (length xs)
              then Inr (b\<lparr>v_block_privates := xs[unat a_i := use_private a_put (xs ! unat a_i)]\<rparr>)
              else Inl (Undefined ''private index''))"

definition f_next :: "block_id \<Rightarrow> block_id \<Rightarrow> t_blocks \<Rightarrow> t_blocks" where
  "f_next p q bs =
     (let bs1 = bs(q := (bs q)\<lparr>v_previouses := v_previouses (bs q) @ [p]\<rparr>)
      in bs1(p := (bs1 p)\<lparr>v_nexts := v_nexts (bs1 p) @ [q]\<rparr>))"

text \<open>The loops of \<open>f_forward\<close> and \<open>f_backward\<close>: the privates of a neighbour are merged into those of the
  block, index by index; the flag tells whether anything changed.\<close>

fun forward_privates :: "t_private list \<Rightarrow> t_private list \<Rightarrow> (bool \<times> t_private list) result" where
  "forward_privates [] xs = Inr (False, xs)"
| "forward_privates (a # as) [] = (if v_out a then Inl (Undefined ''private index'') else forward_privates as [])"
| "forward_privates (a # as) (x # xs) =
     bind_result (forward_privates as xs) (\<lambda>(b, ys).
       if v_out a \<and> \<not> v_in x then Inr (True, x\<lparr>v_in := True, v_out := True\<rparr> # ys) else Inr (b, x # ys))"

definition f_forward :: "t_private list \<Rightarrow> t_block \<Rightarrow> (bool \<times> t_block) result" where
  "f_forward a_privates x =
     (let b = \<not> v_forward x
      in bind_result (if b then resize_checked (int (length a_privates)) (v_block_privates x) else Inr (v_block_privates x))
        (\<lambda>xs. bind_result (forward_privates a_privates xs)
          (\<lambda>(c, ys). Inr (b \<or> c, x\<lparr>v_forward := True, v_block_privates := ys\<rparr>))))"

fun backward_privates :: "t_private list \<Rightarrow> t_private list \<Rightarrow> (bool \<times> t_private list) result" where
  "backward_privates [] xs = Inr (False, xs)"
| "backward_privates (a # as) [] = (if v_use a then Inl (Undefined ''private index'') else backward_privates as [])"
| "backward_privates (a # as) (x # xs) =
     bind_result (backward_privates as xs) (\<lambda>(b, ys).
       if v_use a \<and> \<not> v_define x \<and> \<not> v_use x then Inr (True, x\<lparr>v_use := True\<rparr> # ys) else Inr (b, x # ys))"

definition f_backward :: "t_private list \<Rightarrow> t_block \<Rightarrow> (bool \<times> t_block) result" where
  "f_backward a_privates x =
     (let b = \<not> v_backward x
      in bind_result (backward_privates a_privates (v_block_privates x))
        (\<lambda>(c, ys). Inr (b \<or> c, x\<lparr>v_backward := True, v_block_privates := ys\<rparr>)))"

section \<open>The worklist loops\<close>

text \<open>The queue is a circular list through \<open>v_queue\<close>, entered at its tail and left at its head; a block is
  in it when its \<open>v_queue\<close> is not null.  \<open>flow_visit\<close> is the body of one \<open>for\<close> over the neighbours of
  \<open>p\<close>, whose privates are read again for each of them.\<close>

type_synonym merge = "t_private list \<Rightarrow> t_block \<Rightarrow> (bool \<times> t_block) result"

fun flow_visit :: "merge \<Rightarrow> block_id \<Rightarrow> block_id list \<Rightarrow> t_blocks \<times> block_id list \<Rightarrow> (t_blocks \<times> block_id list) result" where
  "flow_visit M p [] st = Inr st"
| "flow_visit M p (q # qs) (bs, queue) =
     bind_result (M (v_block_privates (bs p)) (bs q)) (\<lambda>(changed, x).
       flow_visit M p qs (bs(q := x), if changed \<and> q \<notin> set queue then queue @ [q] else queue))"

partial_function (option) flow_loop ::
  "merge \<Rightarrow> (t_block \<Rightarrow> block_id list) \<Rightarrow> block_id \<Rightarrow> t_blocks \<times> block_id list \<Rightarrow> t_blocks result option" where
  "flow_loop M N p st =
     (case flow_visit M p (N (fst st p)) st of
        Inl e \<Rightarrow> Some (Inl e)
      | Inr (bs, queue) \<Rightarrow> (case queue of [] \<Rightarrow> Some (Inr bs) | q # qs \<Rightarrow> flow_loop M N q (bs, qs)))"

declare flow_loop.simps [code]

definition then_result :: "'a result option \<Rightarrow> ('a \<Rightarrow> 'b result option) \<Rightarrow> 'b result option" where
  "then_result r k = (case r of None \<Rightarrow> None | Some (Inl e) \<Rightarrow> Some (Inl e) | Some (Inr x) \<Rightarrow> k x)"

text \<open>The part of \<open>f_analyze\<close> after the walk over the body: \<open>n\<close> is the number of stack variables that are
  not arguments.\<close>

definition f_solve :: "nat \<Rightarrow> block_id \<Rightarrow> block_id \<Rightarrow> t_blocks \<Rightarrow> t_blocks result option" where
  "f_solve n body junction bs =
     then_result (Some (f_forward (replicate n t_private_new) (bs body))) (\<lambda>(_, x).
     then_result (flow_loop f_forward v_nexts body (bs(body := x), [])) (\<lambda>bs1.
     flow_loop f_backward v_previouses junction (bs1, [])))"

section \<open>Walking the tree\<close>

record t_flow_targets =
  v_flow_break :: "block_id option"
  v_flow_continue :: "block_id option"
  v_flow_return :: "block_id option"

record t_flow =
  v_flow_arguments :: nat
  v_flow_targets :: t_flow_targets
  v_current :: block_id
  v_blocks :: t_blocks
  v_analyzed :: "t_path \<Rightarrow> t_blocks"

type_synonym flow = "t_flow \<Rightarrow> t_flow result option"

definition flow_skip :: flow where
  "flow_skip s = Some (Inr s)"

definition flow_then :: "flow \<Rightarrow> flow \<Rightarrow> flow" where
  "flow_then m k s = then_result (m s) k"

text \<open>\<open>a_flow.v_current->f_next(q)\<close>, the same with a target that may be null, and an edge between two
  blocks of a node.\<close>

definition flow_next :: "block_id \<Rightarrow> flow" where
  "flow_next q s = Some (Inr (s\<lparr>v_blocks := f_next (v_current s) q (v_blocks s)\<rparr>))"

definition flow_jump :: "(t_flow_targets \<Rightarrow> block_id option) \<Rightarrow> flow" where
  "flow_jump f s =
     (case f (v_flow_targets s) of None \<Rightarrow> Some (Inl (Undefined ''null block'')) | Some q \<Rightarrow> flow_next q s)"

definition flow_edge :: "block_id \<Rightarrow> block_id \<Rightarrow> flow" where
  "flow_edge p q s = Some (Inr (s\<lparr>v_blocks := f_next p q (v_blocks s)\<rparr>))"

definition flow_at :: "block_id \<Rightarrow> flow" where
  "flow_at q s = Some (Inr (s\<lparr>v_current := q\<rparr>))"

definition flow_current :: "(block_id \<Rightarrow> flow) \<Rightarrow> flow" where
  "flow_current f s = f (v_current s) s"

definition flow_use :: "i64 \<Rightarrow> bool \<Rightarrow> flow" where
  "flow_use i a_put s =
     then_result (Some (f_use i a_put (v_blocks s (v_current s))))
       (\<lambda>b. Some (Inr (s\<lparr>v_blocks := (v_blocks s)(v_current s := b)\<rparr>)))"

text \<open>A node run with targets of its own.\<close>

definition flow_with :: "(t_flow_targets \<Rightarrow> t_flow_targets) \<Rightarrow> flow \<Rightarrow> flow" where
  "flow_with t m s =
     then_result (m (s\<lparr>v_flow_targets := t (v_flow_targets s)\<rparr>))
       (\<lambda>s1. Some (Inr (s1\<lparr>v_flow_targets := v_flow_targets s\<rparr>)))"

text \<open>\<open>int i = v_index - a_flow.v_arguments\<close>.\<close>

definition index_difference :: "nat \<Rightarrow> nat \<Rightarrow> i64" where
  "index_difference i k = of_nat i - of_nat k"

definition private_index :: "nat \<Rightarrow> nat \<Rightarrow> int" where
  "private_index i k = sint (ucast (index_difference i k) :: 32 word)"

text \<open>The search of \<open>t_symbol_get::f_flow\<close> through the scopes, from the one the symbol names outwards:
  the number of scopes left behind and the variable found, if any.  The outer scope of a scope is always
  older.\<close>

fun resolve :: "t_scope list \<Rightarrow> nat \<Rightarrow> nat \<Rightarrow> symbol \<Rightarrow> nat \<times> t_variable option" where
  "resolve ss k i x =
     (case map_of (v_variables (ss ! i)) x of
        Some v \<Rightarrow> (k, Some v)
      | None \<Rightarrow> (case v_outer (ss ! i) of
            None \<Rightarrow> (Suc k, None)
          | Some j \<Rightarrow> if j < i then resolve ss (Suc k) j x else (Suc k, None)))"

declare resolve.simps [simp del]

definition symbol_variable :: "t_scope list \<Rightarrow> nat \<Rightarrow> nat option \<Rightarrow> symbol \<Rightarrow> nat \<times> t_variable option" where
  "symbol_variable ss a_outer a_scope x = (case a_scope of None \<Rightarrow> (a_outer, None) | Some i \<Rightarrow> resolve ss a_outer i x)"

definition variable_at :: "t_scope list \<Rightarrow> variable_ref \<Rightarrow> t_variable option" where
  "variable_at ss v = map_of (v_variables (ss ! fst v)) (snd v)"

text \<open>What \<open>t_symbol_get\<close> and \<open>t_scope_put\<close> do with the variable they found, and \<open>t_try\<close> with the
  variable of a \<open>catch\<close>, which is used without the test of the sign.\<close>

definition flow_variable :: "t_variable option \<Rightarrow> bool \<Rightarrow> flow" where
  "flow_variable v a_put s =
     (case v of
        None \<Rightarrow> flow_skip s
      | Some v1 \<Rightarrow>
          if v_shared v1 then flow_skip s
          else (case v_index v1 of
              None \<Rightarrow> Some (Inl (Undefined ''v_index''))
            | Some i \<Rightarrow> let d = private_index i (v_flow_arguments s)
                       in if 0 \<le> d then flow_use (of_int d) a_put s else flow_skip s))"

definition flow_catch_variable :: "t_variable option \<Rightarrow> flow" where
  "flow_catch_variable v s =
     (case v of
        None \<Rightarrow> Some (Inl (Undefined ''variable''))
      | Some v1 \<Rightarrow>
          if v_shared v1 then flow_skip s
          else (case v_index v1 of
              None \<Rightarrow> Some (Inl (Undefined ''v_index''))
            | Some i \<Rightarrow> flow_use (index_difference i (v_flow_arguments s)) True s))"

text \<open>\<open>t_scope::f_analyze\<close> for the scope at \<open>p\<close> with \<open>a_size\<close> stack variables, the first \<open>a_arguments\<close> of
  them arguments.\<close>

definition f_analyze :: "nat \<Rightarrow> nat \<Rightarrow> t_path \<Rightarrow> flow \<Rightarrow> flow" where
  "f_analyze a_size a_arguments p body s =
     then_result (body (s\<lparr>v_flow_arguments := a_arguments,
         v_flow_targets := \<lparr>v_flow_break = None, v_flow_continue = None, v_flow_return = Some (p, B_junction)\<rparr>,
         v_current := (p, B_block_body), v_blocks := \<lambda>_. t_block_new\<rparr>)) (\<lambda>s1.
     if a_size < a_arguments then Some (Inl (Thrown ''length_error''))
     else then_result (f_solve (a_size - a_arguments) (p, B_block_body) (p, B_junction)
         (f_next (v_current s1) (p, B_junction) (v_blocks s1))) (\<lambda>bs.
       Some (Inr (s\<lparr>v_analyzed := (v_analyzed s1)(p := bs)\<rparr>))))"

text \<open>The shapes of the branching nodes, over the flow of their parts.\<close>

definition flow_if :: "t_path \<Rightarrow> flow \<Rightarrow> flow \<Rightarrow> flow \<Rightarrow> flow" where
  "flow_if p c x y =
     flow_then c
     (flow_then (flow_next (p, B_block_true))
     (flow_then (flow_next (p, B_block_false))
     (flow_then (flow_at (p, B_block_true))
     (flow_then x
     (flow_then (flow_next (p, B_junction))
     (flow_then (flow_at (p, B_block_false))
     (flow_then y
     (flow_then (flow_next (p, B_junction))
     (flow_then (flow_edge (p, B_junction) (p, B_block_exit))
     (flow_at (p, B_block_exit)))))))))))"

definition flow_while :: "t_path \<Rightarrow> flow \<Rightarrow> flow \<Rightarrow> flow" where
  "flow_while p c b =
     flow_then (flow_next (p, B_junction_condition))
     (flow_then (flow_edge (p, B_junction_condition) (p, B_block_condition))
     (flow_then (flow_at (p, B_block_condition))
     (flow_then c
     (flow_then (flow_next (p, B_block_body))
     (flow_then (flow_next (p, B_junction_exit))
     (flow_then (flow_with (\<lambda>t. t\<lparr>v_flow_break := Some (p, B_junction_exit), v_flow_continue := Some (p, B_junction_condition)\<rparr>)
        (flow_then (flow_at (p, B_block_body)) b))
     (flow_then (flow_next (p, B_junction_condition))
     (flow_then (flow_edge (p, B_junction_exit) (p, B_block_exit))
     (flow_at (p, B_block_exit))))))))))"

definition flow_for :: "t_path \<Rightarrow> flow \<Rightarrow> flow \<Rightarrow> flow \<Rightarrow> flow \<Rightarrow> flow" where
  "flow_for p i c nx b =
     flow_then i
     (flow_then (flow_next (p, B_junction_condition))
     (flow_then (flow_edge (p, B_junction_condition) (p, B_block_condition))
     (flow_then (flow_at (p, B_block_condition))
     (flow_then c
     (flow_then (flow_next (p, B_block_body))
     (flow_then (flow_next (p, B_junction_exit))
     (flow_then (flow_with (\<lambda>t. t\<lparr>v_flow_break := Some (p, B_junction_exit), v_flow_continue := Some (p, B_junction_next)\<rparr>)
        (flow_then (flow_at (p, B_block_body)) b))
     (flow_then (flow_next (p, B_junction_next))
     (flow_then (flow_edge (p, B_junction_next) (p, B_block_next))
     (flow_then (flow_at (p, B_block_next))
     (flow_then nx
     (flow_then (flow_next (p, B_junction_condition))
     (flow_then (flow_edge (p, B_junction_exit) (p, B_block_exit))
     (flow_at (p, B_block_exit)))))))))))))))"

definition flow_catch :: "t_path \<Rightarrow> nat \<Rightarrow> flow \<Rightarrow> t_variable option \<Rightarrow> flow \<Rightarrow> flow" where
  "flow_catch p k e v b =
     flow_then (flow_next (p, B_catch_expression k))
     (flow_then (flow_at (p, B_catch_expression k))
     (flow_then e (flow_current (\<lambda>block.
       flow_then (flow_next (p, B_catch_body k))
       (flow_then (flow_at (p, B_catch_body k))
       (flow_then (flow_catch_variable v)
       (flow_then b
       (flow_then (flow_next (p, B_junction_finally))
       (flow_at block)))))))))"

definition flow_optional_jump :: "(t_flow_targets \<Rightarrow> block_id option) \<Rightarrow> flow" where
  "flow_optional_jump f s = (case f (v_flow_targets s) of None \<Rightarrow> flow_skip s | Some q \<Rightarrow> flow_next q s)"

definition flow_try :: "t_path \<Rightarrow> flow \<Rightarrow> flow \<Rightarrow> flow \<Rightarrow> flow" where
  "flow_try p b cs f =
     flow_then (flow_next (p, B_junction_try))
     (flow_then (flow_edge (p, B_junction_try) (p, B_junction_finally))
     (flow_then (flow_edge (p, B_junction_try) (p, B_block_try))
     (flow_then (flow_with (\<lambda>t. \<lparr>v_flow_break = Some (p, B_junction_finally), v_flow_continue = Some (p, B_junction_finally),
          v_flow_return = Some (p, B_junction_finally)\<rparr>)
        (flow_then (flow_at (p, B_block_try))
        (flow_then b
        (flow_then (flow_next (p, B_junction_finally)) cs))))
     (flow_then (flow_edge (p, B_junction_finally) (p, B_junction_try))
     (flow_then (flow_edge (p, B_junction_finally) (p, B_block_finally))
     (flow_then (flow_with (\<lambda>t. \<lparr>v_flow_break = None, v_flow_continue = None, v_flow_return = None\<rparr>)
        (flow_then (flow_at (p, B_block_finally)) f))
     (flow_then (flow_next (p, B_block_exit))
     (flow_then (flow_optional_jump v_flow_break)
     (flow_then (flow_optional_jump v_flow_continue)
     (flow_then (flow_optional_jump v_flow_return)
     (flow_at (p, B_block_exit))))))))))))"

text \<open>Lists of children, numbered from \<open>k\<close> on, and children that may be absent.\<close>

fun flow_list :: "t_path \<Rightarrow> nat \<Rightarrow> (t_path \<Rightarrow> flow) list \<Rightarrow> flow" where
  "flow_list p k [] = flow_skip"
| "flow_list p k (f # fs) = flow_then (f (k # p)) (flow_list p (Suc k) fs)"

fun flow_option :: "t_path \<Rightarrow> (t_path \<Rightarrow> flow) option \<Rightarrow> flow" where
  "flow_option p None = flow_skip"
| "flow_option p (Some f) = f p"

fun flow_catches ::
  "t_scope list \<Rightarrow> t_path \<Rightarrow> nat \<Rightarrow> ((t_path \<Rightarrow> flow) \<times> variable_ref \<times> (t_path \<Rightarrow> flow)) list \<Rightarrow> flow" where
  "flow_catches ss p k [] = flow_skip"
| "flow_catches ss p k ((e, v, b) # cs) =
     flow_then (flow_catch p k (e ((2 + 2 * k) # p)) (variable_at ss v) (b ((3 + 2 * k) # p))) (flow_catches ss p (Suc k) cs)"

text \<open>\<open>f_flow\<close> of the classes that do more than visit their children.\<close>

definition flow_lambda :: "t_scope \<Rightarrow> nat \<Rightarrow> t_path \<Rightarrow> flow \<Rightarrow> flow \<Rightarrow> flow" where
  "flow_lambda sc a_arguments p body defaults = flow_then (f_analyze (v_privates_size sc) a_arguments p body) defaults"

definition flow_break :: "flow \<Rightarrow> flow" where
  "flow_break e = flow_then e (flow_jump v_flow_break)"

definition flow_continue :: flow where
  "flow_continue = flow_jump v_flow_continue"

definition flow_return :: "flow \<Rightarrow> flow" where
  "flow_return e = flow_then e (flow_jump v_flow_return)"

definition flow_symbol_get :: "t_scope list \<Rightarrow> nat \<Rightarrow> nat option \<Rightarrow> symbol \<Rightarrow> flow" where
  "flow_symbol_get ss a_outer a_scope x = flow_variable (snd (symbol_variable ss a_outer a_scope x)) False"

definition flow_scope_put :: "t_variable option \<Rightarrow> flow \<Rightarrow> flow" where
  "flow_scope_put v value = flow_then value (flow_variable v True)"

lemmas flow_node_defs = flow_lambda_def flow_break_def flow_continue_def flow_return_def flow_symbol_get_def flow_scope_put_def

text \<open>\<open>f_flow\<close> of every class of nodes.\<close>

primrec f_flow :: "t_scope list \<Rightarrow> t_node \<Rightarrow> t_path \<Rightarrow> flow" where
  "f_flow ss (N_nodes ns) p = flow_list p 0 (map (f_flow ss) ns)"
| "f_flow ss (N_lambda a_at i va k ds b) p =
     flow_lambda (ss ! i) k p (f_flow ss b (0 # p)) (flow_list p 1 (map (f_flow ss) ds))"
| "f_flow ss (N_if c x y) p =
     flow_if p (flow_option (0 # p) (map_option (f_flow ss) c)) (f_flow ss x (1 # p)) (f_flow ss y (2 # p))"
| "f_flow ss (N_while c b) p = flow_while p (flow_option (0 # p) (map_option (f_flow ss) c)) (f_flow ss b (1 # p))"
| "f_flow ss (N_for i c n b) p =
     flow_for p (flow_option (0 # p) (map_option (f_flow ss) i)) (flow_option (1 # p) (map_option (f_flow ss) c))
       (flow_option (2 # p) (map_option (f_flow ss) n)) (f_flow ss b (3 # p))"
| "f_flow ss (N_break e) p = flow_break (f_flow ss e (0 # p))"
| "f_flow ss (N_continue a_at) p = flow_continue"
| "f_flow ss (N_return e) p = flow_return (f_flow ss e (0 # p))"
| "f_flow ss (N_try b cs f) p =
     flow_try p (f_flow ss b (0 # p)) (flow_catches ss p 0 (map (map_prod (f_flow ss) (map_prod id (f_flow ss))) cs))
       (flow_option (1 # p) (map_option (f_flow ss) f))"
| "f_flow ss (N_throw a_at e) p = f_flow ss e (0 # p)"
| "f_flow ss (N_object_get a_at t k) p = f_flow ss t (0 # p)"
| "f_flow ss (N_object_get_indirect a_at t k) p = flow_then (f_flow ss t (0 # p)) (f_flow ss k (1 # p))"
| "f_flow ss (N_object_put a_at t k v) p = flow_then (f_flow ss t (0 # p)) (f_flow ss v (1 # p))"
| "f_flow ss (N_object_put_indirect a_at t k v) p =
     flow_then (f_flow ss t (0 # p)) (flow_then (f_flow ss k (1 # p)) (f_flow ss v (2 # p)))"
| "f_flow ss (N_object_has a_at t k) p = f_flow ss t (0 # p)"
| "f_flow ss (N_object_has_indirect a_at t k) p = flow_then (f_flow ss t (0 # p)) (f_flow ss k (1 # p))"
| "f_flow ss (N_symbol_get a_at u sc x) p = flow_symbol_get ss u sc x"
| "f_flow ss (N_scope_put a_at u v e) p = flow_scope_put (variable_at ss v) (f_flow ss e (0 # p))"
| "f_flow ss (N_self a_at u) p = flow_skip"
| "f_flow ss (N_class a_at t) p = f_flow ss t (0 # p)"
| "f_flow ss (N_super a_at t) p = f_flow ss t (0 # p)"
| "f_flow ss (N_null a_at) p = flow_skip"
| "f_flow ss (N_literal_object a_at c) p = flow_skip"
| "f_flow ss (N_literal_bool a_at c) p = flow_skip"
| "f_flow ss (N_literal_integer a_at c) p = flow_skip"
| "f_flow ss (N_literal_float a_at c) p = flow_skip"
| "f_flow ss (N_unary a_at op e) p = f_flow ss e (0 # p)"
| "f_flow ss (N_binary a_at op x y) p = flow_then (f_flow ss x (0 # p)) (f_flow ss y (1 # p))"
| "f_flow ss N_preserve p = flow_skip"
| "f_flow ss (N_call a_at t as es) p = flow_then (f_flow ss t (0 # p)) (flow_list p 1 (map (f_flow ss) as))"
| "f_flow ss (N_get_at a_at t i) p = flow_then (f_flow ss t (0 # p)) (f_flow ss i (1 # p))"
| "f_flow ss (N_set_at a_at t i v) p =
     flow_then (f_flow ss t (0 # p)) (flow_then (f_flow ss i (1 # p)) (f_flow ss v (2 # p)))"

text \<open>The analysis of a script: \<open>f_analyze(0)\<close> of the scope of the module, whose body is the first child.\<close>

definition analyze_script :: "t_scope list \<Rightarrow> t_node \<Rightarrow> (t_path \<Rightarrow> t_blocks) result option" where
  "analyze_script ss body =
     then_result (f_analyze (v_privates_size (ss ! 0)) 0 [] (f_flow ss body [0])
         \<lparr>v_flow_arguments = 0, v_flow_targets = \<lparr>v_flow_break = None, v_flow_continue = None, v_flow_return = None\<rparr>,
          v_current = ([], B_block_body), v_blocks = \<lambda>_. t_block_new, v_analyzed = \<lambda>_ _. t_block_new\<rparr>)
       (\<lambda>s. Some (Inr (v_analyzed s)))"

section \<open>Trees that the passes accept\<close>

text \<open>
  What the two passes rely on: jumps stand where they have a target in the same function, a \<open>try\<close> has a
  \<open>catch\<close> or a \<open>finally\<close>, every variable has a slot, an unshared one a slot among the \<open>a_size\<close> stack variables
  of the function at hand, and the variable of a \<open>catch\<close> is not one of its first \<open>k\<close>, the arguments.
\<close>

definition variable_ok :: "nat \<Rightarrow> t_variable \<Rightarrow> bool" where
  "variable_ok a_size v \<longleftrightarrow> (case v_index v of None \<Rightarrow> False | Some i \<Rightarrow> v_shared v \<or> i < a_size)"

definition catch_ok :: "nat \<Rightarrow> nat \<Rightarrow> t_variable option \<Rightarrow> bool" where
  "catch_ok a_size k v \<longleftrightarrow> (case v of None \<Rightarrow> False | Some v1 \<Rightarrow>
     (case v_index v1 of None \<Rightarrow> False | Some i \<Rightarrow> v_shared v1 \<or> k \<le> i \<and> i < a_size))"

definition scope_ok :: "t_scope \<Rightarrow> nat \<Rightarrow> bool" where
  "scope_ok sc k \<longleftrightarrow> k \<le> v_privates_size sc \<and> int (v_privates_size sc) < 2 ^ 31 \<and> k \<le> length (v_privates sc) \<and>
     (\<forall>x \<in> set (take k (v_privates sc)). case map_of (v_variables sc) x of None \<Rightarrow> False | Some v \<Rightarrow> v_index v \<noteq> None)"

fun well_scoped :: "t_scope list \<Rightarrow> nat \<Rightarrow> nat \<Rightarrow> bool \<Rightarrow> bool \<Rightarrow> t_node \<Rightarrow> bool" where
  "well_scoped ss z k j r (N_nodes ns) = (\<forall>n \<in> set ns. well_scoped ss z k j r n)"
| "well_scoped ss z k j r (N_lambda p i va m ds b) =
     (scope_ok (ss ! i) m \<and> (\<forall>n \<in> set ds. well_scoped ss z k j r n) \<and> well_scoped ss (v_privates_size (ss ! i)) m False True b)"
| "well_scoped ss z k j r (N_if e x y) =
     ((\<forall>n \<in> set_option e. well_scoped ss z k j r n) \<and> well_scoped ss z k j r x \<and> well_scoped ss z k j r y)"
| "well_scoped ss z k j r (N_while e b) = ((\<forall>n \<in> set_option e. well_scoped ss z k j r n) \<and> well_scoped ss z k True r b)"
| "well_scoped ss z k j r (N_for i e f b) =
     ((\<forall>n \<in> set_option i. well_scoped ss z k j r n) \<and> (\<forall>n \<in> set_option e. well_scoped ss z k j r n) \<and>
      (\<forall>n \<in> set_option f. well_scoped ss z k j r n) \<and> well_scoped ss z k True r b)"
| "well_scoped ss z k j r (N_break e) = (j \<and> well_scoped ss z k j r e)"
| "well_scoped ss z k j r (N_continue p) = j"
| "well_scoped ss z k j r (N_return e) = (r \<and> well_scoped ss z k j r e)"
| "well_scoped ss z k j r (N_try b cs f) =
     ((cs \<noteq> [] \<or> f \<noteq> None) \<and> well_scoped ss z k j r b \<and>
      (\<forall>(e, v, d) \<in> set cs. well_scoped ss z k j r e \<and> catch_ok z k (variable_at ss v) \<and> well_scoped ss z k j r d) \<and>
      (\<forall>n \<in> set_option f. well_scoped ss z k False False n))"
| "well_scoped ss z k j r (N_throw p e) = well_scoped ss z k j r e"
| "well_scoped ss z k j r (N_object_get p t x) = well_scoped ss z k j r t"
| "well_scoped ss z k j r (N_object_get_indirect p t x) = (well_scoped ss z k j r t \<and> well_scoped ss z k j r x)"
| "well_scoped ss z k j r (N_object_put p t x v) = (well_scoped ss z k j r t \<and> well_scoped ss z k j r v)"
| "well_scoped ss z k j r (N_object_put_indirect p t x v) =
     (well_scoped ss z k j r t \<and> well_scoped ss z k j r x \<and> well_scoped ss z k j r v)"
| "well_scoped ss z k j r (N_object_has p t x) = well_scoped ss z k j r t"
| "well_scoped ss z k j r (N_object_has_indirect p t x) = (well_scoped ss z k j r t \<and> well_scoped ss z k j r x)"
| "well_scoped ss z k j r (N_symbol_get p u sc x) = (\<forall>v \<in> set_option (snd (symbol_variable ss u sc x)). variable_ok z v)"
| "well_scoped ss z k j r (N_scope_put p u v e) =
     ((case variable_at ss v of None \<Rightarrow> False | Some v1 \<Rightarrow> variable_ok z v1) \<and> well_scoped ss z k j r e)"
| "well_scoped ss z k j r (N_class p t) = well_scoped ss z k j r t"
| "well_scoped ss z k j r (N_super p t) = well_scoped ss z k j r t"
| "well_scoped ss z k j r (N_unary p op e) = well_scoped ss z k j r e"
| "well_scoped ss z k j r (N_binary p op x y) = (well_scoped ss z k j r x \<and> well_scoped ss z k j r y)"
| "well_scoped ss z k j r (N_call p t as es) = (well_scoped ss z k j r t \<and> (\<forall>n \<in> set as. well_scoped ss z k j r n))"
| "well_scoped ss z k j r (N_get_at p t i) = (well_scoped ss z k j r t \<and> well_scoped ss z k j r i)"
| "well_scoped ss z k j r (N_set_at p t i v) = (well_scoped ss z k j r t \<and> well_scoped ss z k j r i \<and> well_scoped ss z k j r v)"
| "well_scoped ss z k j r _ = True"

end
