(* ===== verification/Xm_Emit.thy ===== *)
theory Xm_Emit
  imports Xm_Flow
begin

text \<open>
  The emission of byte code (src/include/xemmai/ast.h \<open>t_operand\<close>, \<open>t_emit\<close>; src/src/ast.cc \<open>f_emit\<close>;
  src/include/xemmai/code.h).

  \<open>t_emit\<close> is the state of the C++ object of that name, with the code being written by value; a function
  that is finished moves to \<open>v_codes\<close> under the number that \<open>LAMBDA\<close> refers to.  A step may fail: \<open>Thrown\<close> is
  an exception of the host program, \<open>Undefined\<close> an assertion that does not hold or a null pointer, an
  indeterminate value or an index out of range that is used.  \<open>f_emit\<close> of a class of nodes is a definition
  over the emitters of its children; \<open>f_emit\<close> itself puts them together.
\<close>

section \<open>Instructions\<close>

datatype t_literal_value = L_null | L_bool bool | L_object lit_object

datatype t_operand =
    Op_integer i64
  | Op_float float64
  | Op_literal t_literal_value
  | Op_variable nat
  | Op_temporary

text \<open>The encoding of an operand in the name of an instruction, and the instructions; those of
  \<open>XEMMAI__CODE__INSTRUCTIONS\<close> exist twice, the flag selects the variant for the tail position.\<close>

datatype t_encoding = E_I | E_F | E_L | E_V | E_T

datatype t_instruction =
    I_JUMP | I_BRANCH | I_TRY | I_CATCH | I_FINALLY | I_YRT | I_THROW
  | I_OBJECT_GET | I_OBJECT_GET_INDIRECT | I_OBJECT_PUT | I_OBJECT_PUT_INDIRECT | I_OBJECT_HAS | I_OBJECT_HAS_INDIRECT
  | I_METHOD_GET | I_METHOD_BIND | I_GLOBAL_GET | I_STACK_GET | I_STACK_PUT
  | I_SCOPE_GET0 | I_SCOPE_GET1 | I_SCOPE_GET2 | I_SCOPE_GET | I_SCOPE_PUT0 | I_SCOPE_PUT
  | I_LAMBDA | I_ADVANCED_LAMBDA | I_SELF | I_CLASS | I_SUPER | I_NUL | I_INTEGER | I_FLOAT | I_INSTANCE
  | I_RETURN_NUL | I_RETURN_INTEGER | I_RETURN_FLOAT | I_RETURN_INSTANCE | I_RETURN
  | I_CALL bool | I_CALL_WITH_EXPANSION bool | I_STACK_CALL bool
  | I_SCOPE_CALL0 bool | I_SCOPE_CALL1 bool | I_SCOPE_CALL2 bool
  | I_GET_AT bool | I_SET_AT bool
  | I_UNARY unop t_encoding bool | I_BINARY binop t_encoding t_encoding bool
  | I_SAFE_POINT | I_BREAK_POINT

datatype t_try_exit = c_try__CATCH | c_try__STEP | c_try__BREAK | c_try__CONTINUE | c_try__RETURN | c_try__THROW

text \<open>The cells of \<open>v_instructions\<close>: instructions and their operands.  \<open>C_slot\<close> is \<open>f_in_bytes\<close> of an index
  from the base of the stack frame, \<open>C_entry\<close> of an index into a scope on the heap, \<open>C_not_entry\<close> its
  complement; \<open>C_address\<close> is the place of another cell of the same code.\<close>

datatype t_cell =
    C_instruction t_instruction
  | C_slot nat | C_entry nat | C_not_entry nat
  | C_size nat | C_integer i64 | C_float float64 | C_value t_literal_value | C_symbol symbol
  | C_code nat | C_address nat | C_try t_try_exit

record t_code =
  v_code_shared :: bool
  v_code_variadic :: bool
  v_size :: nat
  v_code_privates :: nat
  v_code_shareds :: nat
  v_code_arguments :: nat
  v_minimum :: i64
  v_instructions :: "t_cell list"
  v_ats :: "(t_at \<times> nat) list"
  v_code_variables :: "(symbol \<times> t_variable) list"

definition t_code_new :: "bool \<Rightarrow> bool \<Rightarrow> nat \<Rightarrow> nat \<Rightarrow> nat \<Rightarrow> i64 \<Rightarrow> t_code" where
  "t_code_new a_shared a_variadic a_privates a_shareds a_arguments a_minimum =
     \<lparr>v_code_shared = a_shared, v_code_variadic = a_variadic, v_size = a_privates, v_code_privates = a_privates,
      v_code_shareds = a_shareds, v_code_arguments = a_arguments, v_minimum = a_minimum, v_instructions = [], v_ats = [],
      v_code_variables = []\<rparr>"

section \<open>The state of the emitter\<close>

text \<open>A label: the cells to fill in, and its target, indeterminate at first.  Labels are named by their place
  in \<open>v_labels\<close>.\<close>

record t_label =
  v_positions :: "nat list"
  v_target :: "nat option"

definition t_label_new :: t_label where
  "t_label_new = \<lparr>v_positions = [], v_target = None\<rparr>"

text \<open>A junction is given by its privates, which the emission only reads.\<close>

type_synonym junction = "t_private list"

record t_targets =
  v_break :: "nat option"
  v_break_junction :: "junction option"
  v_break_stack :: nat
  v_break_is_tail :: bool
  v_break_must_clear :: bool
  v_continue :: "nat option"
  v_continue_junction :: "junction option"
  v_return :: "nat option"
  v_return_junction :: "junction option"
  v_return_stack :: nat
  v_return_is_tail :: bool

type_synonym safe_points = "((nat \<times> nat \<times> nat) \<times> nat) list"

record t_emit =
  v_safe_points :: "safe_points option"
  v_emit_scope :: t_scope
  v_code :: t_code
  v_codes :: "(nat \<times> t_code) list"
  v_next_code :: nat
  v_emit_arguments :: nat
  v_emit_privates :: "bool list"
  v_stack :: nat
  v_labels :: "t_label list"
  v_targets :: t_targets
  v_safe_positions :: "(nat \<times> nat \<times> nat) list"

type_synonym 'a emit = "t_emit \<Rightarrow> ('a \<times> t_emit) result"

definition e_return :: "'a \<Rightarrow> 'a emit" where
  "e_return a e = Inr (a, e)"

definition e_fail :: "string \<Rightarrow> 'a emit" where
  "e_fail msg e = Inl (Undefined msg)"

definition e_bind :: "'a emit \<Rightarrow> ('a \<Rightarrow> 'b emit) \<Rightarrow> 'b emit" where
  "e_bind m f e = bind_result (m e) (\<lambda>(a, e1). f a e1)"

definition e_then :: "'a emit \<Rightarrow> 'b emit \<Rightarrow> 'b emit" where
  "e_then m k = e_bind m (\<lambda>_. k)"

definition e_state :: "(t_emit \<Rightarrow> 'a emit) \<Rightarrow> 'a emit" where
  "e_state h e = h e e"

definition e_modify :: "(t_emit \<Rightarrow> t_emit) \<Rightarrow> unit emit" where
  "e_modify f e = Inr ((), f e)"

definition e_skip :: "unit emit" where
  "e_skip = e_return ()"

definition e_when :: "bool \<Rightarrow> unit emit \<Rightarrow> unit emit" where
  "e_when b m = (if b then m else e_skip)"

definition e_assert :: "(t_emit \<Rightarrow> bool) \<Rightarrow> unit emit" where
  "e_assert P = e_state (\<lambda>e. if P e then e_skip else e_fail ''assertion'')"

section \<open>Writing cells\<close>

definition f_last :: "t_emit \<Rightarrow> nat" where
  "f_last e = length (v_instructions (v_code e))"

definition update_code :: "(t_code \<Rightarrow> t_code) \<Rightarrow> t_emit \<Rightarrow> t_emit" where
  "update_code f e = e\<lparr>v_code := f (v_code e)\<rparr>"

text \<open>\<open>operator<<\<close> on a run of cells, and on a label.\<close>

definition e_cells :: "t_cell list \<Rightarrow> unit emit" where
  "e_cells cs = e_modify (update_code (\<lambda>c. c\<lparr>v_instructions := v_instructions c @ cs\<rparr>))"

definition update_label :: "nat \<Rightarrow> (t_label \<Rightarrow> t_label) \<Rightarrow> t_emit \<Rightarrow> t_emit" where
  "update_label l f e = e\<lparr>v_labels := (v_labels e)[l := f (v_labels e ! l)]\<rparr>"

definition e_label :: "nat \<Rightarrow> unit emit" where
  "e_label l = e_state (\<lambda>e. e_then (e_modify (update_label l (\<lambda>b. b\<lparr>v_positions := v_positions b @ [f_last e]\<rparr>))) (e_cells [C_size 0]))"

definition e_instruction :: "t_instruction \<Rightarrow> t_cell list \<Rightarrow> unit emit" where
  "e_instruction i cs = e_cells (C_instruction i # cs)"

definition f_push :: "unit emit" where
  "f_push = e_modify (\<lambda>e. update_code (\<lambda>c. c\<lparr>v_size := max (v_size c) (Suc (v_stack e))\<rparr>) (e\<lparr>v_stack := Suc (v_stack e)\<rparr>))"

definition f_pop :: "unit emit" where
  "f_pop = e_state (\<lambda>e. if v_stack e = 0 then e_fail ''stack'' else e_modify (\<lambda>e. e\<lparr>v_stack := v_stack e - 1\<rparr>))"

text \<open>\<open>f_in_bytes(v_stack - k)\<close>.\<close>

definition e_slot :: "nat \<Rightarrow> (t_cell \<Rightarrow> 'a emit) \<Rightarrow> 'a emit" where
  "e_slot k f = e_state (\<lambda>e. if v_stack e < k then e_fail ''stack'' else f (C_slot (v_stack e - k)))"

definition t_emit_f_target :: "nat \<Rightarrow> unit emit" where
  "t_emit_f_target l = e_state (\<lambda>e. e_modify (update_label l (\<lambda>b. b\<lparr>v_target := Some (f_last e)\<rparr>)))"

definition f_label :: "nat emit" where
  "f_label = e_state (\<lambda>e. e_then (e_modify (\<lambda>e. e\<lparr>v_labels := v_labels e @ [t_label_new]\<rparr>)) (e_return (length (v_labels e))))"

text \<open>\<open>f_resolve\<close>: every cell that was left open for a label gets the address of its target.\<close>

fun resolve_labels :: "t_label list \<Rightarrow> t_cell list \<Rightarrow> t_cell list result" where
  "resolve_labels [] cs = Inr cs"
| "resolve_labels (b # bs) cs =
     (case v_target b of
        None \<Rightarrow> Inl (Undefined ''label'')
      | Some t \<Rightarrow> if t < length cs then resolve_labels bs (fold (\<lambda>i cs. cs[i := C_address t]) (v_positions b) cs)
                  else Inl (Undefined ''label''))"

definition f_resolve :: "unit emit" where
  "f_resolve e = bind_result (resolve_labels (v_labels e) (v_instructions (v_code e)))
     (\<lambda>cs. Inr ((), update_code (\<lambda>c. c\<lparr>v_instructions := cs\<rparr>) e))"

definition f_at :: "t_at \<Rightarrow> unit emit" where
  "f_at a_at = e_modify (\<lambda>e. update_code (\<lambda>c. c\<lparr>v_ats := v_ats c @ [(a_at, f_last e)]\<rparr>) e)"

definition f_emit_null :: "unit emit" where
  "f_emit_null = e_then (e_slot 0 (\<lambda>slot. e_instruction I_NUL [slot])) f_push"

definition f_emit_safe_point :: "t_at \<Rightarrow> unit emit" where
  "f_emit_safe_point a_at = e_state (\<lambda>e. case v_safe_points e of
       None \<Rightarrow> e_skip
     | Some _ \<Rightarrow>
         e_then (e_modify (\<lambda>e. e\<lparr>v_safe_positions := v_safe_positions e @ [(fst (snd a_at), f_last e, snd (snd a_at))]\<rparr>))
         (e_then (e_instruction I_SAFE_POINT []) (f_at a_at)))"

text \<open>\<open>(*v_privates)[i]\<close>.\<close>

definition e_private :: "nat \<Rightarrow> (bool \<Rightarrow> 'a emit) \<Rightarrow> 'a emit" where
  "e_private i f = e_state (\<lambda>e. if i < length (v_emit_privates e) then f (v_emit_privates e ! i) else e_fail ''private index'')"

definition set_private :: "nat \<Rightarrow> bool \<Rightarrow> unit emit" where
  "set_private i b = e_private i (\<lambda>_. e_modify (\<lambda>e. e\<lparr>v_emit_privates := (v_emit_privates e)[i := b]\<rparr>))"

fun join_from :: "nat \<Rightarrow> junction \<Rightarrow> unit emit" where
  "join_from i [] = e_skip"
| "join_from i (x # xs) =
     e_then (e_private i (\<lambda>b. if \<not> b \<and> v_use x \<and> v_in x
         then e_state (\<lambda>e. e_instruction I_NUL [C_slot (v_emit_arguments e + i)]) else e_skip))
     (join_from (Suc i) xs)"

definition f_join :: "junction \<Rightarrow> unit emit" where
  "f_join a_junction = join_from 0 a_junction"

fun merge_from :: "nat \<Rightarrow> junction \<Rightarrow> unit emit" where
  "merge_from i [] = e_skip"
| "merge_from i (x # xs) = e_then (set_private i (v_out x)) (merge_from (Suc i) xs)"

definition f_merge :: "junction \<Rightarrow> unit emit" where
  "f_merge a_junction = merge_from 0 a_junction"

definition e_null :: "'a option \<Rightarrow> ('a \<Rightarrow> 'b emit) \<Rightarrow> 'b emit" where
  "e_null p f = (case p of None \<Rightarrow> e_fail ''null'' | Some x \<Rightarrow> f x)"

definition e_jump :: "nat \<Rightarrow> unit emit" where
  "e_jump l = e_then (e_instruction I_JUMP []) (e_label l)"

definition e_branch :: "nat \<Rightarrow> unit emit" where
  "e_branch l = e_slot 0 (\<lambda>slot. e_then (e_instruction I_BRANCH [slot]) (e_label l))"

text \<open>\<open>TRY\<close> and \<open>CATCH\<close> with their operands.\<close>

definition e_try :: "nat \<Rightarrow> nat \<Rightarrow> unit emit" where
  "e_try catch0 finally0 =
     e_slot 0 (\<lambda>slot. e_then (e_instruction I_TRY [slot]) (e_then (e_label catch0) (e_label finally0)))"

definition e_catch :: "nat \<Rightarrow> t_cell \<Rightarrow> unit emit" where
  "e_catch l c = e_then (e_instruction I_CATCH []) (e_then (e_label l) (e_cells [c]))"

definition set_stack :: "nat \<Rightarrow> unit emit" where
  "set_stack n = e_modify (\<lambda>e. e\<lparr>v_stack := n\<rparr>)"

definition set_targets :: "t_targets \<Rightarrow> unit emit" where
  "set_targets t = e_modify (\<lambda>e. e\<lparr>v_targets := t\<rparr>)"

text \<open>The end that most nodes share: \<open>if (a_clear) f_pop(); return {}\<close>.\<close>

definition e_done :: "bool \<Rightarrow> t_operand emit" where
  "e_done a_clear = e_then (e_when a_clear f_pop) (e_return Op_temporary)"

section \<open>Leaves\<close>

text \<open>The emitter of a node takes \<open>a_tail\<close>, \<open>a_operand\<close> and \<open>a_clear\<close>.\<close>

type_synonym node_emit = "bool \<Rightarrow> bool \<Rightarrow> bool \<Rightarrow> t_operand emit"

fun literal_cell :: "t_operand \<Rightarrow> t_cell" where
  "literal_cell (Op_integer n) = C_integer n"
| "literal_cell (Op_float x) = C_float x"
| "literal_cell (Op_literal v) = C_value v"
| "literal_cell (Op_variable i) = C_slot i"
| "literal_cell Op_temporary = C_size 0"

text \<open>\<open>t_emit::c_instruction_of\<close>, with the variant that returns.\<close>

fun literal_instruction :: "bool \<Rightarrow> t_operand \<Rightarrow> t_instruction" where
  "literal_instruction a_tail (Op_integer n) = (if a_tail then I_RETURN_INTEGER else I_INTEGER)"
| "literal_instruction a_tail (Op_float x) = (if a_tail then I_RETURN_FLOAT else I_FLOAT)"
| "literal_instruction a_tail _ = (if a_tail then I_RETURN_INSTANCE else I_INSTANCE)"

definition emit_literal :: "t_at \<Rightarrow> t_operand \<Rightarrow> node_emit" where
  "emit_literal a_at v a_tail a_operand a_clear =
     (if a_operand then e_return v
      else if a_clear then e_return Op_temporary
      else e_then
        (if a_tail
         then e_then (f_emit_safe_point a_at) (e_instruction (literal_instruction True v) [literal_cell v])
         else e_slot 0 (\<lambda>slot. e_instruction (literal_instruction False v) [slot, literal_cell v]))
        (e_then f_push (e_then (f_at a_at) (e_return Op_temporary))))"

definition emit_null :: "t_at \<Rightarrow> node_emit" where
  "emit_null a_at a_tail a_operand a_clear =
     (if a_operand then e_return (Op_literal L_null)
      else if a_clear then e_return Op_temporary
      else e_then
        (if a_tail then e_then (f_emit_safe_point a_at) (e_then (e_instruction I_RETURN_NUL []) f_push) else f_emit_null)
        (e_then (f_at a_at) (e_return Op_temporary)))"

text \<open>\<open>SCOPE_GET0 + min(outer, 3)\<close>, followed by the number of scopes when it is 3 or more.\<close>

definition scope_get :: "nat \<Rightarrow> t_instruction" where
  "scope_get a_outer = (if a_outer = 0 then I_SCOPE_GET0 else if a_outer = 1 then I_SCOPE_GET1
     else if a_outer = 2 then I_SCOPE_GET2 else I_SCOPE_GET)"

definition scope_get_cells :: "nat \<Rightarrow> t_cell list" where
  "scope_get_cells a_outer = (if 3 \<le> a_outer then [C_size a_outer] else [])"

definition emit_self :: "t_at \<Rightarrow> nat \<Rightarrow> node_emit" where
  "emit_self a_at a_outer a_tail a_operand a_clear =
     (if a_clear then e_return Op_temporary
      else e_then (e_when a_tail (f_emit_safe_point a_at))
        (e_then (e_slot 0 (\<lambda>slot.
           if 0 < a_outer then e_instruction (scope_get a_outer) (slot # scope_get_cells a_outer @ [C_entry 0])
           else e_instruction I_SELF [slot]))
        (e_then f_push (e_then (f_at a_at) (e_return Op_temporary)))))"

definition emit_preserve :: node_emit where
  "emit_preserve a_tail a_operand a_clear = e_then (e_when (\<not> a_clear) f_push) (e_return Op_temporary)"

definition e_index :: "t_variable \<Rightarrow> (nat \<Rightarrow> 'a emit) \<Rightarrow> 'a emit" where
  "e_index v f = (case v_index v of None \<Rightarrow> e_fail ''v_index'' | Some i \<Rightarrow> f i)"

text \<open>\<open>t_symbol_get\<close>: a variable of the stack that may hold no value yet is cleared first.\<close>

definition initialize_private :: "nat \<Rightarrow> unit emit" where
  "initialize_private index = e_state (\<lambda>e. let d = private_index index (v_emit_arguments e)
     in if 0 \<le> d then e_private (nat d) (\<lambda>b. if b then e_skip
          else e_then (e_instruction I_NUL [C_slot (v_emit_arguments e + nat d)]) (set_private (nat d) True))
        else e_skip)"

definition assign_private :: "nat \<Rightarrow> unit emit" where
  "assign_private index = e_state (\<lambda>e. let d = private_index index (v_emit_arguments e)
     in if 0 \<le> d then set_private (nat d) True else e_skip)"

definition emit_symbol_get :: "t_at \<Rightarrow> symbol \<Rightarrow> nat \<times> t_variable option \<Rightarrow> node_emit" where
  "emit_symbol_get a_at x found a_tail a_operand a_clear =
     (let finish = (\<lambda>m. e_then m (e_then f_push (e_then (f_at a_at) (e_done a_clear))))
      in case found of
        (resolved, None) \<Rightarrow>
          finish (e_then (e_when a_tail (f_emit_safe_point a_at))
            (e_slot 0 (\<lambda>slot. e_instruction I_GLOBAL_GET [slot, C_symbol x, C_size 0])))
      | (resolved, Some v) \<Rightarrow> e_index v (\<lambda>index.
          if v_shared v then
            finish (e_then (e_when a_tail (f_emit_safe_point a_at))
              (e_slot 0 (\<lambda>slot. e_instruction (scope_get resolved) (slot # scope_get_cells resolved @ [C_entry index]))))
          else e_then (initialize_private index)
            (if a_operand then e_return (Op_variable index)
             else finish
               (if a_tail then e_then (f_emit_safe_point a_at) (e_instruction I_RETURN [C_slot index])
                else e_slot 0 (\<lambda>slot. e_instruction I_STACK_GET [slot, C_slot index])))))"

section \<open>Nodes with children\<close>

text \<open>The \<open>switch\<close> of \<open>t_scope_put\<close> over the operand that goes to a variable of the stack.\<close>

fun put_operand :: "nat \<Rightarrow> t_operand \<Rightarrow> unit emit" where
  "put_operand index (Op_integer n) = e_instruction I_INTEGER [C_slot index, C_integer n]"
| "put_operand index (Op_float x) = e_instruction I_FLOAT [C_slot index, C_float x]"
| "put_operand index (Op_literal l) =
     (if l = L_null then e_instruction I_NUL [C_slot index] else e_instruction I_INSTANCE [C_slot index, C_value l])"
| "put_operand index (Op_variable j) = e_instruction I_STACK_PUT [C_slot j, C_slot index]"
| "put_operand index Op_temporary = e_then (e_slot 1 (\<lambda>slot. e_instruction I_STACK_PUT [slot, C_slot index])) f_pop"

definition emit_scope_put :: "t_at \<Rightarrow> nat \<Rightarrow> t_variable option \<Rightarrow> node_emit \<Rightarrow> node_emit" where
  "emit_scope_put a_at a_outer found value a_tail a_operand a_clear =
     e_null found (\<lambda>v.
       if a_clear \<and> \<not> v_shared v then
         e_bind (value False True False) (\<lambda>operand.
         e_then (f_emit_safe_point a_at)
         (e_index v (\<lambda>index.
         e_then (assign_private index)
         (e_then (put_operand index operand)
         (e_then (f_at a_at) (e_return Op_temporary))))))
       else
         e_then (value False False False)
         (e_then (f_emit_safe_point a_at)
         (e_index v (\<lambda>index.
         e_then
           (if v_shared v then e_slot 1 (\<lambda>slot.
              if 0 < a_outer then e_instruction I_SCOPE_PUT [slot, C_size a_outer, C_entry index]
              else e_instruction I_SCOPE_PUT0 [slot, C_entry index])
            else e_then (assign_private index) (e_slot 1 (\<lambda>slot. e_instruction I_STACK_PUT [slot, C_slot index])))
         (e_then (f_at a_at) (e_done a_clear))))))"

definition emit_class :: "t_at \<Rightarrow> node_emit \<Rightarrow> node_emit" where
  "emit_class a_at target a_tail a_operand a_clear =
     e_then (target False False False)
     (e_then (e_when a_tail (f_emit_safe_point a_at))
     (e_then (e_slot 1 (\<lambda>slot. e_instruction I_CLASS [slot]))
     (e_then (f_at a_at) (e_done a_clear))))"

definition emit_super :: "t_at \<Rightarrow> node_emit \<Rightarrow> node_emit" where
  "emit_super a_at target a_tail a_operand a_clear =
     e_then (target False False False)
     (e_then (e_when a_tail (f_emit_safe_point a_at))
     (e_then (e_slot 1 (\<lambda>slot. e_instruction I_SUPER [slot]))
     (e_then (f_at a_at) (e_done a_clear))))"

definition emit_throw :: "t_at \<Rightarrow> node_emit \<Rightarrow> node_emit" where
  "emit_throw a_at expression a_tail a_operand a_clear =
     e_then (expression False False False)
     (e_then f_pop
     (e_then (e_slot 0 (\<lambda>slot. e_instruction I_THROW [slot]))
     (e_then (e_when (\<not> a_clear) f_push)
     (e_then (f_at a_at) (e_return Op_temporary)))))"

definition emit_object_get :: "t_at \<Rightarrow> node_emit \<Rightarrow> symbol \<Rightarrow> node_emit" where
  "emit_object_get a_at target key a_tail a_operand a_clear =
     e_then (target False False False)
     (e_then (f_emit_safe_point a_at)
     (e_then (e_slot 1 (\<lambda>slot. e_instruction I_OBJECT_GET [slot, C_symbol key, C_size 0]))
     (e_then (f_at a_at) (e_done a_clear))))"

definition emit_method :: "t_at \<Rightarrow> node_emit \<Rightarrow> symbol \<Rightarrow> unit emit" where
  "emit_method a_at target key =
     e_then (target False False False)
     (e_then (f_emit_safe_point a_at)
     (e_then (e_slot 1 (\<lambda>slot. e_instruction I_METHOD_GET [slot, C_symbol key, C_size 0]))
     (e_then f_push (f_at a_at))))"

definition emit_object_get_indirect :: "t_at \<Rightarrow> node_emit \<Rightarrow> node_emit \<Rightarrow> node_emit" where
  "emit_object_get_indirect a_at target key a_tail a_operand a_clear =
     e_then (target False False False)
     (e_then (key False False False)
     (e_then (f_emit_safe_point a_at)
     (e_then (e_slot 2 (\<lambda>slot. e_instruction I_OBJECT_GET_INDIRECT [slot, C_size 0]))
     (e_then f_pop
     (e_then (f_at a_at) (e_done a_clear))))))"

definition emit_object_put :: "t_at \<Rightarrow> node_emit \<Rightarrow> symbol \<Rightarrow> node_emit \<Rightarrow> node_emit" where
  "emit_object_put a_at target key value a_tail a_operand a_clear =
     e_then (target False False False)
     (e_then (value False False False)
     (e_then (f_emit_safe_point a_at)
     (e_then (e_slot 2 (\<lambda>slot. e_instruction I_OBJECT_PUT [slot, C_symbol key, C_size 0]))
     (e_then f_pop
     (e_then (f_at a_at) (e_done a_clear))))))"

definition emit_object_put_indirect :: "t_at \<Rightarrow> node_emit \<Rightarrow> node_emit \<Rightarrow> node_emit \<Rightarrow> node_emit" where
  "emit_object_put_indirect a_at target key value a_tail a_operand a_clear =
     e_then (target False False False)
     (e_then (key False False False)
     (e_then (value False False False)
     (e_then (f_emit_safe_point a_at)
     (e_then (e_slot 3 (\<lambda>slot. e_instruction I_OBJECT_PUT_INDIRECT [slot, C_size 0]))
     (e_then f_pop (e_then f_pop
     (e_then (f_at a_at) (e_done a_clear))))))))"

definition emit_object_has :: "t_at \<Rightarrow> node_emit \<Rightarrow> symbol \<Rightarrow> node_emit" where
  "emit_object_has a_at target key a_tail a_operand a_clear =
     e_then (target False False False)
     (e_then (f_emit_safe_point a_at)
     (e_then (e_slot 1 (\<lambda>slot. e_instruction I_OBJECT_HAS [slot, C_symbol key, C_size 0]))
     (e_then (f_at a_at) (e_done a_clear))))"

definition emit_object_has_indirect :: "t_at \<Rightarrow> node_emit \<Rightarrow> node_emit \<Rightarrow> node_emit" where
  "emit_object_has_indirect a_at target key a_tail a_operand a_clear =
     e_then (target False False False)
     (e_then (key False False False)
     (e_then (f_emit_safe_point a_at)
     (e_then (e_slot 2 (\<lambda>slot. e_instruction I_OBJECT_HAS_INDIRECT [slot, C_size 0]))
     (e_then f_pop
     (e_then (f_at a_at) (e_done a_clear))))))"

text \<open>\<open>assert(!a_tail || v_stack == v_scope->v_privates.v_size + k)\<close>.\<close>

definition assert_tail :: "bool \<Rightarrow> nat \<Rightarrow> unit emit" where
  "assert_tail a_tail k = e_assert (\<lambda>e. \<not> a_tail \<or> v_stack e = v_privates_size (v_emit_scope e) + k)"

definition emit_get_at :: "t_at \<Rightarrow> node_emit \<Rightarrow> node_emit \<Rightarrow> node_emit" where
  "emit_get_at a_at target index a_tail a_operand a_clear =
     e_then f_push
     (e_then (target False False False)
     (e_then (index False False False)
     (e_then (f_emit_safe_point a_at)
     (e_then (assert_tail a_tail 3)
     (e_then (e_slot 3 (\<lambda>slot. e_instruction (I_GET_AT a_tail) [slot]))
     (e_then f_pop (e_then f_pop
     (e_then (f_at a_at) (e_done a_clear)))))))))"

definition emit_bind :: "t_at \<Rightarrow> node_emit \<Rightarrow> node_emit \<Rightarrow> unit emit" where
  "emit_bind a_at target index =
     e_then (target False False False)
     (e_then (index False False False)
     (e_then (f_emit_safe_point a_at)
     (e_then (e_slot 2 (\<lambda>slot. e_instruction I_METHOD_BIND [slot]))
     (f_at a_at))))"

definition emit_set_at :: "t_at \<Rightarrow> node_emit \<Rightarrow> node_emit \<Rightarrow> node_emit \<Rightarrow> node_emit" where
  "emit_set_at a_at target index value a_tail a_operand a_clear =
     e_then f_push
     (e_then (target False False False)
     (e_then (index False False False)
     (e_then (value False False False)
     (e_then (f_emit_safe_point a_at)
     (e_then (assert_tail a_tail 4)
     (e_then (e_slot 4 (\<lambda>slot. e_instruction (I_SET_AT a_tail) [slot]))
     (e_then f_pop (e_then f_pop (e_then f_pop
     (e_then (f_at a_at) (e_done a_clear)))))))))))"

section \<open>Operators\<close>

text \<open>Constant folding leaves \<open>t_literal(v_at, ...)\<close> in place of the node; \<open>size\<close> is \<open>v_size\<close> before it.\<close>

fun value_operand :: "t_value \<Rightarrow> t_operand" where
  "value_operand V_null = Op_literal L_null"
| "value_operand V_false = Op_literal (L_bool False)"
| "value_operand V_true = Op_literal (L_bool True)"
| "value_operand (V_integer n) = Op_integer n"
| "value_operand (V_float x) = Op_float x"
| "value_operand (V_object a) = Op_temporary"

fun number_operand :: "t_operand \<Rightarrow> rt_operand" where
  "number_operand (Op_integer n) = R_INTEGER n"
| "number_operand (Op_float x) = R_FLOAT x"
| "number_operand _ = R_LITERAL V_null"

definition emit_folded :: "t_at \<Rightarrow> nat \<Rightarrow> t_value result \<Rightarrow> node_emit" where
  "emit_folded a_at a_size r a_tail a_operand a_clear =
     e_then (e_modify (update_code (\<lambda>c. c\<lparr>v_size := a_size\<rparr>)))
       (case r of
          Inl x \<Rightarrow> (\<lambda>_. Inl x)
        | Inr v \<Rightarrow> emit_literal a_at (value_operand v) a_tail a_operand a_clear)"

fun operand_encoding :: "t_operand \<Rightarrow> t_encoding" where
  "operand_encoding (Op_integer n) = E_I"
| "operand_encoding (Op_float x) = E_F"
| "operand_encoding (Op_literal v) = E_L"
| "operand_encoding (Op_variable i) = E_V"
| "operand_encoding Op_temporary = E_T"

definition operand_cells :: "t_operand \<Rightarrow> t_cell list" where
  "operand_cells x = (if x = Op_temporary then [] else [literal_cell x])"

text \<open>The instruction of a node that is not folded; the temporaries below \<open>v_stack\<close> are its operands.\<close>

definition unary_code :: "t_at \<Rightarrow> unop \<Rightarrow> t_operand \<Rightarrow> bool \<Rightarrow> bool \<Rightarrow> t_operand emit" where
  "unary_code a_at op operand a_tail a_clear =
     e_then (f_emit_safe_point a_at)
     (e_then (e_when (operand \<noteq> Op_temporary) f_push)
     (e_then f_pop (e_then f_pop
     (e_then (assert_tail a_tail 0)
     (e_then (e_slot 0 (\<lambda>slot. e_instruction (I_UNARY op (operand_encoding operand) a_tail) (slot # operand_cells operand)))
     (e_then f_push (e_then (f_at a_at) (e_done a_clear))))))))"

definition emit_unary :: "t_at \<Rightarrow> unop \<Rightarrow> node_emit \<Rightarrow> node_emit" where
  "emit_unary a_at op expression a_tail a_operand a_clear =
     e_state (\<lambda>e0.
       e_then f_push
       (e_bind (expression False True False) (\<lambda>operand.
       case fold_unary op (number_operand operand) of
         Some r \<Rightarrow> e_then f_pop (emit_folded a_at (v_size (v_code e0)) r a_tail a_operand a_clear)
       | None \<Rightarrow> unary_code a_at op operand a_tail a_clear)))"

definition binary_code :: "t_at \<Rightarrow> binop \<Rightarrow> t_operand \<Rightarrow> t_operand \<Rightarrow> bool \<Rightarrow> bool \<Rightarrow> t_operand emit" where
  "binary_code a_at op x y a_tail a_clear =
     e_then (f_emit_safe_point a_at)
     (e_then (e_when (y \<noteq> Op_temporary) f_push)
     (e_then f_pop (e_then f_pop (e_then f_pop
     (e_then (assert_tail a_tail 0)
     (e_then (e_slot 0 (\<lambda>slot. e_instruction (I_BINARY op (operand_encoding x) (operand_encoding y) a_tail)
       (slot # operand_cells x @ operand_cells y)))
     (e_then f_push (e_then (f_at a_at) (e_done a_clear)))))))))"

definition emit_binary :: "t_at \<Rightarrow> binop \<Rightarrow> node_emit \<Rightarrow> node_emit \<Rightarrow> node_emit" where
  "emit_binary a_at op lhs rhs a_tail a_operand a_clear =
     e_state (\<lambda>e0.
       e_then f_push
       (e_bind (lhs False True False) (\<lambda>x.
       e_then (e_when (x \<noteq> Op_temporary) f_push)
       (e_bind (rhs False True False) (\<lambda>y.
       case fold_binary op (number_operand x) (number_operand y) of
         Some r \<Rightarrow> e_then f_pop (e_then f_pop (emit_folded a_at (v_size (v_code e0)) r a_tail a_operand a_clear))
       | None \<Rightarrow> binary_code a_at op x y a_tail a_clear)))))"

section \<open>Blocks and control flow\<close>

fun emit_nodes :: "node_emit list \<Rightarrow> node_emit" where
  "emit_nodes [] a_tail a_operand a_clear = e_then (e_when (\<not> a_clear) f_emit_null) (e_return Op_temporary)"
| "emit_nodes (f # fs) a_tail a_operand a_clear =
     (if fs = [] then e_then (f a_tail False a_clear) (e_return Op_temporary)
      else e_then (f False False True) (emit_nodes fs a_tail a_operand a_clear))"

text \<open>The condition of \<open>t_if\<close>, \<open>t_while\<close> and \<open>t_for\<close>, which may be absent.\<close>

definition emit_condition :: "node_emit option \<Rightarrow> nat \<Rightarrow> unit emit" where
  "emit_condition condition l =
     (case condition of None \<Rightarrow> e_skip
      | Some c \<Rightarrow> e_then (c False False False) (e_then f_pop (e_branch l)))"

definition emit_optional :: "node_emit option \<Rightarrow> unit emit" where
  "emit_optional node = (case node of None \<Rightarrow> e_skip | Some n \<Rightarrow> e_then (n False False True) e_skip)"

definition emit_if :: "junction \<Rightarrow> node_emit option \<Rightarrow> node_emit \<Rightarrow> node_emit \<Rightarrow> node_emit" where
  "emit_if a_junction condition yes no a_tail a_operand a_clear =
     e_bind f_label (\<lambda>label0.
     e_then (emit_condition condition label0)
     (e_state (\<lambda>e.
     e_then (yes a_tail False a_clear)
     (e_then (f_join a_junction)
     (e_bind f_label (\<lambda>label1.
     e_then (e_jump label1)
     (e_then (t_emit_f_target label0)
     (e_then (e_modify (\<lambda>e1. e1\<lparr>v_emit_privates := v_emit_privates e, v_stack := v_stack e\<rparr>))
     (e_then (no a_tail False a_clear)
     (e_then (f_join a_junction)
     (e_then (t_emit_f_target label1)
     (e_then (f_merge a_junction) (e_return Op_temporary)))))))))))))"

text \<open>The targets of the body of a loop.\<close>

definition loop_targets :: "t_emit \<Rightarrow> nat \<Rightarrow> junction \<Rightarrow> bool \<Rightarrow> bool \<Rightarrow> nat \<Rightarrow> junction \<Rightarrow> t_targets" where
  "loop_targets e break0 junction_exit a_tail a_clear continue0 junction_continue =
     (v_targets e)\<lparr>v_break := Some break0, v_break_junction := Some junction_exit, v_break_stack := v_stack e,
       v_break_is_tail := a_tail, v_break_must_clear := a_clear,
       v_continue := Some continue0, v_continue_junction := Some junction_continue\<rparr>"

text \<open>A node run with targets of its own.\<close>

definition with_targets :: "t_targets \<Rightarrow> unit emit \<Rightarrow> unit emit" where
  "with_targets t m = e_state (\<lambda>e. e_then (set_targets t) (e_then m (set_targets (v_targets e))))"

definition emit_while :: "junction \<Rightarrow> junction \<Rightarrow> node_emit option \<Rightarrow> node_emit \<Rightarrow> node_emit" where
  "emit_while junction_condition junction_exit condition body a_tail a_operand a_clear =
     e_then (f_join junction_condition)
     (e_bind f_label (\<lambda>loop.
     e_then (t_emit_f_target loop)
     (e_then (f_merge junction_condition)
     (e_bind f_label (\<lambda>label0.
     e_then (emit_condition condition label0)
     (e_bind f_label (\<lambda>break0.
     e_then (e_state (\<lambda>e. with_targets (loop_targets e break0 junction_exit a_tail a_clear loop junction_condition)
       (e_then (body False False True) e_skip)))
     (e_then (e_jump loop)
     (e_then (t_emit_f_target label0)
     (e_then (f_join junction_exit)
     (e_then (e_when (\<not> a_clear) f_emit_null)
     (e_then (t_emit_f_target break0)
     (e_then (f_merge junction_exit) (e_return Op_temporary))))))))))))))"

definition emit_for :: "junction \<Rightarrow> junction \<Rightarrow> junction \<Rightarrow> node_emit option \<Rightarrow> node_emit option \<Rightarrow> node_emit option \<Rightarrow> node_emit \<Rightarrow> node_emit" where
  "emit_for junction_condition junction_next junction_exit initialization condition step body a_tail a_operand a_clear =
     e_then (emit_optional initialization)
     (e_then (f_join junction_condition)
     (e_bind f_label (\<lambda>loop.
     e_bind (if step = None then e_return loop else f_label) (\<lambda>continue0.
     e_then (t_emit_f_target loop)
     (e_then (f_merge junction_condition)
     (e_bind f_label (\<lambda>label0.
     e_then (emit_condition condition label0)
     (e_bind f_label (\<lambda>break0.
     e_then (e_state (\<lambda>e. with_targets (loop_targets e break0 junction_exit a_tail a_clear continue0 junction_next)
       (e_then (body False False True) e_skip)))
     (e_then (e_when (step \<noteq> None) (e_then (t_emit_f_target continue0) (emit_optional step)))
     (e_then (e_jump loop)
     (e_then (t_emit_f_target label0)
     (e_then (f_join junction_exit)
     (e_then (e_when (\<not> a_clear) f_emit_null)
     (e_then (t_emit_f_target break0)
     (e_then (f_merge junction_exit) (e_return Op_temporary)))))))))))))))))"

definition emit_break :: "node_emit \<Rightarrow> node_emit" where
  "emit_break expression a_tail a_operand a_clear =
     e_state (\<lambda>e. let t = v_targets e in
     e_then (set_stack (v_break_stack t))
     (e_then (expression (v_break_is_tail t) False (v_break_must_clear t))
     (e_then (set_stack (v_stack e))
     (e_then (e_when (\<not> a_clear) f_push)
     (e_then (e_null (v_break_junction t) f_join)
     (e_then (e_null (v_break t) e_jump) (e_return Op_temporary)))))))"

definition emit_continue :: "t_at \<Rightarrow> node_emit" where
  "emit_continue a_at a_tail a_operand a_clear =
     e_then (e_when (\<not> a_clear) f_push)
     (e_then (f_emit_safe_point a_at)
     (e_state (\<lambda>e. e_then (e_null (v_continue (v_targets e)) e_jump) (e_return Op_temporary))))"

definition emit_return :: "node_emit \<Rightarrow> node_emit" where
  "emit_return expression a_tail a_operand a_clear =
     e_state (\<lambda>e. let t = v_targets e in
     e_then (set_stack (v_return_stack t))
     (e_then (expression (v_return_is_tail t) False False)
     (e_then
       (if v_return_is_tail t
        then e_then (assert_tail True 1) (e_slot 1 (\<lambda>slot. e_instruction I_RETURN [slot]))
        else e_then (e_null (v_return_junction t) f_join) (e_null (v_return t) e_jump))
     (e_then (set_stack (v_stack e))
     (e_then (e_when (\<not> a_clear) f_push) (e_return Op_temporary))))))"

section \<open>Exceptions\<close>

definition e_finally :: "t_try_exit \<Rightarrow> unit emit" where
  "e_finally x = e_instruction I_FINALLY [C_try x]"

definition emit_catch :: "bool \<Rightarrow> node_emit \<Rightarrow> t_variable option \<Rightarrow> node_emit \<Rightarrow> unit emit" where
  "emit_catch a_clear expression found body =
     e_then (e_when (\<not> a_clear) f_pop)
     (e_then (expression False False False)
     (e_bind f_label (\<lambda>label0.
     e_null found (\<lambda>v. e_index v (\<lambda>index.
     e_then f_pop
     (e_then (e_catch label0 (if v_shared v then C_not_entry index else C_slot index))
     (e_then (body False False a_clear)
     (e_then (e_finally c_try__STEP) (t_emit_f_target label0)))))))))"

fun emit_catches :: "bool \<Rightarrow> (node_emit \<times> t_variable option \<times> node_emit) list \<Rightarrow> unit emit" where
  "emit_catches a_clear [] = e_skip"
| "emit_catches a_clear ((expression, found, body) # cs) =
     e_then (emit_catch a_clear expression found body) (emit_catches a_clear cs)"

text \<open>The targets inside a \<open>try\<close>: every jump goes through its \<open>finally\<close>.\<close>

definition try_targets :: "t_targets \<Rightarrow> nat \<Rightarrow> junction \<Rightarrow> nat \<Rightarrow> nat \<Rightarrow> nat \<Rightarrow> t_targets" where
  "try_targets t stack junction_finally break0 continue0 return0 =
     \<lparr>v_break = (if v_break t = None then None else Some break0), v_break_junction = Some junction_finally,
      v_break_stack = stack, v_break_is_tail = False, v_break_must_clear = v_break_must_clear t,
      v_continue = (if v_continue t = None then None else Some continue0), v_continue_junction = Some junction_finally,
      v_return = (if v_return t = None then None else Some return0), v_return_junction = Some junction_finally,
      v_return_stack = stack, v_return_is_tail = False\<rparr>"

definition no_targets :: t_targets where
  "no_targets =
     \<lparr>v_break = None, v_break_junction = None, v_break_stack = 0, v_break_is_tail = False, v_break_must_clear = False,
      v_continue = None, v_continue_junction = None, v_return = None, v_return_junction = None, v_return_stack = 0,
      v_return_is_tail = False\<rparr>"

text \<open>The operands of \<open>YRT\<close>: where a jump that passed through \<open>finally\<close> goes on.  It can go straight to its
  target unless a result has to move or a variable has to be cleared on the way.\<close>

fun needs_join :: "nat \<Rightarrow> junction \<Rightarrow> (bool \<Rightarrow> 'a emit) \<Rightarrow> 'a emit" where
  "needs_join i [] f = f False"
| "needs_join i (x # xs) f = e_private i (\<lambda>b. if \<not> b \<and> v_use x \<and> v_in x then f True else needs_join (Suc i) xs f)"

definition yrt_jump :: "nat option emit" where
  "yrt_jump = e_bind f_label (\<lambda>l. e_then (e_label l) (e_return (Some l)))"

definition yrt_operand :: "nat \<Rightarrow> nat option \<Rightarrow> junction option \<Rightarrow> nat \<Rightarrow> nat option emit" where
  "yrt_operand stack a_label a_junction a_stack =
     (case a_label of
        None \<Rightarrow> e_then (e_cells [C_size 0]) (e_return None)
      | Some l \<Rightarrow>
          if a_stack < stack then yrt_jump
          else e_null a_junction (\<lambda>j. needs_join 0 j (\<lambda>b. if b then yrt_jump else e_then (e_label l) (e_return None))))"

definition yrt_join :: "nat \<Rightarrow> nat option \<Rightarrow> nat option \<Rightarrow> junction option \<Rightarrow> nat \<Rightarrow> unit emit" where
  "yrt_join stack a_label0 a_label1 a_junction a_stack =
     (case a_label0 of
        None \<Rightarrow> e_skip
      | Some l \<Rightarrow>
          e_then (t_emit_f_target l)
          (e_then (e_when (a_stack < stack) (e_instruction I_STACK_GET [C_slot a_stack, C_slot stack]))
          (e_then (e_null a_junction f_join) (e_null a_label1 e_jump))))"

definition emit_yrt :: "nat \<Rightarrow> t_targets \<Rightarrow> unit emit" where
  "emit_yrt stack t =
     (let break_stack = (if v_break_must_clear t then stack else v_break_stack t) in
     e_then (e_instruction I_YRT [])
     (e_bind (yrt_operand stack (v_break t) (v_break_junction t) break_stack) (\<lambda>break0.
     e_bind (yrt_operand stack (v_continue t) (v_continue_junction t) stack) (\<lambda>continue0.
     e_bind (yrt_operand stack (v_return t) (v_return_junction t) (v_return_stack t)) (\<lambda>return0.
     e_bind (if break0 = None \<and> continue0 = None \<and> return0 = None then e_return None
             else e_bind f_label (\<lambda>step. e_then (e_jump step) (e_return (Some step)))) (\<lambda>step.
     e_then (yrt_join stack break0 (v_break t) (v_break_junction t) break_stack)
     (e_then (yrt_join stack continue0 (v_continue t) (v_continue_junction t) stack)
     (e_then (yrt_join stack return0 (v_return t) (v_return_junction t) (v_return_stack t))
     (case step of None \<Rightarrow> e_skip | Some l \<Rightarrow> t_emit_f_target l)))))))))"

text \<open>The part of \<open>t_try\<close> between \<open>TRY\<close> and \<open>finally\<close>.\<close>

definition emit_try_body :: "junction \<Rightarrow> nat \<Rightarrow> nat \<Rightarrow> node_emit \<Rightarrow> (node_emit \<times> t_variable option \<times> node_emit) list \<Rightarrow> bool \<Rightarrow> unit emit" where
  "emit_try_body junction_finally stack catch0 body catches a_clear =
     e_state (\<lambda>e.
     e_bind f_label (\<lambda>break0. e_bind f_label (\<lambda>continue0. e_bind f_label (\<lambda>return0.
     e_then (set_targets (try_targets (v_targets e) stack junction_finally break0 continue0 return0))
     (e_then (body False False a_clear)
     (e_then (e_finally c_try__STEP)
     (e_then (t_emit_f_target catch0)
     (e_then (emit_catches a_clear catches)
     (e_then (e_finally c_try__THROW)
     (e_then (t_emit_f_target break0) (e_then (e_finally c_try__BREAK)
     (e_then (t_emit_f_target continue0) (e_then (e_finally c_try__CONTINUE)
     (e_then (t_emit_f_target return0) (e_finally c_try__RETURN)))))))))))))))"

definition emit_try :: "junction \<Rightarrow> junction \<Rightarrow> node_emit \<Rightarrow> (node_emit \<times> t_variable option \<times> node_emit) list \<Rightarrow> node_emit option \<Rightarrow> node_emit" where
  "emit_try junction_try junction_finally body catches final a_tail a_operand a_clear =
     e_then (f_join junction_try)
     (e_then (f_merge junction_try)
     (e_bind f_label (\<lambda>catch0. e_bind f_label (\<lambda>finally0.
     e_state (\<lambda>e.
     e_then (e_try catch0 finally0)
     (e_then (emit_try_body junction_finally (v_stack e) catch0 body catches a_clear)
     (e_then (t_emit_f_target finally0)
     (e_then (case final of None \<Rightarrow> e_skip
        | Some f \<Rightarrow> e_then (set_targets no_targets)
            (e_then (e_when a_clear f_push) (e_then (f False False True) (e_when a_clear f_pop))))
     (e_then (emit_yrt (v_stack e) (v_targets e))
     (e_then (set_targets (v_targets e)) (e_return Op_temporary)))))))))))"

section \<open>Calls\<close>

text \<open>A call of a symbol reads the variable itself when it is on the stack, or near and never changes.\<close>

definition direct_call :: "t_scope list \<Rightarrow> t_node \<Rightarrow> (t_at \<times> nat) list \<Rightarrow> (nat \<times> t_variable) option" where
  "direct_call ss target expands =
     (if expands \<noteq> [] then None
      else case target of
        N_symbol_get a u sc x \<Rightarrow> (case symbol_variable ss u sc x of
            (resolved, Some v) \<Rightarrow> if \<not> v_shared v \<or> resolved < 3 \<and> \<not> v_varies v then Some (resolved, v) else None
          | _ \<Rightarrow> None)
      | _ \<Rightarrow> None)"

definition call_instruction :: "(nat \<times> t_variable) option \<Rightarrow> bool \<Rightarrow> bool \<Rightarrow> t_instruction" where
  "call_instruction get expanding a_tail =
     (case get of
        Some (resolved, v) \<Rightarrow>
          if v_shared v then (if resolved = 0 then I_SCOPE_CALL0 a_tail else if resolved = 1 then I_SCOPE_CALL1 a_tail else I_SCOPE_CALL2 a_tail)
          else I_STACK_CALL a_tail
      | None \<Rightarrow> if expanding then I_CALL_WITH_EXPANSION a_tail else I_CALL a_tail)"

fun emit_each :: "node_emit list \<Rightarrow> unit emit" where
  "emit_each [] = e_skip"
| "emit_each (f # fs) = e_then (f False False False) (emit_each fs)"

fun f_pops :: "nat \<Rightarrow> unit emit" where
  "f_pops 0 = e_skip"
| "f_pops (Suc n) = e_then f_pop (f_pops n)"

text \<open>The lengths of the runs between the arguments that are expanded; \<open>i\<close> arguments are done.\<close>

fun emit_expands :: "nat \<Rightarrow> nat \<Rightarrow> (t_at \<times> nat) list \<Rightarrow> unit emit" where
  "emit_expands n i [] = e_cells [C_size (n - i)]"
| "emit_expands n i ((a_at, index) # es) =
     e_then (f_at a_at) (e_then (e_cells [C_size (index - i)]) (emit_expands n (Suc index) es))"

definition emit_call :: "t_at \<Rightarrow> (nat \<times> t_variable) option \<Rightarrow> unit emit \<Rightarrow> node_emit list \<Rightarrow> (t_at \<times> nat) list \<Rightarrow> node_emit" where
  "emit_call a_at get target arguments expands a_tail a_operand a_clear =
     e_then (case get of None \<Rightarrow> target | Some _ \<Rightarrow> e_then f_push f_push)
     (e_then (emit_each arguments)
     (e_then (f_pops (length arguments))
     (e_then f_pop (e_then f_pop
     (e_then (f_emit_safe_point a_at)
     (e_then (assert_tail a_tail 0)
     (e_then (e_slot 0 (\<lambda>slot. e_instruction (call_instruction get (expands \<noteq> []) a_tail) [slot]))
     (e_then (case get of None \<Rightarrow> e_skip
        | Some (r, v) \<Rightarrow> e_index v (\<lambda>index. e_cells [if v_shared v then C_entry index else C_slot index]))
     (e_then (e_cells [C_size (length arguments)])
     (e_then (e_when (expands \<noteq> []) (emit_expands (length arguments) 0 expands))
     (e_then f_push
     (e_then (f_at a_at) (e_done a_clear)))))))))))))"

text \<open>The target of a call that is neither a field, an element nor a variable called directly.\<close>

definition emit_target :: "node_emit \<Rightarrow> unit emit" where
  "emit_target target = e_then (target False False False) f_emit_null"

section \<open>Functions\<close>

text \<open>\<open>t_lambda::f_code\<close>.\<close>

definition f_code :: "t_scope \<Rightarrow> bool \<Rightarrow> nat \<Rightarrow> nat \<Rightarrow> t_code" where
  "f_code sc a_variadic a_arguments a_defaults =
     t_code_new (v_scope_shared sc) a_variadic (v_privates_size sc) (v_shareds sc) a_arguments
       (of_nat a_arguments - of_nat a_defaults - (if a_variadic then 1 else 0))"

text \<open>\<open>std::map::emplace\<close>: a key that is there keeps its value.\<close>

definition emplace :: "'k \<Rightarrow> 'v \<Rightarrow> ('k \<times> 'v) list \<Rightarrow> ('k \<times> 'v) list" where
  "emplace k v m = (if map_of m k = None then m @ [(k, v)] else m)"

definition self_variable :: "bool \<Rightarrow> t_variable" where
  "self_variable b = \<lparr>v_shared = b, v_varies = False, v_index = Some (if b then 0 else 2 ^ 64 - 1)\<rparr>"

text \<open>The names that the debugger can look up: the variables of the scope, and those of the outer scopes that
  are shared, with a colon for every scope left behind.\<close>

fun outer_variables :: "t_scope list \<Rightarrow> nat \<Rightarrow> symbol \<Rightarrow> (symbol \<times> t_variable) list \<Rightarrow> (symbol \<times> t_variable) list" where
  "outer_variables ss i prefix m =
     (case v_outer (ss ! i) of
        None \<Rightarrow> m
      | Some j \<Rightarrow> if j < i then
            (let sc = ss ! j; prefix1 = prefix @ wide '':'';
                 m1 = (if v_self_shared sc then emplace (prefix1 @ wide ''$'') (self_variable True) m else m)
             in outer_variables ss j prefix1
                  (fold (\<lambda>(x, v) m. if v_shared v then emplace (prefix1 @ x) v m else m) (v_variables sc) m1))
          else m)"

declare outer_variables.simps [simp del]

definition scope_variables :: "t_scope \<Rightarrow> (symbol \<times> t_variable) list" where
  "scope_variables sc = fold (\<lambda>(x, v). emplace x v) (v_variables sc) (emplace (wide ''$'') (self_variable (v_self_shared sc)) [])"

text \<open>\<open>f_safe_points\<close>: the names of the variables go to the code, the places of the safe points to the map of
  the module, under the line and the address.\<close>

definition add_safe_points :: "nat \<Rightarrow> (nat \<times> nat \<times> nat) list \<Rightarrow> safe_points \<Rightarrow> safe_points" where
  "add_safe_points code positions m = fold (\<lambda>(l, a, c). emplace (l, code, a) c) positions m"

definition f_safe_points :: "t_scope list \<Rightarrow> nat \<Rightarrow> t_emit \<Rightarrow> t_emit" where
  "f_safe_points ss i e =
     (case v_safe_points e of
        None \<Rightarrow> e
      | Some m \<Rightarrow> update_code (\<lambda>c. c\<lparr>v_code_variables := outer_variables ss i [] (scope_variables (ss ! i))\<rparr>)
          (e\<lparr>v_safe_points := Some (add_safe_points (v_next_code e) (v_safe_positions e) m)\<rparr>))"

text \<open>A parameter that an inner function uses is copied to its place in the scope; the list of privates is
  circular.\<close>

fun emit_parameters :: "t_scope \<Rightarrow> nat \<Rightarrow> nat \<Rightarrow> unit emit" where
  "emit_parameters sc i 0 = e_skip"
| "emit_parameters sc i (Suc n) =
     e_then
       (if v_privates sc = [] then e_fail ''null''
        else e_null (map_of (v_variables sc) (v_privates sc ! (i mod length (v_privates sc)))) (\<lambda>v.
          if v_shared v then e_index v (\<lambda>index. e_slot 0 (\<lambda>slot.
            e_then (e_instruction I_STACK_GET [slot, C_slot i]) (e_instruction I_SCOPE_PUT0 [slot, C_entry index])))
          else e_skip))
     (emit_parameters sc (Suc i) n)"

definition emit_self_shared :: "t_scope \<Rightarrow> unit emit" where
  "emit_self_shared sc =
     e_when (v_self_shared sc) (e_slot 0 (\<lambda>slot.
       e_then (e_instruction I_SELF [slot]) (e_instruction I_SCOPE_PUT0 [slot, C_entry 0])))"

text \<open>The code of the function, written to \<open>code1\<close> with privates, labels and targets of its own.\<close>

definition lambda_targets :: "nat \<Rightarrow> nat \<Rightarrow> junction \<Rightarrow> t_targets" where
  "lambda_targets stack return0 a_junction =
     \<lparr>v_break = None, v_break_junction = None, v_break_stack = stack, v_break_is_tail = False, v_break_must_clear = False,
      v_continue = None, v_continue_junction = None, v_return = Some return0, v_return_junction = Some a_junction,
      v_return_stack = stack, v_return_is_tail = True\<rparr>"

definition emit_function :: "t_scope \<Rightarrow> nat \<Rightarrow> junction \<Rightarrow> node_emit \<Rightarrow> unit emit" where
  "emit_function sc a_arguments a_junction body =
     e_bind f_label (\<lambda>return0.
     e_then (e_state (\<lambda>e. set_targets (lambda_targets (v_stack e) return0 a_junction)))
     (e_then (emit_self_shared sc)
     (e_then (emit_parameters sc 0 a_arguments)
     (e_then (body True False False)
     (e_then f_pop
     (e_then (t_emit_f_target return0)
     (e_then (e_assert (\<lambda>e. v_stack e = v_privates_size sc))
     (e_then (e_slot 0 (\<lambda>slot. e_instruction I_RETURN [slot])) f_resolve))))))))"

text \<open>\<open>t_lambda::f_emit\<close> keeps the state of the outer function in local variables.\<close>

definition enter_function :: "t_scope \<Rightarrow> nat \<Rightarrow> t_code \<Rightarrow> t_emit \<Rightarrow> t_emit" where
  "enter_function sc a_arguments code e =
     e\<lparr>v_emit_scope := sc, v_code := code, v_emit_arguments := a_arguments,
       v_emit_privates := replicate (v_privates_size sc - a_arguments) False, v_stack := v_privates_size sc,
       v_labels := [], v_safe_positions := [], v_next_code := Suc (v_next_code e)\<rparr>"

definition leave_function :: "t_scope list \<Rightarrow> nat \<Rightarrow> t_emit \<Rightarrow> t_emit \<Rightarrow> t_emit" where
  "leave_function ss i e e1 =
     (let e2 = f_safe_points ss i (e1\<lparr>v_next_code := v_next_code e\<rparr>)
      in e\<lparr>v_safe_points := v_safe_points e2, v_codes := (v_next_code e, v_code e2) # v_codes e1, v_next_code := v_next_code e1\<rparr>)"

definition emit_lambda_code :: "t_scope list \<Rightarrow> nat \<Rightarrow> bool \<Rightarrow> nat \<Rightarrow> nat \<Rightarrow> junction \<Rightarrow> node_emit \<Rightarrow> nat emit" where
  "emit_lambda_code ss i a_variadic a_arguments a_defaults a_junction body e =
     (let sc = ss ! i
      in if v_privates_size sc < a_arguments then Inl (Thrown ''length_error'')
         else bind_result (emit_function sc a_arguments a_junction body (enter_function sc a_arguments (f_code sc a_variadic a_arguments a_defaults) e))
           (\<lambda>(_, e1). Inr (v_next_code e, leave_function ss i e e1)))"

definition emit_lambda :: "t_scope list \<Rightarrow> t_at \<Rightarrow> nat \<Rightarrow> bool \<Rightarrow> nat \<Rightarrow> node_emit list \<Rightarrow> junction \<Rightarrow> node_emit \<Rightarrow> node_emit" where
  "emit_lambda ss a_at i a_variadic a_arguments defaults a_junction body a_tail a_operand a_clear =
     e_bind (emit_lambda_code ss i a_variadic a_arguments (length defaults) a_junction body) (\<lambda>code.
     e_then (f_emit_safe_point a_at)
     (e_then
       (if a_variadic \<or> defaults \<noteq> []
        then e_then (emit_each defaults)
          (e_then (f_pops (length defaults)) (e_slot 0 (\<lambda>slot. e_instruction I_ADVANCED_LAMBDA [slot, C_code code])))
        else e_slot 0 (\<lambda>slot. e_instruction I_LAMBDA [slot, C_code code]))
     (e_then f_push (e_done a_clear))))"

section \<open>The whole tree\<close>

text \<open>
  \<open>f_emit\<close> of every class.  Beside its emitter a node has one as the target of a call, \<open>f_method\<close> and
  \<open>f_bind\<close> where the class has them.  \<open>J\<close> is the table of blocks of the function at hand, \<open>T\<close> the tables of
  all functions.
\<close>

type_synonym emitter = "node_emit \<times> unit emit"

definition plain :: "node_emit \<Rightarrow> emitter" where
  "plain f = (f, emit_target f)"

definition child_emit :: "(t_blocks \<Rightarrow> t_path \<Rightarrow> emitter) \<Rightarrow> t_blocks \<Rightarrow> t_path \<Rightarrow> node_emit" where
  "child_emit f J p = fst (f J p)"

fun list_emit :: "(t_blocks \<Rightarrow> t_path \<Rightarrow> emitter) list \<Rightarrow> t_blocks \<Rightarrow> t_path \<Rightarrow> nat \<Rightarrow> node_emit list" where
  "list_emit [] J p k = []"
| "list_emit (f # fs) J p k = child_emit f J (k # p) # list_emit fs J p (Suc k)"

definition option_emit :: "(t_blocks \<Rightarrow> t_path \<Rightarrow> emitter) option \<Rightarrow> t_blocks \<Rightarrow> t_path \<Rightarrow> node_emit option" where
  "option_emit fo J p = map_option (\<lambda>f. child_emit f J p) fo"

fun catches_emit :: "t_scope list \<Rightarrow> ((t_blocks \<Rightarrow> t_path \<Rightarrow> emitter) \<times> variable_ref \<times> (t_blocks \<Rightarrow> t_path \<Rightarrow> emitter)) list \<Rightarrow> t_blocks
  \<Rightarrow> t_path \<Rightarrow> nat \<Rightarrow> (node_emit \<times> t_variable option \<times> node_emit) list" where
  "catches_emit ss [] J p k = []"
| "catches_emit ss ((e, v, b) # cs) J p k =
     (child_emit e J ((2 + 2 * k) # p), variable_at ss v, child_emit b J ((3 + 2 * k) # p)) # catches_emit ss cs J p (Suc k)"

definition privates_of :: "t_blocks \<Rightarrow> t_path \<Rightarrow> block_name \<Rightarrow> junction" where
  "privates_of J p b = v_block_privates (J (p, b))"

primrec f_emit :: "t_scope list \<Rightarrow> (t_path \<Rightarrow> t_blocks) \<Rightarrow> t_node \<Rightarrow> t_blocks \<Rightarrow> t_path \<Rightarrow> emitter" where
  "f_emit ss T (N_nodes ns) J p = plain (emit_nodes (list_emit (map (f_emit ss T) ns) J p 0))"
| "f_emit ss T (N_lambda a_at i va k ds b) J p =
     plain (emit_lambda ss a_at i va k (list_emit (map (f_emit ss T) ds) J p 1) (privates_of (T p) p B_junction)
       (child_emit (f_emit ss T b) (T p) (0 # p)))"
| "f_emit ss T (N_if c x y) J p =
     plain (emit_if (privates_of J p B_junction) (option_emit (map_option (f_emit ss T) c) J (0 # p))
       (child_emit (f_emit ss T x) J (1 # p)) (child_emit (f_emit ss T y) J (2 # p)))"
| "f_emit ss T (N_while c b) J p =
     plain (emit_while (privates_of J p B_junction_condition) (privates_of J p B_junction_exit)
       (option_emit (map_option (f_emit ss T) c) J (0 # p)) (child_emit (f_emit ss T b) J (1 # p)))"
| "f_emit ss T (N_for i c n b) J p =
     plain (emit_for (privates_of J p B_junction_condition) (privates_of J p B_junction_next) (privates_of J p B_junction_exit)
       (option_emit (map_option (f_emit ss T) i) J (0 # p)) (option_emit (map_option (f_emit ss T) c) J (1 # p))
       (option_emit (map_option (f_emit ss T) n) J (2 # p)) (child_emit (f_emit ss T b) J (3 # p)))"
| "f_emit ss T (N_break e) J p = plain (emit_break (child_emit (f_emit ss T e) J (0 # p)))"
| "f_emit ss T (N_continue a_at) J p = plain (emit_continue a_at)"
| "f_emit ss T (N_return e) J p = plain (emit_return (child_emit (f_emit ss T e) J (0 # p)))"
| "f_emit ss T (N_try b cs f) J p =
     plain (emit_try (privates_of J p B_junction_try) (privates_of J p B_junction_finally)
       (child_emit (f_emit ss T b) J (0 # p))
       (catches_emit ss (map (map_prod (f_emit ss T) (map_prod id (f_emit ss T))) cs) J p 0)
       (option_emit (map_option (f_emit ss T) f) J (1 # p)))"
| "f_emit ss T (N_throw a_at e) J p = plain (emit_throw a_at (child_emit (f_emit ss T e) J (0 # p)))"
| "f_emit ss T (N_object_get a_at t k) J p =
     (emit_object_get a_at (child_emit (f_emit ss T t) J (0 # p)) k, emit_method a_at (child_emit (f_emit ss T t) J (0 # p)) k)"
| "f_emit ss T (N_object_get_indirect a_at t k) J p =
     plain (emit_object_get_indirect a_at (child_emit (f_emit ss T t) J (0 # p)) (child_emit (f_emit ss T k) J (1 # p)))"
| "f_emit ss T (N_object_put a_at t k v) J p =
     plain (emit_object_put a_at (child_emit (f_emit ss T t) J (0 # p)) k (child_emit (f_emit ss T v) J (1 # p)))"
| "f_emit ss T (N_object_put_indirect a_at t k v) J p =
     plain (emit_object_put_indirect a_at (child_emit (f_emit ss T t) J (0 # p)) (child_emit (f_emit ss T k) J (1 # p))
       (child_emit (f_emit ss T v) J (2 # p)))"
| "f_emit ss T (N_object_has a_at t k) J p = plain (emit_object_has a_at (child_emit (f_emit ss T t) J (0 # p)) k)"
| "f_emit ss T (N_object_has_indirect a_at t k) J p =
     plain (emit_object_has_indirect a_at (child_emit (f_emit ss T t) J (0 # p)) (child_emit (f_emit ss T k) J (1 # p)))"
| "f_emit ss T (N_symbol_get a_at u sc x) J p = plain (emit_symbol_get a_at x (symbol_variable ss u sc x))"
| "f_emit ss T (N_scope_put a_at u v e) J p =
     plain (emit_scope_put a_at u (variable_at ss v) (child_emit (f_emit ss T e) J (0 # p)))"
| "f_emit ss T (N_self a_at u) J p = plain (emit_self a_at u)"
| "f_emit ss T (N_class a_at t) J p = plain (emit_class a_at (child_emit (f_emit ss T t) J (0 # p)))"
| "f_emit ss T (N_super a_at t) J p = plain (emit_super a_at (child_emit (f_emit ss T t) J (0 # p)))"
| "f_emit ss T (N_null a_at) J p = plain (emit_null a_at)"
| "f_emit ss T (N_literal_object a_at v) J p = plain (emit_literal a_at (Op_literal (L_object v)))"
| "f_emit ss T (N_literal_bool a_at b) J p = plain (emit_literal a_at (Op_literal (L_bool b)))"
| "f_emit ss T (N_literal_integer a_at n) J p = plain (emit_literal a_at (Op_integer n))"
| "f_emit ss T (N_literal_float a_at x) J p = plain (emit_literal a_at (Op_float x))"
| "f_emit ss T (N_unary a_at op e) J p = plain (emit_unary a_at op (child_emit (f_emit ss T e) J (0 # p)))"
| "f_emit ss T (N_binary a_at op x y) J p =
     plain (emit_binary a_at op (child_emit (f_emit ss T x) J (0 # p)) (child_emit (f_emit ss T y) J (1 # p)))"
| "f_emit ss T N_preserve J p = plain emit_preserve"
| "f_emit ss T (N_call a_at t as es) J p =
     plain (emit_call a_at (direct_call ss t es) (snd (f_emit ss T t J (0 # p))) (list_emit (map (f_emit ss T) as) J p 1) es)"
| "f_emit ss T (N_get_at a_at t i) J p =
     (emit_get_at a_at (child_emit (f_emit ss T t) J (0 # p)) (child_emit (f_emit ss T i) J (1 # p)),
      emit_bind a_at (child_emit (f_emit ss T t) J (0 # p)) (child_emit (f_emit ss T i) J (1 # p)))"
| "f_emit ss T (N_set_at a_at t i v) J p =
     plain (emit_set_at a_at (child_emit (f_emit ss T t) J (0 # p)) (child_emit (f_emit ss T i) J (1 # p))
       (child_emit (f_emit ss T v) J (2 # p)))"

text \<open>\<open>t_emit::operator()\<close> on the scope of a module, after the analysis.\<close>

definition script_targets :: "nat \<Rightarrow> t_targets" where
  "script_targets stack = no_targets\<lparr>v_break_stack := stack, v_return_stack := stack\<rparr>"

definition t_emit_new :: "t_scope \<Rightarrow> safe_points option \<Rightarrow> t_emit" where
  "t_emit_new sc a_safe_points =
     \<lparr>v_safe_points = a_safe_points, v_emit_scope = sc,
      v_code = t_code_new True False (v_privates_size sc) (v_shareds sc) 0 0, v_codes = [], v_next_code = 1,
      v_emit_arguments = 0, v_emit_privates = replicate (v_privates_size sc) False, v_stack = v_privates_size sc,
      v_labels = [], v_targets = script_targets (v_privates_size sc), v_safe_positions = []\<rparr>"

definition emit_module :: "t_scope \<Rightarrow> node_emit \<Rightarrow> unit emit" where
  "emit_module sc body =
     e_then (emit_self_shared sc)
     (e_then (body False False True)
     (e_then (e_instruction I_RETURN_NUL []) f_resolve))"

definition emit_script :: "t_scope list \<Rightarrow> t_node \<Rightarrow> safe_points option \<Rightarrow> (t_code \<times> t_emit) result option" where
  "emit_script ss script a_safe_points =
     then_result (analyze_script ss script) (\<lambda>T.
     then_result (Some (emit_module (ss ! 0) (child_emit (f_emit ss T script) (T []) [0]) (t_emit_new (ss ! 0) a_safe_points))) (\<lambda>(_, e).
     let e1 = f_safe_points ss 0 (e\<lparr>v_next_code := 0\<rparr>) in Some (Inr (v_code e1, e1\<lparr>v_next_code := v_next_code e\<rparr>))))"

end
