(* ===== verification/Xm_Flow_Correct.thy ===== *)
theory Xm_Flow_Correct
  imports Xm_Flow
begin

text \<open>
  The data-flow analysis of \<open>Xm_Flow\<close> computes what it is meant to, and returns.

  \<open>worklist\<close> is the contract of the two worklist loops: a loop over a merge that only adds returns a stable
  state of all blocks within reach.  Its two interpretations are \<open>f_forward\<close> over \<open>v_nexts\<close> and \<open>f_backward\<close>
  over \<open>v_previouses\<close>.  From them, \<open>v_in\<close> is what some way from the body brings to a block and \<open>v_use\<close> what some way
  to the junction needs.  The second part follows the walk over the tree: \<open>triple\<close> is a Hoare triple for the
  steps of \<open>f_flow\<close>, \<open>f_flow_total\<close> the one for every node of a well-scoped tree.
\<close>

declare split_paired_All [simp del] split_paired_Ex [simp del]

section \<open>What a worklist loop computes\<close>

text \<open>
  The two loops share one contract.  \<open>unseen\<close> is what the loop needs of a block it has not reached yet,
  \<open>full\<close> what it has made of a block it has reached, \<open>rank\<close> how often a block can still change.
\<close>

locale worklist =
  fixes M :: merge and N :: "t_block \<Rightarrow> block_id list"
    and unseen full :: "t_block \<Rightarrow> bool" and rank :: "t_block \<Rightarrow> nat"
  assumes merge_total: "full x \<Longrightarrow> unseen y \<or> full y \<Longrightarrow> \<exists>c z. M (v_block_privates x) y = Inr (c, z)"
    and merge_full: "full x \<Longrightarrow> unseen y \<or> full y \<Longrightarrow> M (v_block_privates x) y = Inr (c, z) \<Longrightarrow> full z \<and> N z = N y"
    and merge_unseen: "full x \<Longrightarrow> unseen y \<Longrightarrow> M (v_block_privates x) y = Inr (c, z) \<Longrightarrow> c"
    and merge_rank: "full x \<Longrightarrow> unseen y \<or> full y \<Longrightarrow> M (v_block_privates x) y = Inr (True, z) \<Longrightarrow> rank z < rank y"
    and merge_same: "full x \<Longrightarrow> full y \<Longrightarrow> M (v_block_privates x) y = Inr (False, z) \<Longrightarrow> z = y"
    and merge_idem: "full x \<Longrightarrow> unseen y \<or> full y \<Longrightarrow> M (v_block_privates x) y = Inr (c, z) \<Longrightarrow>
      M (v_block_privates x) z = Inr (False, z)"
    and merge_mono: "full w \<Longrightarrow> full x \<Longrightarrow> full y \<Longrightarrow> M (v_block_privates w) y = Inr (False, y) \<Longrightarrow>
      M (v_block_privates x) y = Inr (c, z) \<Longrightarrow> M (v_block_privates w) z = Inr (False, z)"
begin

definition stable :: "t_blocks \<Rightarrow> block_id \<Rightarrow> block_id \<Rightarrow> bool" where
  "stable bs p q \<longleftrightarrow> M (v_block_privates (bs p)) (bs q) = Inr (False, bs q)"

definition preserved :: "block_id set \<Rightarrow> (t_blocks \<Rightarrow> bool) \<Rightarrow> bool" where
  "preserved V I \<longleftrightarrow> (\<forall>bs. \<forall>p \<in> V. \<forall>q \<in> V. \<forall>c x. I bs \<longrightarrow> full (bs p) \<longrightarrow> unseen (bs q) \<or> full (bs q) \<longrightarrow> q \<in> set (N (bs p)) \<longrightarrow>
     M (v_block_privates (bs p)) (bs q) = Inr (c, x) \<longrightarrow> I (bs(q := x)))"

text \<open>\<open>state\<close>: the discovered blocks \<open>D\<close> are full, the others unseen; a discovered block outside \<open>U\<close>, that is
  neither in the queue nor being visited, agrees with all its neighbours.\<close>

definition state :: "block_id set \<Rightarrow> (t_blocks \<Rightarrow> bool) \<Rightarrow> block_id set \<Rightarrow> block_id set \<Rightarrow> t_blocks \<Rightarrow> bool" where
  "state V I D U bs \<longleftrightarrow> I bs \<and> D \<subseteq> V \<and> U \<subseteq> D \<and> (\<forall>x \<in> V. set (N (bs x)) \<subseteq> V) \<and> (\<forall>x \<in> V - D. unseen (bs x)) \<and>
     (\<forall>x \<in> D. full (bs x)) \<and> (\<forall>x \<in> D - U. \<forall>y \<in> set (N (bs x)). y \<in> D \<and> stable bs x y)"

lemma stateD:
  assumes "state V I D U bs"
  shows "I bs" "D \<subseteq> V" "U \<subseteq> D" "x \<in> V \<Longrightarrow> set (N (bs x)) \<subseteq> V" "x \<in> V \<Longrightarrow> x \<notin> D \<Longrightarrow> unseen (bs x)"
    "x \<in> D \<Longrightarrow> full (bs x)" "x \<in> D \<Longrightarrow> x \<notin> U \<Longrightarrow> y \<in> set (N (bs x)) \<Longrightarrow> y \<in> D \<and> stable bs x y"
  using assms unfolding state_def by blast+

lemma state_seen: "state V I D U bs \<Longrightarrow> q \<in> V \<Longrightarrow> unseen (bs q) \<or> full (bs q)"
  by (cases "q \<in> D") (auto simp: state_def)

lemma state_step:
  assumes st: "state V I D U bs" and I: "preserved V I"
    and p: "p \<in> D" and q: "q \<in> set (N (bs p))"
    and m: "M (v_block_privates (bs p)) (bs q) = Inr (c, x)"
  shows "state V I (insert q D) (if c then insert q U else U) (bs(q := x))"
    and "q \<noteq> p \<or> \<not> c \<Longrightarrow> stable (bs(q := x)) p q"
    and "N x = N (bs q)" and "q \<in> V" and "c \<Longrightarrow> rank x < rank (bs q)" and "\<not> c \<Longrightarrow> x = bs q"
    and "stable bs y z \<Longrightarrow> y \<in> D \<Longrightarrow> z \<in> D \<Longrightarrow> y \<noteq> q \<or> \<not> c \<Longrightarrow> stable (bs(q := x)) y z"
proof -
  have fp: "full (bs p)" and qV: "q \<in> V" using stateD[OF st] p q by blast+
  have oq: "unseen (bs q) \<or> full (bs q)" by (rule state_seen[OF st qV])
  have seen: "\<not> c \<Longrightarrow> q \<in> D" using merge_unseen[OF fp _ m] stateD(5)[OF st qV] by blast
  show N: "N x = N (bs q)" and fx: "c \<Longrightarrow> rank x < rank (bs q)" and "q \<in> V"
    using merge_full[OF fp oq m] merge_rank[OF fp oq] m qV by auto
  show same: "\<not> c \<Longrightarrow> x = bs q" using seen merge_same[OF fp] m st by (auto simp: state_def)
  have full: "full x" using merge_full[OF fp oq m] by simp
  show "stable (bs(q := x)) p q" if "q \<noteq> p \<or> \<not> c"
    using merge_idem[OF fp oq m] that same by (cases "q = p") (auto simp: stable_def)
  show mono: "stable (bs(q := x)) y z" if "stable bs y z" "y \<in> D" "z \<in> D" "y \<noteq> q \<or> \<not> c" for y z
  proof (cases "z = q")
    case True
    then show ?thesis
      using that st m merge_mono[of "bs y" "bs p" "bs q" c x] fp same by (auto simp: stable_def state_def)
  next
    case False
    then show ?thesis using that same by (auto simp: stable_def)
  qed
  have "I (bs(q := x))" using I stateD(1,2)[OF st] p qV fp oq q m unfolding preserved_def by blast
  then show "state V I (insert q D) (if c then insert q U else U) (bs(q := x))"
    using st full qV N mono seen unfolding state_def by (auto split: if_splits)
qed

lemma sum_rank_update:
  fixes f :: "t_block \<Rightarrow> nat"
  assumes "finite V" "q \<in> V"
  shows "sum (\<lambda>y. f ((bs(q := x)) y)) V + f (bs q) = sum (\<lambda>y. f (bs y)) V + f x"
proof -
  have "sum (\<lambda>y. f ((bs(q := x)) y)) V = f x + sum (\<lambda>y. f ((bs(q := x)) y)) (V - {q})"
    using assms by (simp add: sum.remove)
  also have "sum (\<lambda>y. f ((bs(q := x)) y)) (V - {q}) = sum (\<lambda>y. f (bs y)) (V - {q})"
    by (rule sum.cong) auto
  finally show ?thesis using assms by (simp add: sum.remove)
qed

lemma visit_total:
  "state V I D (insert p (set queue)) bs \<Longrightarrow> preserved V I \<Longrightarrow> finite V \<Longrightarrow> set qs \<subseteq> set (N (bs p)) \<Longrightarrow>
   S \<subseteq> D \<Longrightarrow> p \<notin> set queue \<longrightarrow> (\<forall>q \<in> S. stable bs p q) \<Longrightarrow>
   \<exists>bs1 queue1 D1. flow_visit M p qs (bs, queue) = Inr (bs1, queue1) \<and> D \<subseteq> D1 \<and> D1 \<subseteq> D \<union> set (N (bs p)) \<and>
     state V I D1 (insert p (set queue1)) bs1 \<and> (\<forall>x. N (bs1 x) = N (bs x)) \<and> set queue \<subseteq> set queue1 \<and>
     set qs \<subseteq> D1 \<and> (p \<notin> set queue1 \<longrightarrow> (\<forall>q \<in> S \<union> set qs. stable bs1 p q)) \<and>
     sum (\<lambda>x. rank (bs1 x)) V + length queue1 \<le> sum (\<lambda>x. rank (bs x)) V + length queue"
proof (induction qs arbitrary: D queue bs S)
  case Nil
  then show ?case by (intro exI[of _ bs] exI[of _ queue] exI[of _ D]) simp
next
  case (Cons q qs)
  note st = Cons.prems(1)
  have p: "p \<in> D" and q: "q \<in> set (N (bs p))" using stateD(3)[OF st] Cons.prems(4) by auto
  have qV: "q \<in> V" and fp: "full (bs p)" using stateD[OF st] p q by blast+
  obtain c x where m: "M (v_block_privates (bs p)) (bs q) = Inr (c, x)"
    using merge_total[OF fp state_seen[OF st qV]] by blast
  note step = state_step[OF st Cons.prems(2) p q m]
  let ?bs = "bs(q := x)" and ?queue = "if c \<and> q \<notin> set queue then queue @ [q] else queue"
  have sets: "(if c then insert q (insert p (set queue)) else insert p (set queue)) = insert p (set ?queue)" by auto
  have N: "N (?bs y) = N (bs y)" for y using step(3) by simp
  have S: "p \<notin> set ?queue \<longrightarrow> (\<forall>r \<in> insert q S. stable ?bs p r)"
    using Cons.prems(5,6) step(2) step(7)[of p] p by (auto simp del: fun_upd_apply split: if_splits)
  have pre: "set qs \<subseteq> set (N (?bs p))" "insert q S \<subseteq> insert q D" using Cons.prems(4,5) N by (auto simp del: fun_upd_apply)
  obtain bs1 queue1 D1 where IH: "flow_visit M p qs (?bs, ?queue) = Inr (bs1, queue1)" "insert q D \<subseteq> D1"
      "D1 \<subseteq> insert q D \<union> set (N (?bs p))" "state V I D1 (insert p (set queue1)) bs1" "\<forall>x. N (bs1 x) = N (?bs x)"
      "set ?queue \<subseteq> set queue1" "set qs \<subseteq> D1"
      "p \<notin> set queue1 \<longrightarrow> (\<forall>r \<in> insert q S \<union> set qs. stable bs1 p r)"
      "sum (\<lambda>x. rank (bs1 x)) V + length queue1 \<le> sum (\<lambda>x. rank (?bs x)) V + length ?queue"
    using Cons.IH[OF step(1)[unfolded sets] Cons.prems(2,3) pre S] by blast
  have "sum (\<lambda>x. rank (?bs x)) V + length ?queue \<le> sum (\<lambda>x. rank (bs x)) V + length queue"
    using sum_rank_update[OF Cons.prems(3) qV, of rank bs x] step(5,6) by (cases c) (auto simp del: fun_upd_apply)
  then have len: "sum (\<lambda>x. rank (bs1 x)) V + length queue1 \<le> sum (\<lambda>x. rank (bs x)) V + length queue"
    using IH(9) by linarith
  have D1: "D \<subseteq> D1" "D1 \<subseteq> D \<union> set (N (bs p))" "set queue \<subseteq> set queue1" "set (q # qs) \<subseteq> D1"
    using IH(2,3,6,7) q N by (auto split: if_splits)
  have run: "flow_visit M p (q # qs) (bs, queue) = Inr (bs1, queue1)" using m IH(1) by simp
  show ?case
    using run D1 IH(4,5,8) N len
    by (intro exI[of _ bs1] exI[of _ queue1] exI[of _ D1]) (simp del: fun_upd_apply)
qed

text \<open>The loop returns; it has discovered exactly the blocks within reach of the first one, and every edge
  between them is stable.\<close>

lemma loop_total:
  assumes "state V I D (insert p (set queue)) bs" "preserved V I" "finite V"
  shows "\<exists>bs1 D1. flow_loop M N p (bs, queue) = Some (Inr bs1) \<and> D \<subseteq> D1 \<and> state V I D1 {} bs1 \<and>
     D1 \<subseteq> {y. \<exists>x \<in> D. (x, y) \<in> {(u, v). v \<in> set (N (bs u))}\<^sup>*} \<and> (\<forall>x. N (bs1 x) = N (bs x))"
  using assms
proof (induction "sum (\<lambda>x. rank (bs x)) V + length queue" arbitrary: D p queue bs rule: less_induct)
  case less
  let ?E = "{(u, v). v \<in> set (N (bs u))}"
  obtain bs1 queue1 D1 where v: "flow_visit M p (N (bs p)) (bs, queue) = Inr (bs1, queue1)" "D \<subseteq> D1" "D1 \<subseteq> D \<union> set (N (bs p))"
      "state V I D1 (insert p (set queue1)) bs1" "\<forall>x. N (bs1 x) = N (bs x)" "set queue \<subseteq> set queue1" "set (N (bs p)) \<subseteq> D1"
      "p \<notin> set queue1 \<longrightarrow> (\<forall>q \<in> {} \<union> set (N (bs p)). stable bs1 p q)"
      "sum (\<lambda>x. rank (bs1 x)) V + length queue1 \<le> sum (\<lambda>x. rank (bs x)) V + length queue"
    using visit_total[OF less.prems, of "N (bs p)" "{}"] by auto
  have p: "p \<in> D" using less.prems(1) by (simp add: state_def)
  have near: "D1 \<subseteq> {y. \<exists>x \<in> D. (x, y) \<in> ?E\<^sup>*}" using v(3) p by auto
  have st: "state V I D1 (set queue1) bs1"
  proof -
    have "y \<in> D1 \<and> stable bs1 x y" if "x \<in> D1 - set queue1" "y \<in> set (N (bs1 x))" for x y
    proof (cases "x = p")
      case True
      then show ?thesis using that v(7,8) v(5)[rule_format, of p] by auto
    next
      case False
      then show ?thesis using that stateD(7)[OF v(4), of x y] by blast
    qed
    then show ?thesis using stateD(1-6)[OF v(4)] unfolding state_def by blast
  qed
  show ?case
  proof (cases queue1)
    case Nil
    have "flow_loop M N p (bs, queue) = Some (Inr bs1)" using v(1) Nil by (subst flow_loop.simps) simp
    then show ?thesis using st v(2,5) near Nil by auto
  next
    case (Cons q qs)
    have "N (bs1 x) = N (bs x)" for x using v(5) by blast
    then have E: "{(u, v). v \<in> set (N (bs1 u))} = ?E" by simp
    have "sum (\<lambda>x. rank (bs1 x)) V + length qs < sum (\<lambda>x. rank (bs x)) V + length queue" using v(9) Cons by simp
    from less.hyps[OF this _ less.prems(2,3), of D1 q] st Cons
    obtain bs2 D2 where r: "flow_loop M N q (bs1, qs) = Some (Inr bs2)" "D1 \<subseteq> D2" "state V I D2 {} bs2"
        "D2 \<subseteq> {y. \<exists>x \<in> D1. (x, y) \<in> ?E\<^sup>*}" "\<forall>x. N (bs2 x) = N (bs1 x)"
      unfolding E by auto
    have "flow_loop M N p (bs, queue) = Some (Inr bs2)" using v(1) Cons r(1) by (subst flow_loop.simps) simp
    moreover have "D2 \<subseteq> {y. \<exists>x \<in> D. (x, y) \<in> ?E\<^sup>*}"
      using r(4) near by (blast intro: rtrancl_trans)
    ultimately show ?thesis
      using r(2,3,5) v(2,5) by (intro exI[of _ bs2] exI[of _ D2]) (auto simp del: split_paired_All)
  qed
qed

definition edges :: "t_blocks \<Rightarrow> (block_id \<times> block_id) set" where
  "edges bs = {(u, v). v \<in> set (N (bs u))}"

lemma loop_fixpoint:
  assumes V: "finite V" "p \<in> V" "\<forall>x \<in> V. set (N (bs x)) \<subseteq> V" "\<forall>x \<in> V. x \<noteq> p \<longrightarrow> unseen (bs x)"
    and p: "full (bs p)" and I: "preserved V I" "I bs"
  shows "\<exists>bs1. flow_loop M N p (bs, []) = Some (Inr bs1) \<and> I bs1 \<and>
    (\<forall>x. (p, x) \<in> (edges bs)\<^sup>* \<longrightarrow> x \<in> V \<and> full (bs1 x)) \<and>
    (\<forall>x y. (p, x) \<in> (edges bs)\<^sup>* \<longrightarrow> (x, y) \<in> edges bs \<longrightarrow> stable bs1 x y)"
proof -
  have "state V I {p} (insert p (set [])) bs" using V p I by (auto simp: state_def)
  from loop_total[OF this I(1) V(1)] obtain bs1 D where
    r: "flow_loop M N p (bs, []) = Some (Inr bs1)" "{p} \<subseteq> D" "state V I D {} bs1" "D \<subseteq> {y. (p, y) \<in> (edges bs)\<^sup>*}"
      "\<And>x. N (bs1 x) = N (bs x)"
    unfolding edges_def by auto
  have D: "x \<in> D" if "(p, x) \<in> (edges bs)\<^sup>*" for x
    using that
  proof induction
    case (step x y)
    then show ?case using stateD(7)[OF r(3) step.IH, of y] r(5) by (auto simp: edges_def)
  qed (use r(2) in simp)
  have "x \<in> V \<and> full (bs1 x)" if "(p, x) \<in> (edges bs)\<^sup>*" for x
    using D[OF that] stateD(2,6)[OF r(3)] by blast
  moreover have "stable bs1 x y" if "(p, x) \<in> (edges bs)\<^sup>*" "(x, y) \<in> edges bs" for x y
    using stateD(7)[OF r(3) D[OF that(1)]] that(2) r(5) by (auto simp: edges_def)
  ultimately show ?thesis using r(1) stateD(1)[OF r(3)] by blast
qed

end

section \<open>The two merges\<close>

text \<open>Without the test for a change the loops are maps over the two lists.\<close>

definition fwd :: "t_private \<Rightarrow> t_private \<Rightarrow> t_private" where
  "fwd a x = (if v_out a \<and> \<not> v_in x then x\<lparr>v_in := True, v_out := True\<rparr> else x)"

definition bwd :: "t_private \<Rightarrow> t_private \<Rightarrow> t_private" where
  "bwd a x = (if v_use a \<and> \<not> v_define x \<and> \<not> v_use x then x\<lparr>v_use := True\<rparr> else x)"

lemma forward_privates_map2:
  "length as = length xs \<Longrightarrow>
   forward_privates as xs = Inr (\<exists>i < length xs. v_out (as ! i) \<and> \<not> v_in (xs ! i), map2 fwd as xs)"
  by (induction as xs rule: list_induct2) (auto simp: fwd_def Ex_less_Suc2)

lemma backward_privates_map2:
  "length as = length xs \<Longrightarrow>
   backward_privates as xs = Inr (\<exists>i < length xs. v_use (as ! i) \<and> \<not> v_define (xs ! i) \<and> \<not> v_use (xs ! i), map2 bwd as xs)"
  by (induction as xs rule: list_induct2) (auto simp: bwd_def Ex_less_Suc2)

lemma filter_map2_le:
  "length as = length xs \<Longrightarrow> (\<And>a x. P (f a x) \<Longrightarrow> P x) \<Longrightarrow> length (filter P (map2 f as xs)) \<le> length (filter P xs)"
  by (induction as xs rule: list_induct2) (auto simp: le_Suc_eq)

lemma filter_map2_less:
  assumes "length as = length xs" "\<And>a x. P (f a x) \<Longrightarrow> P x" "i < length xs" "P (xs ! i)" "\<not> P (f (as ! i) (xs ! i))"
  shows "length (filter P (map2 f as xs)) < length (filter P xs)"
  using assms
proof (induction as xs arbitrary: i rule: list_induct2)
  case (Cons a as x xs)
  have le: "length (filter P (map2 f as xs)) \<le> length (filter P xs)" by (rule filter_map2_le[OF Cons.hyps Cons.prems(1)])
  show ?case
  proof (cases i)
    case 0
    then show ?thesis using Cons.prems le by simp
  next
    case (Suc j)
    then show ?thesis using Cons.IH[of j] Cons.prems by auto
  qed
qed simp

lemma resize_length [simp]: "length (resize n xs) = n"
  by (simp add: resize_def)

lemma resize_same [simp]: "length xs = n \<Longrightarrow> resize n xs = xs"
  by (simp add: resize_def)

lemma nth_resize: "i < n \<Longrightarrow> resize n xs ! i = (if i < length xs then xs ! i else t_private_new)"
  by (auto simp: resize_def nth_append)

definition forward_full :: "nat \<Rightarrow> t_block \<Rightarrow> bool" where
  "forward_full n x \<longleftrightarrow> int n \<le> max_privates \<and> v_forward x \<and> length (v_block_privates x) = n"

definition forward_unseen :: "nat \<Rightarrow> t_block \<Rightarrow> bool" where
  "forward_unseen n x \<longleftrightarrow> int n \<le> max_privates \<and> \<not> v_forward x"

definition forward_rank :: "nat \<Rightarrow> t_block \<Rightarrow> nat" where
  "forward_rank n x = (if v_forward x then length (filter (\<lambda>y. \<not> v_in y) (v_block_privates x)) else Suc n)"

definition backward_full :: "nat \<Rightarrow> t_block \<Rightarrow> bool" where
  "backward_full n x \<longleftrightarrow> length (v_block_privates x) = n"

definition backward_unseen :: "nat \<Rightarrow> t_block \<Rightarrow> bool" where
  "backward_unseen n x \<longleftrightarrow> length (v_block_privates x) = n \<and> \<not> v_backward x"

definition backward_rank :: "nat \<Rightarrow> t_block \<Rightarrow> nat" where
  "backward_rank n x = length (filter (\<lambda>y. \<not> v_use y) (v_block_privates x)) + (if v_backward x then 0 else 1)"

lemma f_forward_eq:
  assumes "forward_full n x" "forward_unseen n y \<or> forward_full n y"
  shows "f_forward (v_block_privates x) y =
    (let ys = resize n (v_block_privates y)
     in Inr (\<not> v_forward y \<or> (\<exists>i < n. v_out (v_block_privates x ! i) \<and> \<not> v_in (ys ! i)),
          y\<lparr>v_forward := True, v_block_privates := map2 fwd (v_block_privates x) ys\<rparr>))"
  using assms
  by (auto simp: f_forward_def forward_full_def forward_unseen_def resize_checked_def forward_privates_map2 Let_def)

lemma f_backward_eq:
  assumes "backward_full n x" "backward_unseen n y \<or> backward_full n y"
  shows "f_backward (v_block_privates x) y =
    Inr (\<not> v_backward y \<or> (\<exists>i < n. v_use (v_block_privates x ! i) \<and> \<not> v_define (v_block_privates y ! i) \<and> \<not> v_use (v_block_privates y ! i)),
          y\<lparr>v_backward := True, v_block_privates := map2 bwd (v_block_privates x) (v_block_privates y)\<rparr>)"
  using assms
  by (auto simp: f_backward_def backward_full_def backward_unseen_def backward_privates_map2 Let_def)

lemma map2_same:
  "length as = length xs \<Longrightarrow> (\<And>i. i < length xs \<Longrightarrow> f (as ! i) (xs ! i) = xs ! i) \<Longrightarrow> map2 f as xs = xs"
  by (rule nth_equalityI) auto

lemma forward_stable:
  assumes "forward_full n x" "forward_full n z"
  shows "f_forward (v_block_privates x) z = Inr (c, w) \<and> \<not> c \<longleftrightarrow>
    (\<forall>i < n. v_out (v_block_privates x ! i) \<longrightarrow> v_in (v_block_privates z ! i)) \<and> w = z \<and> \<not> c"
proof -
  have "map2 fwd (v_block_privates x) (v_block_privates z) = v_block_privates z"
    if "\<forall>i < n. v_out (v_block_privates x ! i) \<longrightarrow> v_in (v_block_privates z ! i)"
    using that assms by (intro map2_same) (auto simp: fwd_def forward_full_def)
  then show ?thesis
    using assms f_forward_eq[OF assms(1), of z] by (auto simp: Let_def forward_full_def)
qed

lemma backward_stable:
  assumes "backward_full n x" "backward_full n z"
  shows "f_backward (v_block_privates x) z = Inr (c, w) \<and> \<not> c \<longleftrightarrow>
    (\<forall>i < n. v_use (v_block_privates x ! i) \<longrightarrow> v_define (v_block_privates z ! i) \<or> v_use (v_block_privates z ! i)) \<and>
    v_backward z \<and> w = z \<and> \<not> c"
proof -
  have "map2 bwd (v_block_privates x) (v_block_privates z) = v_block_privates z"
    if "\<forall>i < n. v_use (v_block_privates x ! i) \<longrightarrow> v_define (v_block_privates z ! i) \<or> v_use (v_block_privates z ! i)"
    using that assms by (intro map2_same) (auto simp: bwd_def backward_full_def)
  then show ?thesis
    using assms f_backward_eq[OF assms(1), of z] by (auto simp: backward_full_def)
qed

lemma f_forward_result:
  assumes "forward_full n x" "forward_unseen n y \<or> forward_full n y" "f_forward (v_block_privates x) y = Inr (c, z)"
  shows "forward_full n z" "v_nexts z = v_nexts y" "v_previouses z = v_previouses y" "v_backward z = v_backward y"
    "z = y\<lparr>v_forward := True, v_block_privates := map2 fwd (v_block_privates x) (resize n (v_block_privates y))\<rparr>"
    "c \<longleftrightarrow> \<not> v_forward y \<or> (\<exists>i < n. v_out (v_block_privates x ! i) \<and> \<not> v_in (resize n (v_block_privates y) ! i))"
    "i < n \<Longrightarrow> v_block_privates z ! i = fwd (v_block_privates x ! i) (resize n (v_block_privates y) ! i)"
proof -
  have *: "c = (\<not> v_forward y \<or> (\<exists>i < n. v_out (v_block_privates x ! i) \<and> \<not> v_in (resize n (v_block_privates y) ! i)))"
    "z = y\<lparr>v_forward := True, v_block_privates := map2 fwd (v_block_privates x) (resize n (v_block_privates y))\<rparr>"
    using assms(3) unfolding f_forward_eq[OF assms(1,2)] Let_def by simp_all
  have len: "length (v_block_privates x) = n" "int n \<le> max_privates" using assms(1) by (auto simp: forward_full_def)
  show "z = y\<lparr>v_forward := True, v_block_privates := map2 fwd (v_block_privates x) (resize n (v_block_privates y))\<rparr>"
    "c \<longleftrightarrow> \<not> v_forward y \<or> (\<exists>i < n. v_out (v_block_privates x ! i) \<and> \<not> v_in (resize n (v_block_privates y) ! i))"
    by (fact *)+
  show "forward_full n z" "v_nexts z = v_nexts y" "v_previouses z = v_previouses y" "v_backward z = v_backward y"
    "i < n \<Longrightarrow> v_block_privates z ! i = fwd (v_block_privates x ! i) (resize n (v_block_privates y) ! i)"
    unfolding *(2) using len by (simp_all add: forward_full_def)
qed

lemma f_backward_result:
  assumes "backward_full n x" "backward_unseen n y \<or> backward_full n y" "f_backward (v_block_privates x) y = Inr (c, z)"
  shows "backward_full n z" "v_nexts z = v_nexts y" "v_previouses z = v_previouses y" "v_backward z"
    "z = y\<lparr>v_backward := True, v_block_privates := map2 bwd (v_block_privates x) (v_block_privates y)\<rparr>"
    "c \<longleftrightarrow> \<not> v_backward y \<or> (\<exists>i < n. v_use (v_block_privates x ! i) \<and> \<not> v_define (v_block_privates y ! i) \<and> \<not> v_use (v_block_privates y ! i))"
    "i < n \<Longrightarrow> v_block_privates z ! i = bwd (v_block_privates x ! i) (v_block_privates y ! i)"
proof -
  have *: "c = (\<not> v_backward y \<or> (\<exists>i < n. v_use (v_block_privates x ! i) \<and> \<not> v_define (v_block_privates y ! i) \<and> \<not> v_use (v_block_privates y ! i)))"
    "z = y\<lparr>v_backward := True, v_block_privates := map2 bwd (v_block_privates x) (v_block_privates y)\<rparr>"
    using assms(3) unfolding f_backward_eq[OF assms(1,2)] by simp_all
  have len: "length (v_block_privates x) = n" "length (v_block_privates y) = n"
    using assms(1,2) by (auto simp: backward_full_def backward_unseen_def)
  show "z = y\<lparr>v_backward := True, v_block_privates := map2 bwd (v_block_privates x) (v_block_privates y)\<rparr>"
    "c \<longleftrightarrow> \<not> v_backward y \<or> (\<exists>i < n. v_use (v_block_privates x ! i) \<and> \<not> v_define (v_block_privates y ! i) \<and> \<not> v_use (v_block_privates y ! i))"
    by (fact *)+
  show "backward_full n z" "v_nexts z = v_nexts y" "v_previouses z = v_previouses y" "v_backward z"
    "i < n \<Longrightarrow> v_block_privates z ! i = bwd (v_block_privates x ! i) (v_block_privates y ! i)"
    unfolding *(2) using len by (simp_all add: backward_full_def)
qed

lemma forward_rank_less:
  assumes "forward_full n x" "forward_unseen n y \<or> forward_full n y" "f_forward (v_block_privates x) y = Inr (True, z)"
  shows "forward_rank n z < forward_rank n y"
proof -
  let ?xs = "v_block_privates x" and ?ys = "resize n (v_block_privates y)"
  note z = f_forward_result[OF assms]
  have len: "length ?xs = length ?ys" using assms(1) by (simp add: forward_full_def)
  show ?thesis
  proof (cases "v_forward y")
    case True
    then have y: "?ys = v_block_privates y" using assms(2) by (auto simp: forward_unseen_def forward_full_def)
    obtain i where "i < n" "v_out (?xs ! i)" "\<not> v_in (?ys ! i)" using z(6) True by auto
    then have "length (filter (\<lambda>y. \<not> v_in y) (map2 fwd ?xs ?ys)) < length (filter (\<lambda>y. \<not> v_in y) ?ys)"
      using len by (intro filter_map2_less[of _ _ _ _ i]) (auto simp: fwd_def split: if_splits)
    then show ?thesis using True y unfolding z(5) by (simp add: forward_rank_def)
  next
    case False
    have "length (filter (\<lambda>y. \<not> v_in y) (map2 fwd ?xs ?ys)) \<le> length (map2 fwd ?xs ?ys)" by (rule length_filter_le)
    also have "\<dots> = n" using len by simp
    finally show ?thesis using False unfolding z(5) by (simp add: forward_rank_def)
  qed
qed

lemma backward_rank_less:
  assumes "backward_full n x" "backward_unseen n y \<or> backward_full n y" "f_backward (v_block_privates x) y = Inr (True, z)"
  shows "backward_rank n z < backward_rank n y"
proof -
  let ?xs = "v_block_privates x" and ?ys = "v_block_privates y"
  note z = f_backward_result[OF assms]
  have len: "length ?xs = length ?ys" "length ?ys = n" using assms(1,2) by (auto simp: backward_full_def backward_unseen_def)
  have le: "length (filter (\<lambda>y. \<not> v_use y) (map2 bwd ?xs ?ys)) \<le> length (filter (\<lambda>y. \<not> v_use y) ?ys)"
    using len by (intro filter_map2_le) (auto simp: bwd_def split: if_splits)
  show ?thesis
  proof (cases "v_backward y")
    case True
    obtain i where "i < n" "v_use (?xs ! i)" "\<not> v_define (?ys ! i)" "\<not> v_use (?ys ! i)" using z(6) True by auto
    then have "length (filter (\<lambda>y. \<not> v_use y) (map2 bwd ?xs ?ys)) < length (filter (\<lambda>y. \<not> v_use y) ?ys)"
      using len by (intro filter_map2_less[of _ _ _ _ i]) (auto simp: bwd_def split: if_splits)
    then show ?thesis using True unfolding z(5) by (simp add: backward_rank_def)
  next
    case False
    then show ?thesis using le unfolding z(5) by (simp add: backward_rank_def)
  qed
qed

interpretation forward: worklist f_forward v_nexts "forward_unseen n" "forward_full n" "forward_rank n" for n
proof (unfold_locales, goal_cases)
  case (1 x y)
  then show ?case by (simp add: f_forward_eq Let_def)
next
  case (2 x y c z)
  show ?case using f_forward_result(1,2)[OF 2] by simp
next
  case (3 x y c z)
  then show ?case using f_forward_result(6)[of n x y c z] by (simp add: forward_unseen_def)
next
  case (4 x y z)
  then show ?case by (rule forward_rank_less)
next
  case (5 x y z)
  then show ?case using forward_stable[of n x y False z] by simp
next
  case (6 x y c z)
  have "v_in (v_block_privates z ! i)" if "i < n" "v_out (v_block_privates x ! i)" for i
    using f_forward_result(7)[OF 6 that(1)] that by (simp add: fwd_def)
  then show ?case using forward_stable[OF 6(1) f_forward_result(1)[OF 6], of False z] by simp
next
  case (7 w x y c z)
  have "v_in (v_block_privates z ! i)" if "i < n" "v_out (v_block_privates w ! i)" for i
    using f_forward_result(7)[OF 7(2) _ 7(5) that(1)] 7(3) forward_stable[OF 7(1,3), of False y] 7(4) that
    by (auto simp: fwd_def forward_full_def)
  then show ?case using forward_stable[OF 7(1) f_forward_result(1)[OF 7(2) _ 7(5)], of False z] 7(3) by simp
qed

interpretation backward: worklist f_backward v_previouses "backward_unseen n" "backward_full n" "backward_rank n" for n
proof (unfold_locales, goal_cases)
  case (1 x y)
  then show ?case by (simp add: f_backward_eq)
next
  case (2 x y c z)
  show ?case using f_backward_result(1,3)[OF 2] by simp
next
  case (3 x y c z)
  then show ?case using f_backward_result(6)[of n x y c z] by (simp add: backward_unseen_def)
next
  case (4 x y z)
  then show ?case by (rule backward_rank_less)
next
  case (5 x y z)
  then show ?case using backward_stable[of n x y False z] by simp
next
  case (6 x y c z)
  have "v_define (v_block_privates z ! i) \<or> v_use (v_block_privates z ! i)" if "i < n" "v_use (v_block_privates x ! i)" for i
    using f_backward_result(7)[OF 6 that(1)] that by (auto simp: bwd_def)
  then show ?case using backward_stable[OF 6(1) f_backward_result(1)[OF 6], of False z] f_backward_result(4)[OF 6] by simp
next
  case (7 w x y c z)
  have "v_define (v_block_privates z ! i) \<or> v_use (v_block_privates z ! i)" if "i < n" "v_use (v_block_privates w ! i)" for i
    using f_backward_result(7)[OF 7(2) _ 7(5) that(1)] 7(3) backward_stable[OF 7(1,3), of False y] 7(4) that
    by (auto simp: bwd_def)
  then show ?case
    using backward_stable[OF 7(1) f_backward_result(1)[OF 7(2) _ 7(5)], of False z] 7(3) f_backward_result(4)[OF 7(2) _ 7(5)] by simp
qed

section \<open>What the analysis computes\<close>

definition flag :: "(t_private \<Rightarrow> bool) \<Rightarrow> t_block \<Rightarrow> nat \<Rightarrow> bool" where
  "flag f b i \<longleftrightarrow> i < length (v_block_privates b) \<and> f (v_block_privates b ! i)"

definition succ :: "t_blocks \<Rightarrow> (block_id \<times> block_id) set" where
  "succ bs = {(u, v). v \<in> set (v_nexts (bs u))}"

text \<open>A variable may hold a value at the start of \<open>b\<close> when a block on the way from the body to \<open>b\<close> uses or
  sets it (the emitter clears a variable at its first use).\<close>

definition reaches :: "t_blocks \<Rightarrow> block_id \<Rightarrow> nat \<Rightarrow> block_id \<Rightarrow> bool" where
  "reaches bs body i b \<longleftrightarrow> (\<exists>c. (body, c) \<in> (succ bs)\<^sup>* \<and> flag v_out (bs c) i \<and> (c, b) \<in> (succ bs)\<^sup>+)"

text \<open>Its value is needed at the start of \<open>b\<close> when some way from \<open>b\<close> reads it before setting it.\<close>

inductive live :: "t_blocks \<Rightarrow> block_id \<Rightarrow> nat \<Rightarrow> block_id \<Rightarrow> bool" for bs junction i where
  live_here: "flag v_use (bs b) i \<Longrightarrow> (b, junction) \<in> (succ bs)\<^sup>* \<Longrightarrow> live bs junction i b"
| live_next: "(b, c) \<in> succ bs \<Longrightarrow> live bs junction i c \<Longrightarrow> \<not> flag v_define (bs b) i \<Longrightarrow> live bs junction i b"

definition fresh :: "t_block \<Rightarrow> bool" where
  "fresh b \<longleftrightarrow> \<not> v_forward b \<and> \<not> v_backward b \<and>
     (\<forall>x \<in> set (v_block_privates b). \<not> v_in x \<and> v_out x = (v_define x \<or> v_use x) \<and> \<not> (v_define x \<and> v_use x))"

text \<open>The graph that the walk over a body leaves.\<close>

definition linked :: "nat \<Rightarrow> block_id set \<Rightarrow> block_id \<Rightarrow> t_blocks \<Rightarrow> bool" where
  "linked n V body bs \<longleftrightarrow> finite V \<and> V = (succ bs)\<^sup>* `` {body} \<and>
     (\<forall>u v. v \<in> set (v_nexts (bs u)) \<longleftrightarrow> u \<in> set (v_previouses (bs v))) \<and> (\<forall>b. v_nexts (bs b) \<noteq> [] \<longrightarrow> b \<in> V) \<and>
     (\<forall>b. fresh (bs b) \<and> length (v_block_privates (bs b)) \<le> n)"

lemma flag_resize:
  "\<not> f t_private_new \<Longrightarrow> length (v_block_privates b) \<le> n \<Longrightarrow>
   (i < n \<and> f (resize n (v_block_privates b) ! i)) = flag f b i"
  by (auto simp: flag_def nth_resize split: if_splits)

lemma t_private_new_simps [simp]: "\<not> v_in t_private_new" "\<not> v_out t_private_new" "\<not> v_define t_private_new" "\<not> v_use t_private_new"
  by (simp_all add: t_private_new_def)

lemma flag_forward:
  assumes "forward_full n x" "forward_unseen n y \<or> forward_full n y" "f_forward (v_block_privates x) y = Inr (c, z)"
    and "length (v_block_privates y) \<le> n"
  shows "flag v_in z i \<longleftrightarrow> flag v_in y i \<or> flag v_out x i"
    and "flag v_out z i \<longleftrightarrow> flag v_out y i \<or> \<not> flag v_in y i \<and> flag v_out x i"
    and "flag v_define z i \<longleftrightarrow> flag v_define y i" and "flag v_use z i \<longleftrightarrow> flag v_use y i"
proof -
  note z = f_forward_result(7)[OF assms(1-3)]
  have len: "length (v_block_privates z) = n" "length (v_block_privates x) = n"
    using f_forward_result(1)[OF assms(1-3)] assms(1) by (simp_all add: forward_full_def)
  note r = flag_resize[OF _ assms(4), symmetric]
  show "flag v_in z i \<longleftrightarrow> flag v_in y i \<or> flag v_out x i"
    "flag v_out z i \<longleftrightarrow> flag v_out y i \<or> \<not> flag v_in y i \<and> flag v_out x i"
    "flag v_define z i \<longleftrightarrow> flag v_define y i" "flag v_use z i \<longleftrightarrow> flag v_use y i"
    unfolding r[of v_in, simplified] r[of v_out, simplified] r[of v_define, simplified] r[of v_use, simplified]
    using len z[of i] by (auto simp: flag_def fwd_def split: if_splits)
qed

lemma flag_backward:
  assumes "backward_full n x" "backward_unseen n y \<or> backward_full n y" "f_backward (v_block_privates x) y = Inr (c, z)"
  shows "flag v_in z i \<longleftrightarrow> flag v_in y i" and "flag v_out z i \<longleftrightarrow> flag v_out y i" and "flag v_define z i \<longleftrightarrow> flag v_define y i"
    and "flag v_use z i \<longleftrightarrow> flag v_use y i \<or> flag v_use x i \<and> \<not> flag v_define y i"
proof -
  note z = f_backward_result(7)[OF assms]
  have len: "length (v_block_privates z) = n" "length (v_block_privates x) = n" "length (v_block_privates y) = n"
    using f_backward_result(1)[OF assms] assms(1,2) by (auto simp: backward_full_def backward_unseen_def)
  show "flag v_in z i \<longleftrightarrow> flag v_in y i" "flag v_out z i \<longleftrightarrow> flag v_out y i" "flag v_define z i \<longleftrightarrow> flag v_define y i"
    "flag v_use z i \<longleftrightarrow> flag v_use y i \<or> flag v_use x i \<and> \<not> flag v_define y i"
    using len z[of i] by (auto simp: flag_def bwd_def split: if_splits)
qed

text \<open>What the first loop keeps true, relative to the blocks \<open>bs0\<close> it starts from.\<close>

definition forward_sound :: "nat \<Rightarrow> block_id \<Rightarrow> t_blocks \<Rightarrow> t_blocks \<Rightarrow> bool" where
  "forward_sound n body bs0 bs \<longleftrightarrow> (\<forall>b. v_nexts (bs b) = v_nexts (bs0 b) \<and> v_previouses (bs b) = v_previouses (bs0 b) \<and>
     v_backward (bs b) = v_backward (bs0 b) \<and> length (v_block_privates (bs b)) \<le> n \<and>
     (v_forward (bs b) \<longrightarrow> (body, b) \<in> (succ bs0)\<^sup>*) \<and>
     (\<forall>i. (flag v_in (bs b) i \<longrightarrow> reaches bs0 body i b) \<and> (flag v_out (bs b) i \<longleftrightarrow> flag v_out (bs0 b) i \<or> flag v_in (bs b) i) \<and>
       flag v_define (bs b) i = flag v_define (bs0 b) i \<and> flag v_use (bs b) i = flag v_use (bs0 b) i))"

lemma forward_sound_preserved: "forward.preserved n V (forward_sound n body bs0)"
  unfolding forward.preserved_def
proof (intro allI ballI impI)
  fix bs p q c x
  assume I: "forward_sound n body bs0 bs" and f: "forward_full n (bs p)" "forward_unseen n (bs q) \<or> forward_full n (bs q)"
    and q: "q \<in> set (v_nexts (bs p))" and m: "f_forward (v_block_privates (bs p)) (bs q) = Inr (c, x)"
  note inv = I[unfolded forward_sound_def, rule_format]
  have len: "length (v_block_privates (bs q)) \<le> n" using inv[of q] by simp
  have edge: "(p, q) \<in> succ bs0" using q inv[of p] by (simp add: succ_def)
  have reach: "(body, p) \<in> (succ bs0)\<^sup>*" using inv[of p] f(1) by (simp add: forward_full_def)
  have out: "reaches bs0 body i q" if "flag v_out (bs p) i" for i
  proof -
    have "flag v_out (bs0 p) i \<or> reaches bs0 body i p" using inv[of p] that by blast
    then show ?thesis using edge reach unfolding reaches_def by (meson r_into_trancl' trancl.trancl_into_trancl)
  qed
  note fl = flag_forward[OF f m len]
  note res = f_forward_result[OF f m]
  have "length (v_block_privates x) \<le> n" using res(1) by (simp add: forward_full_def)
  moreover have "(body, q) \<in> (succ bs0)\<^sup>*" using reach edge by (rule rtrancl_into_rtrancl)
  ultimately show "forward_sound n body bs0 (bs(q := x))"
    using inv out res(2-4) fl unfolding forward_sound_def by (auto simp del: split_paired_All)
qed


definition backward_sound :: "block_id \<Rightarrow> t_blocks \<Rightarrow> t_blocks \<Rightarrow> bool" where
  "backward_sound junction bs0 bs \<longleftrightarrow> (\<forall>b. v_nexts (bs b) = v_nexts (bs0 b) \<and> v_previouses (bs b) = v_previouses (bs0 b) \<and>
     length (v_block_privates (bs b)) = length (v_block_privates (bs0 b)) \<and>
     (\<forall>i. flag v_in (bs b) i = flag v_in (bs0 b) i \<and> flag v_out (bs b) i = flag v_out (bs0 b) i \<and>
       flag v_define (bs b) i = flag v_define (bs0 b) i \<and> (flag v_use (bs0 b) i \<longrightarrow> flag v_use (bs b) i) \<and>
       ((b, junction) \<in> (succ bs0)\<^sup>* \<and> flag v_use (bs b) i \<longrightarrow> live bs0 junction i b)))"

lemma backward_sound_preserved:
  assumes mirror: "\<And>u v. v \<in> set (v_nexts (bs0 u)) \<longleftrightarrow> u \<in> set (v_previouses (bs0 v))"
    and V: "V = {b. (b, junction) \<in> (succ bs0)\<^sup>*}"
  shows "backward.preserved n V (backward_sound junction bs0)"
  unfolding backward.preserved_def
proof (intro allI ballI impI)
  fix bs p q c x
  assume pq: "p \<in> V" "q \<in> V" and I: "backward_sound junction bs0 bs"
    and f: "backward_full n (bs p)" "backward_unseen n (bs q) \<or> backward_full n (bs q)"
    and q: "q \<in> set (v_previouses (bs p))" and m: "f_backward (v_block_privates (bs p)) (bs q) = Inr (c, x)"
  note inv = I[unfolded backward_sound_def, rule_format]
  have edge: "(q, p) \<in> succ bs0" using q inv[of p] mirror by (simp add: succ_def)
  have use: "live bs0 junction i q" if "flag v_use (bs p) i" "\<not> flag v_define (bs q) i" for i
    using live_next[OF edge] inv[of p] inv[of q] pq(1) that unfolding V by blast
  note fl = flag_backward[OF f m]
  note res = f_backward_result[OF f m]
  have "length (v_block_privates x) = length (v_block_privates (bs q))"
    using res(1) f(2) by (auto simp: backward_full_def backward_unseen_def)
  then have len: "length (v_block_privates x) = length (v_block_privates (bs0 q))" using inv[of q] by simp
  have new: "flag v_in x i = flag v_in (bs0 q) i \<and> flag v_out x i = flag v_out (bs0 q) i \<and>
       flag v_define x i = flag v_define (bs0 q) i \<and> (flag v_use (bs0 q) i \<longrightarrow> flag v_use x i) \<and>
       ((q, junction) \<in> (succ bs0)\<^sup>* \<and> flag v_use x i \<longrightarrow> live bs0 junction i q)" for i
    using inv[of q] use[of i] fl[of i] by blast
  show "backward_sound junction bs0 (bs(q := x))"
    unfolding backward_sound_def
  proof (rule allI)
    fix b
    show "v_nexts ((bs(q := x)) b) = v_nexts (bs0 b) \<and> v_previouses ((bs(q := x)) b) = v_previouses (bs0 b) \<and>
      length (v_block_privates ((bs(q := x)) b)) = length (v_block_privates (bs0 b)) \<and>
      (\<forall>i. flag v_in ((bs(q := x)) b) i = flag v_in (bs0 b) i \<and> flag v_out ((bs(q := x)) b) i = flag v_out (bs0 b) i \<and>
       flag v_define ((bs(q := x)) b) i = flag v_define (bs0 b) i \<and> (flag v_use (bs0 b) i \<longrightarrow> flag v_use ((bs(q := x)) b) i) \<and>
       ((b, junction) \<in> (succ bs0)\<^sup>* \<and> flag v_use ((bs(q := x)) b) i \<longrightarrow> live bs0 junction i b))"
      using inv[of b] inv[of q] res(2,3) len new by (cases "b = q") simp_all
  qed
qed

section \<open>The analysis of one function\<close>

lemma fresh_flag: "fresh b \<Longrightarrow> \<not> flag v_in b i"
  by (auto simp: fresh_def flag_def)

lemma linked_closed: "linked n V body bs \<Longrightarrow> x \<in> V \<Longrightarrow> set (v_nexts (bs x)) \<subseteq> V"
  by (auto simp: linked_def succ_def intro: rtrancl_into_rtrancl)

lemma solve_forward:
  assumes L: "linked n V body bs" and n: "int n \<le> max_privates"
  obtains x bs1 where "f_forward (replicate n t_private_new) (bs body) = Inr x"
    "flow_loop f_forward v_nexts body (bs(body := snd x), []) = Some (Inr bs1)" "forward_sound n body bs bs1"
    "\<And>b. b \<in> V \<Longrightarrow> length (v_block_privates (bs1 b)) = n"
    "\<And>b i. b \<in> V \<Longrightarrow> flag v_in (bs1 b) i \<longleftrightarrow> reaches bs body i b"
proof -
  define x where "x = (bs body)\<lparr>v_forward := True, v_block_privates := resize n (v_block_privates (bs body))\<rparr>"
  have fb: "fresh (bs body)" "length (v_block_privates (bs body)) \<le> n" using L by (auto simp: linked_def)
  have "map2 fwd (replicate n t_private_new) (resize n (v_block_privates (bs body))) = resize n (v_block_privates (bs body))"
    by (rule map2_same) (auto simp: fwd_def)
  then have x: "f_forward (replicate n t_private_new) (bs body) = Inr (True, x)"
    using fb(1) n by (auto simp: f_forward_def resize_checked_def forward_privates_map2 fresh_def x_def Let_def)
  let ?bs = "bs(body := x)"
  have flags: "flag f x i = flag f (bs body) i" if "\<not> f t_private_new" for f i
    using flag_resize[of f, OF that fb(2), of i] by (simp add: flag_def x_def)
  have sound: "forward_sound n body bs ?bs"
    unfolding forward_sound_def
  proof (rule allI)
    fix b
    have b: "fresh (bs b)" "length (v_block_privates (bs b)) \<le> n" using L by (auto simp: linked_def)
    show "v_nexts (?bs b) = v_nexts (bs b) \<and> v_previouses (?bs b) = v_previouses (bs b) \<and>
       v_backward (?bs b) = v_backward (bs b) \<and> length (v_block_privates (?bs b)) \<le> n \<and>
       (v_forward (?bs b) \<longrightarrow> (body, b) \<in> (succ bs)\<^sup>*) \<and>
       (\<forall>i. (flag v_in (?bs b) i \<longrightarrow> reaches bs body i b) \<and> (flag v_out (?bs b) i \<longleftrightarrow> flag v_out (bs b) i \<or> flag v_in (?bs b) i) \<and>
         flag v_define (?bs b) i = flag v_define (bs b) i \<and> flag v_use (?bs b) i = flag v_use (bs b) i)"
    proof (cases "b = body")
      case True
      then show ?thesis using b fresh_flag[OF b(1)] flags by (auto simp: x_def)
    next
      case False
      then show ?thesis using b fresh_flag[OF b(1)] by (auto simp: fresh_def)
    qed
  qed
  have "v_nexts (?bs u) = v_nexts (bs u)" for u by (simp add: x_def)
  then have same: "forward.edges ?bs = succ bs" by (simp only: forward.edges_def succ_def)
  have "finite V" "body \<in> V" "\<forall>y \<in> V. set (v_nexts (?bs y)) \<subseteq> V"
      "\<forall>y \<in> V. y \<noteq> body \<longrightarrow> forward_unseen n (?bs y)" "forward_full n (?bs body)"
    using L linked_closed[OF L] n by (auto simp: linked_def fresh_def forward_unseen_def forward_full_def x_def)
  from forward.loop_fixpoint[where n = n, OF this forward_sound_preserved sound, unfolded same]
  obtain bs1 where r: "flow_loop f_forward v_nexts body (?bs, []) = Some (Inr bs1)" "forward_sound n body bs bs1"
      "\<forall>x. (body, x) \<in> (succ bs)\<^sup>* \<longrightarrow> x \<in> V \<and> forward_full n (bs1 x)"
      "\<forall>x y. (body, x) \<in> (succ bs)\<^sup>* \<longrightarrow> (x, y) \<in> succ bs \<longrightarrow> forward.stable bs1 x y"
    by (elim exE conjE) blast
  have along: "flag v_in (bs1 y) i" if "(body, u) \<in> (succ bs)\<^sup>*" "(u, y) \<in> succ bs" "flag v_out (bs1 u) i" for u y i
  proof -
    have "forward_full n (bs1 u)" "forward_full n (bs1 y)" using r(3) that by (blast intro: rtrancl_into_rtrancl)+
    then show ?thesis
      using r(4)[rule_format, OF that(1,2)] forward_stable[of n "bs1 u" "bs1 y" False "bs1 y"] that(3)
      by (auto simp: forward.stable_def flag_def forward_full_def)
  qed
  have complete: "flag v_in (bs1 b) i" if "reaches bs body i b" for b i
  proof -
    from that[unfolded reaches_def] obtain c where
      cc: "(body, c) \<in> (succ bs)\<^sup>* \<and> flag v_out (bs c) i \<and> (c, b) \<in> (succ bs)\<^sup>+" ..
    then have c: "(body, c) \<in> (succ bs)\<^sup>*" "flag v_out (bs c) i" "(c, b) \<in> (succ bs)\<^sup>+" by simp_all
    have out: "flag v_out (bs1 u) i" if "flag v_out (bs u) i \<or> flag v_in (bs1 u) i" for u
      using that r(2) unfolding forward_sound_def by blast
    from c(3) show ?thesis
    proof induction
      case (base y)
      then show ?case using along[OF c(1) base] out c(2) by blast
    next
      case (step y z)
      have "(body, y) \<in> (succ bs)\<^sup>*" using c(1) step(1) by (meson rtrancl_trans trancl_into_rtrancl)
      then show ?case using along[OF _ step(2)] out step.IH by blast
    qed
  qed
  show thesis
  proof (rule that[of "(True, x)" bs1])
    show "length (v_block_privates (bs1 b)) = n" if "b \<in> V" for b
      using that L r(3)[rule_format, of b] by (auto simp: linked_def forward_full_def)
    show "flag v_in (bs1 b) i \<longleftrightarrow> reaches bs body i b" if "b \<in> V" for b i
      using complete r(2) unfolding forward_sound_def by blast
  qed (use x r in auto)
qed


lemma solve_backward:
  assumes mirror: "\<And>u v. v \<in> set (v_nexts (bs u)) \<longleftrightarrow> u \<in> set (v_previouses (bs v))"
    and fin: "finite {b. (b, junction) \<in> (succ bs)\<^sup>*}"
    and pre: "\<And>b. (b, junction) \<in> (succ bs)\<^sup>* \<Longrightarrow> length (v_block_privates (bs b)) = n \<and> \<not> v_backward (bs b)"
    and excl: "\<And>b i. (b, junction) \<in> (succ bs)\<^sup>* \<Longrightarrow> \<not> (flag v_define (bs b) i \<and> flag v_use (bs b) i)"
  obtains bs1 where "flow_loop f_backward v_previouses junction (bs, []) = Some (Inr bs1)" "backward_sound junction bs bs1"
    "\<And>b i. (b, junction) \<in> (succ bs)\<^sup>* \<Longrightarrow> flag v_use (bs1 b) i \<longleftrightarrow> live bs junction i b"
proof -
  define V where "V = {b. (b, junction) \<in> (succ bs)\<^sup>*}"
  have edges: "backward.edges bs = (succ bs)\<inverse>"
    using mirror by (auto simp: backward.edges_def succ_def)
  have reach: "(junction, b) \<in> ((succ bs)\<inverse>)\<^sup>* \<longleftrightarrow> b \<in> V" for b
    unfolding rtrancl_converse V_def by simp
  have V: "finite V" "junction \<in> V" "\<forall>y \<in> V. set (v_previouses (bs y)) \<subseteq> V"
    "\<forall>y \<in> V. y \<noteq> junction \<longrightarrow> backward_unseen n (bs y)" "backward_full n (bs junction)"
    using fin pre mirror
    by (auto simp: V_def backward_unseen_def backward_full_def succ_def intro: converse_rtrancl_into_rtrancl)
  have sound: "backward_sound junction bs bs" by (auto simp: backward_sound_def intro: live_here)
  from backward.loop_fixpoint[where n = n, OF V backward_sound_preserved[OF mirror V_def] sound]
  obtain bs1 where r: "flow_loop f_backward v_previouses junction (bs, []) = Some (Inr bs1)" "backward_sound junction bs bs1"
      "\<forall>x \<in> V. backward_full n (bs1 x)" "\<forall>x \<in> V. \<forall>y. (y, x) \<in> succ bs \<longrightarrow> backward.stable bs1 x y"
    unfolding edges reach converse_iff by (elim exE conjE) blast
  have "flag v_use (bs1 b) i" if "live bs junction i b" for b i
    using that
  proof induction
    case (live_here b)
    then show ?case using r(2) unfolding backward_sound_def by blast
  next
    case (live_next b c)
    have c: "c \<in> V" using live_next(2) by (induction) (auto simp: V_def intro: converse_rtrancl_into_rtrancl)
    then have b: "b \<in> V" using live_next(1) by (auto simp: V_def intro: converse_rtrancl_into_rtrancl)
    have "\<not> flag v_define (bs1 b) i" using live_next(3) r(2) unfolding backward_sound_def by blast
    then show ?case
      using r(4)[rule_format, OF c live_next(1)] backward_stable[OF r(3)[rule_format, OF c] r(3)[rule_format, OF b], of False "bs1 b"]
        live_next.IH r(3)[rule_format, OF b] r(3)[rule_format, OF c]
      by (auto simp: backward.stable_def flag_def backward_full_def)
  qed
  moreover have "live bs junction i b" if "b \<in> V" "flag v_use (bs1 b) i" for b i
    using that r(2) unfolding backward_sound_def V_def by blast
  ultimately show thesis using that[OF r(1,2)] unfolding V_def by blast
qed


lemma live_cong:
  assumes "succ bs = succ bs1" "\<And>b. flag v_use (bs b) i = flag v_use (bs1 b) i" "\<And>b. flag v_define (bs b) i = flag v_define (bs1 b) i"
  shows "live bs junction i b = live bs1 junction i b"
proof
  show "live bs junction i b \<Longrightarrow> live bs1 junction i b"
    by (induction rule: live.induct) (auto simp: assms intro: live_here live_next)
  show "live bs1 junction i b \<Longrightarrow> live bs junction i b"
    by (induction rule: live.induct) (auto simp: assms[symmetric] intro: live_here live_next)
qed

lemma solve_total:
  assumes L: "linked n V body bs" and n: "int n \<le> max_privates" and j: "junction \<in> V"
  shows "\<exists>bs1. f_solve n body junction bs = Some (Inr bs1) \<and> (\<forall>b. length (v_block_privates (bs1 b)) \<le> n) \<and>
    (\<forall>b \<in> V. length (v_block_privates (bs1 b)) = n \<and>
      (\<forall>i. (flag v_in (bs1 b) i \<longleftrightarrow> reaches bs body i b) \<and>
           (flag v_out (bs1 b) i \<longleftrightarrow> flag v_out (bs b) i \<or> reaches bs body i b) \<and>
           ((b, junction) \<in> (succ bs)\<^sup>* \<longrightarrow> (flag v_use (bs1 b) i \<longleftrightarrow> live bs junction i b))))"
proof -
  obtain x bs1 where f: "f_forward (replicate n t_private_new) (bs body) = Inr x"
      "flow_loop f_forward v_nexts body (bs(body := snd x), []) = Some (Inr bs1)" "forward_sound n body bs bs1"
      "\<And>b. b \<in> V \<Longrightarrow> length (v_block_privates (bs1 b)) = n"
      "\<And>b i. b \<in> V \<Longrightarrow> flag v_in (bs1 b) i \<longleftrightarrow> reaches bs body i b"
    using solve_forward[OF L n] by blast
  note inv = f(3)[unfolded forward_sound_def, rule_format]
  have succ: "succ bs1 = succ bs" using inv by (simp add: succ_def)
  have inV: "b \<in> V" if "(b, junction) \<in> (succ bs)\<^sup>*" for b
    using that
  proof (cases rule: converse_rtranclE)
    case (step y)
    then have "v_nexts (bs b) \<noteq> []" by (auto simp: succ_def)
    then show ?thesis using L unfolding linked_def by blast
  qed (use j in simp)
  have mirror: "v \<in> set (v_nexts (bs1 u)) \<longleftrightarrow> u \<in> set (v_previouses (bs1 v))" for u v
    using L inv[of u] inv[of v] unfolding linked_def by simp
  have fin: "finite {b. (b, junction) \<in> (succ bs1)\<^sup>*}"
    using L by (rule_tac finite_subset[of _ V]) (auto simp: succ linked_def inV)
  have pre: "length (v_block_privates (bs1 b)) = n \<and> \<not> v_backward (bs1 b)" if "(b, junction) \<in> (succ bs1)\<^sup>*" for b
    using that f(4)[OF inV] inv[of b] L by (auto simp: succ linked_def fresh_def)
  have excl: "\<not> (flag v_define (bs1 b) i \<and> flag v_use (bs1 b) i)" for b i
  proof -
    have "fresh (bs b)" using L by (simp add: linked_def)
    then have "\<not> (flag v_define (bs b) i \<and> flag v_use (bs b) i)" by (auto simp: fresh_def flag_def)
    then show ?thesis using inv[of b] by blast
  qed
  obtain bs2 where b: "flow_loop f_backward v_previouses junction (bs1, []) = Some (Inr bs2)" "backward_sound junction bs1 bs2"
      "\<And>b i. (b, junction) \<in> (succ bs1)\<^sup>* \<Longrightarrow> flag v_use (bs2 b) i \<longleftrightarrow> live bs1 junction i b"
    using solve_backward[OF mirror fin pre excl] by blast
  note inv2 = b(2)[unfolded backward_sound_def, rule_format]
  have live: "live bs1 junction i b = live bs junction i b" for i b
    using inv by (intro live_cong[OF succ]) auto
  have "f_solve n body junction bs = Some (Inr bs2)"
    using f(1,2) b(1) by (cases x) (simp add: f_solve_def then_result_def)
  moreover have "length (v_block_privates (bs2 b)) \<le> n" for b using inv[of b] inv2[of b] by simp
  moreover have "length (v_block_privates (bs2 b)) = n" if "b \<in> V" for b using f(4)[OF that] inv2[of b] by simp
  moreover have "flag v_in (bs2 b) i \<longleftrightarrow> reaches bs body i b" if "b \<in> V" for b i using f(5)[OF that] inv2[of b] by simp
  moreover have "flag v_out (bs2 b) i \<longleftrightarrow> flag v_out (bs b) i \<or> reaches bs body i b" if "b \<in> V" for b i
    using f(5)[OF that] inv[of b] inv2[of b] by blast
  moreover have "flag v_use (bs2 b) i \<longleftrightarrow> live bs junction i b" if "(b, junction) \<in> (succ bs)\<^sup>*" for b i
    using b(3)[of b i] that succ live by simp
  ultimately show ?thesis by (intro exI[of _ bs2]) simp
qed

section \<open>The walk over a body\<close>

text \<open>The blocks that the walk has linked so far.\<close>

definition linked_blocks :: "block_id \<Rightarrow> t_blocks \<Rightarrow> block_id set" where
  "linked_blocks body bs = (succ bs)\<^sup>* `` {body}"

lemma f_next_fields [simp]:
  "v_nexts (f_next p q bs u) = (if u = p then v_nexts (bs u) @ [q] else v_nexts (bs u))"
  "v_previouses (f_next p q bs u) = (if u = q then v_previouses (bs u) @ [p] else v_previouses (bs u))"
  "v_block_privates (f_next p q bs u) = v_block_privates (bs u)"
  "v_forward (f_next p q bs u) = v_forward (bs u)" "v_backward (f_next p q bs u) = v_backward (bs u)"
  by (simp_all add: f_next_def Let_def)

lemma succ_iff: "(u, v) \<in> succ bs \<longleftrightarrow> v \<in> set (v_nexts (bs u))"
  by (simp add: succ_def)

lemma succ_next: "succ (f_next p q bs) = insert (p, q) (succ bs)"
proof -
  have "(u, v) \<in> succ (f_next p q bs) \<longleftrightarrow> (u, v) \<in> insert (p, q) (succ bs)" for u v
    by (simp add: succ_iff)
  then show ?thesis by (metis (no_types) subrelI subset_antisym)
qed

lemma linked_next:
  assumes L: "linked n V body bs" and p: "p \<in> V"
  shows "linked n (insert q V) body (f_next p q bs)"
proof -
  let ?bs = "f_next p q bs"
  have V: "V = (succ bs)\<^sup>* `` {body}" and nx: "\<And>b. v_nexts (bs b) \<noteq> [] \<Longrightarrow> b \<in> V" and fin: "finite V"
    using L unfolding linked_def by blast+
  have "(succ ?bs)\<^sup>* `` {body} = insert q V"
  proof
    have "y \<in> insert q V" if "(body, y) \<in> (succ ?bs)\<^sup>*" for y
      using that
    proof induction
      case base
      then show ?case using V by simp
    next
      case (step y z)
      have "z \<in> insert q V" if "(y, z) \<in> succ bs"
      proof -
        have "v_nexts (bs y) \<noteq> []" using that by (auto simp: succ_iff)
        then have "y \<in> V" by (rule nx)
        then show ?thesis using that V by (auto intro: rtrancl_into_rtrancl)
      qed
      then show ?case using step(2) by (auto simp: succ_next)
    qed
    then show "(succ ?bs)\<^sup>* `` {body} \<subseteq> insert q V" by auto
    have mono: "(succ bs)\<^sup>* \<subseteq> (succ ?bs)\<^sup>*" by (rule rtrancl_mono) (auto simp: succ_next)
    then have "V \<subseteq> (succ ?bs)\<^sup>* `` {body}" using V by blast
    moreover from this have "q \<in> (succ ?bs)\<^sup>* `` {body}" using p by (auto simp: succ_next intro: rtrancl_into_rtrancl)
    ultimately show "insert q V \<subseteq> (succ ?bs)\<^sup>* `` {body}" by blast
  qed
  moreover have "\<forall>u v. v \<in> set (v_nexts (?bs u)) \<longleftrightarrow> u \<in> set (v_previouses (?bs v))"
    using L unfolding linked_def by simp
  moreover have "\<forall>b. v_nexts (?bs b) \<noteq> [] \<longrightarrow> b \<in> insert q V"
    using p nx by (simp split: if_splits)
  moreover have "\<forall>b. fresh (?bs b) \<and> length (v_block_privates (?bs b)) \<le> n"
    using L unfolding linked_def fresh_def by simp
  ultimately show ?thesis using fin by (simp add: linked_def)
qed

lemma size_of_nat: "k < 2 ^ 64 \<Longrightarrow> unat (of_nat k :: i64) = k \<and> uint (of_nat k :: i64) = int k"
  by (simp add: unsigned_of_nat take_bit_nat_eq_self take_bit_int_eq_self)

lemma linked_use:
  assumes L: "linked n V body bs" and i: "i < n" "int n \<le> max_privates"
  obtains b where "f_use (of_nat i) a_put (bs p) = Inr b" "linked n V body (bs(p := b))"
proof -
  have w: "unat (of_nat i :: i64) = i" "uint (of_nat i :: i64) = int i" "uint (of_nat i + 1 :: i64) = int (Suc i)"
    using i size_of_nat[of i] size_of_nat[of "Suc i"] by (simp_all add: max_privates_def add.commute)
  let ?xs = "v_block_privates (bs p)"
  let ?ys = "if length ?xs < Suc i then resize (Suc i) ?xs else ?xs"
  have fr: "fresh (bs p)" "length ?xs \<le> n" using L unfolding linked_def by blast+
  define b where "b = (bs p)\<lparr>v_block_privates := ?ys[i := use_private a_put (?ys ! i)]\<rparr>"
  have ev: "f_use (of_nat i) a_put (bs p) = Inr b"
    using i by (auto simp: f_use_def w resize_checked_def b_def nat_add_distrib)
  have "\<forall>x \<in> set ?ys. \<not> v_in x \<and> v_out x = (v_define x \<or> v_use x) \<and> \<not> (v_define x \<and> v_use x)"
    using fr(1) by (auto simp: fresh_def resize_def dest: in_set_takeD)
  then have "fresh b" using fr(1)
    by (auto simp: fresh_def b_def use_private_def dest!: set_update_subset_insert[THEN subsetD])
  moreover have "length (v_block_privates b) \<le> n" using fr(2) i by (simp add: b_def)
  moreover have nx: "v_nexts b = v_nexts (bs p)" "v_previouses b = v_previouses (bs p)" by (simp_all add: b_def)
  then have same: "v_nexts ((bs(p := b)) u) = v_nexts (bs u)" "v_previouses ((bs(p := b)) u) = v_previouses (bs u)" for u by simp_all
  then have sc: "succ (bs(p := b)) = succ bs" by (simp only: succ_def)
  ultimately have "fresh ((bs(p := b)) u) \<and> length (v_block_privates ((bs(p := b)) u)) \<le> n" for u
    using L unfolding linked_def by simp
  then have "linked n V body (bs(p := b))"
    using L unfolding linked_def sc same by blast
  then show thesis using that ev by blast
qed


subsection \<open>Triples\<close>

text \<open>
  \<open>walking\<close> is what the walk keeps: the blocks linked so far form a graph, the current block is one of them,
  there are targets where the tree may jump, and \<open>Q\<close> holds of the tables of the functions analyzed before.  \<open>triple D f D1\<close>: started with the blocks \<open>D\<close> linked, \<open>f\<close>
  returns, with the blocks \<open>D1\<close> linked too.
\<close>

definition walking :: "((t_path \<Rightarrow> t_blocks) \<Rightarrow> bool) \<Rightarrow> nat \<Rightarrow> block_id \<Rightarrow> nat \<Rightarrow> bool \<Rightarrow> bool \<Rightarrow> t_flow \<Rightarrow> bool" where
  "walking Q n body k j r s \<longleftrightarrow> Q (v_analyzed s) \<and> linked n (linked_blocks body (v_blocks s)) body (v_blocks s) \<and>
     v_current s \<in> linked_blocks body (v_blocks s) \<and> v_flow_arguments s = k \<and>
     (j \<longrightarrow> v_flow_break (v_flow_targets s) \<noteq> None \<and> v_flow_continue (v_flow_targets s) \<noteq> None) \<and>
     (r \<longrightarrow> v_flow_return (v_flow_targets s) \<noteq> None)"

definition triple :: "((t_path \<Rightarrow> t_blocks) \<Rightarrow> bool) \<Rightarrow> nat \<Rightarrow> block_id \<Rightarrow> nat \<Rightarrow> bool \<Rightarrow> bool \<Rightarrow> block_id set \<Rightarrow> flow \<Rightarrow> block_id set \<Rightarrow> bool" where
  "triple Q n body k j r D f D1 \<longleftrightarrow> (\<forall>s. walking Q n body k j r s \<longrightarrow> D \<subseteq> linked_blocks body (v_blocks s) \<longrightarrow>
     (\<exists>s1. f s = Some (Inr s1) \<and> walking Q n body k j r s1 \<and> v_flow_targets s1 = v_flow_targets s \<and>
       linked_blocks body (v_blocks s) \<union> D1 \<subseteq> linked_blocks body (v_blocks s1)))"

lemma tripleD:
  assumes "triple Q n body k j r D f D1" "walking Q n body k j r s" "D \<subseteq> linked_blocks body (v_blocks s)"
  obtains s1 where "f s = Some (Inr s1)" "walking Q n body k j r s1" "v_flow_targets s1 = v_flow_targets s"
    "linked_blocks body (v_blocks s) \<subseteq> linked_blocks body (v_blocks s1)" "D1 \<subseteq> linked_blocks body (v_blocks s1)"
  using assms unfolding triple_def by blast

lemma triple_mono: "triple Q n body k j r D f D1 \<Longrightarrow> D \<subseteq> E \<Longrightarrow> E1 \<subseteq> D1 \<Longrightarrow> triple Q n body k j r E f E1"
  unfolding triple_def by blast

lemma triple_skip: "triple Q n body k j r D flow_skip {}"
  by (simp add: triple_def flow_skip_def)

lemma triple_then:
  assumes "triple Q n body k j r D f D1" "triple Q n body k j r (D \<union> D1) g D2"
  shows "triple Q n body k j r D (flow_then f g) (D1 \<union> D2)"
  unfolding triple_def
proof (intro allI impI)
  fix s
  assume s: "walking Q n body k j r s" "D \<subseteq> linked_blocks body (v_blocks s)"
  obtain s1 where 1: "f s = Some (Inr s1)" "walking Q n body k j r s1" "v_flow_targets s1 = v_flow_targets s"
      "linked_blocks body (v_blocks s) \<subseteq> linked_blocks body (v_blocks s1)" "D1 \<subseteq> linked_blocks body (v_blocks s1)"
    using tripleD[OF assms(1) s] .
  have "D \<union> D1 \<subseteq> linked_blocks body (v_blocks s1)" using s(2) 1(4,5) by blast
  then obtain s2 where 2: "g s1 = Some (Inr s2)" "walking Q n body k j r s2" "v_flow_targets s2 = v_flow_targets s1"
      "linked_blocks body (v_blocks s1) \<subseteq> linked_blocks body (v_blocks s2)" "D2 \<subseteq> linked_blocks body (v_blocks s2)"
    using tripleD[OF assms(2) 1(2)] by blast
  show "\<exists>s1. flow_then f g s = Some (Inr s1) \<and> walking Q n body k j r s1 \<and> v_flow_targets s1 = v_flow_targets s \<and>
       linked_blocks body (v_blocks s) \<union> (D1 \<union> D2) \<subseteq> linked_blocks body (v_blocks s1)"
    using 1 2 by (intro exI[of _ s2]) (auto simp: flow_then_def then_result_def)
qed

lemma linked_blocks_next:
  assumes "linked n (linked_blocks body bs) body bs" "p \<in> linked_blocks body bs"
  shows "linked_blocks body (f_next p q bs) = insert q (linked_blocks body bs)"
    and "linked n (linked_blocks body (f_next p q bs)) body (f_next p q bs)"
proof -
  show eq: "linked_blocks body (f_next p q bs) = insert q (linked_blocks body bs)"
    using linked_next[OF assms, of q] unfolding linked_def linked_blocks_def by simp
  show "linked n (linked_blocks body (f_next p q bs)) body (f_next p q bs)"
    using linked_next[OF assms, of q] unfolding eq .
qed

lemma walking_next:
  assumes "walking Q n body k j r s" "p \<in> linked_blocks body (v_blocks s)"
  shows "walking Q n body k j r (s\<lparr>v_blocks := f_next p q (v_blocks s)\<rparr>)"
    and "linked_blocks body (f_next p q (v_blocks s)) = insert q (linked_blocks body (v_blocks s))"
proof -
  have L: "linked n (linked_blocks body (v_blocks s)) body (v_blocks s)" using assms(1) by (simp add: walking_def)
  show "linked_blocks body (f_next p q (v_blocks s)) = insert q (linked_blocks body (v_blocks s))"
    by (rule linked_blocks_next(1)[OF L assms(2)])
  then show "walking Q n body k j r (s\<lparr>v_blocks := f_next p q (v_blocks s)\<rparr>)"
    using assms(1) linked_blocks_next(2)[OF L assms(2), of q] by (simp add: walking_def)
qed

lemma walking_current: "walking Q n body k j r s \<Longrightarrow> v_current s \<in> linked_blocks body (v_blocks s)"
  by (simp add: walking_def)

lemma triple_edge: "p \<in> D \<Longrightarrow> triple Q n body k j r D (flow_edge p q) {q}"
  by (simp add: triple_def flow_edge_def walking_next subset_iff)

lemma triple_next: "triple Q n body k j r D (flow_next q) {q}"
  by (auto simp: triple_def flow_next_def walking_next walking_current)

lemma triple_at: "q \<in> D \<Longrightarrow> triple Q n body k j r D (flow_at q) {}"
  by (auto simp: triple_def flow_at_def walking_def)

lemma triple_jump:
  assumes "\<And>s. walking Q n body k j r s \<Longrightarrow> f (v_flow_targets s) \<noteq> None"
  shows "triple Q n body k j r D (flow_jump f) {}"
  unfolding triple_def
proof (intro allI impI)
  fix s
  assume s: "walking Q n body k j r s" "D \<subseteq> linked_blocks body (v_blocks s)"
  then obtain q where "f (v_flow_targets s) = Some q" using assms by blast
  then show "\<exists>s1. flow_jump f s = Some (Inr s1) \<and> walking Q n body k j r s1 \<and> v_flow_targets s1 = v_flow_targets s \<and>
       linked_blocks body (v_blocks s) \<union> {} \<subseteq> linked_blocks body (v_blocks s1)"
    using s by (auto simp: flow_jump_def flow_next_def walking_next walking_current)
qed

lemma triple_jumps:
  "j \<Longrightarrow> triple Q n body k j r D (flow_jump v_flow_break) {}" "j \<Longrightarrow> triple Q n body k j r D (flow_jump v_flow_continue) {}"
  "r \<Longrightarrow> triple Q n body k j r D (flow_jump v_flow_return) {}"
  by (auto intro!: triple_jump simp: walking_def)

lemma triple_optional_jump: "triple Q n body k j r D (flow_optional_jump f) {}"
  by (auto simp: triple_def flow_optional_jump_def flow_next_def flow_skip_def walking_next walking_current split: option.split)

lemma triple_with:
  assumes "triple Q n body k j1 r1 D f D1"
    and "\<And>t. (j \<longrightarrow> v_flow_break t \<noteq> None \<and> v_flow_continue t \<noteq> None) \<Longrightarrow> (r \<longrightarrow> v_flow_return t \<noteq> None) \<Longrightarrow>
      (j1 \<longrightarrow> v_flow_break (g t) \<noteq> None \<and> v_flow_continue (g t) \<noteq> None) \<and> (r1 \<longrightarrow> v_flow_return (g t) \<noteq> None)"
  shows "triple Q n body k j r D (flow_with g f) D1"
  unfolding triple_def
proof (intro allI impI)
  fix s
  assume s: "walking Q n body k j r s" "D \<subseteq> linked_blocks body (v_blocks s)"
  let ?s = "s\<lparr>v_flow_targets := g (v_flow_targets s)\<rparr>"
  have "walking Q n body k j1 r1 ?s" using s(1) assms(2)[of "v_flow_targets s"] by (auto simp: walking_def)
  moreover have "D \<subseteq> linked_blocks body (v_blocks ?s)" using s(2) by simp
  ultimately obtain s1 where "f ?s = Some (Inr s1)" "walking Q n body k j1 r1 s1" "v_flow_targets s1 = v_flow_targets ?s"
      "linked_blocks body (v_blocks ?s) \<subseteq> linked_blocks body (v_blocks s1)" "D1 \<subseteq> linked_blocks body (v_blocks s1)"
    by (rule tripleD[OF assms(1)])
  then show "\<exists>s1. flow_with g f s = Some (Inr s1) \<and> walking Q n body k j r s1 \<and> v_flow_targets s1 = v_flow_targets s \<and>
       linked_blocks body (v_blocks s) \<union> D1 \<subseteq> linked_blocks body (v_blocks s1)"
    using s(1) by (auto simp: flow_with_def then_result_def walking_def)
qed

lemma triple_current:
  assumes "\<And>q. triple Q n body k j r (insert q D) (f q) D1"
  shows "triple Q n body k j r D (flow_current f) D1"
  using assms unfolding triple_def flow_current_def by (auto simp: walking_current)

lemma triple_use:
  assumes "i < n" "int n \<le> max_privates"
  shows "triple Q n body k j r D (flow_use (of_nat i) a_put) {}"
  unfolding triple_def
proof (intro allI impI)
  fix s
  assume s: "walking Q n body k j r s" "D \<subseteq> linked_blocks body (v_blocks s)"
  obtain b where b: "f_use (of_nat i) a_put (v_blocks s (v_current s)) = Inr b"
      "linked n (linked_blocks body (v_blocks s)) body ((v_blocks s)(v_current s := b))"
    using linked_use[OF _ assms, of "linked_blocks body (v_blocks s)" body "v_blocks s" a_put "v_current s"] s(1)
    by (auto simp: walking_def)
  then have "linked_blocks body ((v_blocks s)(v_current s := b)) = linked_blocks body (v_blocks s)"
    by (simp add: linked_def linked_blocks_def)
  then show "\<exists>s1. flow_use (of_nat i) a_put s = Some (Inr s1) \<and> walking Q n body k j r s1 \<and> v_flow_targets s1 = v_flow_targets s \<and>
       linked_blocks body (v_blocks s) \<union> {} \<subseteq> linked_blocks body (v_blocks s1)"
    using s(1) b by (simp add: flow_use_def then_result_def walking_def)
qed


lemma triple_sub: "triple Q n body k j r {} f {} \<Longrightarrow> triple Q n body k j r D f {}"
  by (rule triple_mono) auto

lemma triple_weak: "triple Q n body k j r D f D1 \<Longrightarrow> triple Q n body k j r D f {}"
  by (rule triple_mono) auto

lemmas triple_steps = triple_then triple_next triple_edge triple_at triple_optional_jump triple_skip

lemma triple_seq: "triple Q n body k j r {} f {} \<Longrightarrow> triple Q n body k j r {} g {} \<Longrightarrow> triple Q n body k j r {} (flow_then f g) {}"
  using triple_then[of Q n body k j r "{}" f "{}" g "{}"] by simp

lemma triple_targets:
  "triple Q n body k True r D f D1 \<Longrightarrow>
   triple Q n body k j r D (flow_with (\<lambda>t. t\<lparr>v_flow_break := Some a, v_flow_continue := Some c\<rparr>) f) D1"
  "triple Q n body k True True D f D1 \<Longrightarrow>
   triple Q n body k j r D (flow_with (\<lambda>t. \<lparr>v_flow_break = Some a, v_flow_continue = Some c, v_flow_return = Some d\<rparr>) f) D1"
  "triple Q n body k False False D f D1 \<Longrightarrow>
   triple Q n body k j r D (flow_with (\<lambda>t. \<lparr>v_flow_break = None, v_flow_continue = None, v_flow_return = None\<rparr>) f) D1"
  by (erule triple_with; simp)+

lemma triple_if:
  assumes "triple Q n body k j r {} c {}" "triple Q n body k j r {} x {}" "triple Q n body k j r {} y {}"
  shows "triple Q n body k j r {} (flow_if p c x y) {}"
  unfolding flow_if_def by (rule triple_weak, (rule triple_steps assms[THEN triple_sub] | simp)+)

lemma triple_while:
  assumes "triple Q n body k j r {} c {}" "triple Q n body k True r {} b {}"
  shows "triple Q n body k j r {} (flow_while p c b) {}"
  unfolding flow_while_def by (rule triple_weak, (rule triple_steps triple_targets assms[THEN triple_sub] | simp)+)

lemma triple_for:
  assumes "triple Q n body k j r {} i {}" "triple Q n body k j r {} c {}" "triple Q n body k j r {} nx {}" "triple Q n body k True r {} b {}"
  shows "triple Q n body k j r {} (flow_for p i c nx b) {}"
  unfolding flow_for_def by (rule triple_weak, (rule triple_steps triple_targets assms[THEN triple_sub] | simp)+)

lemma triple_catch:
  assumes "triple Q n body k j r {} e {}" "triple Q n body k j r {} (flow_catch_variable v) {}" "triple Q n body k j r {} b {}"
  shows "triple Q n body k j r {} (flow_catch p i e v b) {}"
  unfolding flow_catch_def
  by (rule triple_weak, (rule triple_steps triple_current assms[THEN triple_sub] | simp)+)

lemma triple_try:
  assumes "triple Q n body k True True {} b {}" "triple Q n body k True True {} cs {}" "triple Q n body k False False {} f {}"
  shows "triple Q n body k j r {} (flow_try p b cs f) {}"
  unfolding flow_try_def by (rule triple_weak, (rule triple_steps triple_targets assms[THEN triple_sub] | simp)+)

section \<open>The analysis returns\<close>

lemma index_difference_le: "k \<le> i \<Longrightarrow> index_difference i k = of_nat (i - k)"
  by (simp add: index_difference_def of_nat_diff)

lemma index_difference_int: "index_difference i k = word_of_int (int i - int k)"
  by (simp add: index_difference_def)

lemma private_index_eq:
  assumes "i < 2 ^ 31" "k < 2 ^ 31"
  shows "private_index i k = int i - int k"
proof -
  have "private_index i k = sint (word_of_int (take_bit 64 (int i - int k)) :: 32 word)"
    by (simp only: private_index_def index_difference_int unsigned_of_int) (simp add: of_nat_nat)
  also have "\<dots> = signed_take_bit 31 (take_bit 64 (int i - int k))" by (simp add: signed_of_int)
  also have "\<dots> = signed_take_bit 31 (int i - int k)" by (simp add: signed_take_bit_take_bit)
  also have "\<dots> = int i - int k" using assms by (intro signed_take_bit_int_eq_self) auto
  finally show ?thesis .
qed

lemma small_privates: "z < 2 ^ 31 \<Longrightarrow> int (z - k) \<le> max_privates"
  by (simp add: max_privates_def)

lemma triple_constant:
  assumes "\<And>s. v_flow_arguments s = k \<Longrightarrow> f s = g s" "triple Q n body k j r D g D1"
  shows "triple Q n body k j r D f D1"
  using assms(2) unfolding triple_def using assms(1) by (simp add: walking_def)

lemma triple_variable:
  assumes "case v of None \<Rightarrow> True | Some v1 \<Rightarrow> variable_ok z v1" "k \<le> z" "z < 2 ^ 31"
  shows "triple Q (z - k) body k j r {} (flow_variable v a_put) {}"
proof (cases "\<exists>v1 i. v = Some v1 \<and> \<not> v_shared v1 \<and> v_index v1 = Some i \<and> k \<le> i")
  case True
  then obtain v1 i where v: "v = Some v1" "\<not> v_shared v1" "v_index v1 = Some i" "k \<le> i" by blast
  then have "i < z" using assms(1) by (simp add: variable_ok_def)
  then have "private_index i k = int (i - k)" using private_index_eq[of i k] assms v(4) by auto
  then have "flow_variable v a_put s = flow_use (of_nat (i - k)) a_put s" if "v_flow_arguments s = k" for s
    using v that by (simp add: flow_variable_def)
  then show ?thesis
    by (rule triple_constant) (simp, rule triple_use, use \<open>i < z\<close> v(4) in arith, rule small_privates[OF assms(3)])
next
  case False
  have "flow_variable v a_put s = flow_skip s" if "v_flow_arguments s = k" for s
  proof (cases v)
    case (Some v1)
    then obtain i where i: "v_index v1 = Some i" "v_shared v1 \<or> i < z" using assms(1) by (auto simp: variable_ok_def split: option.splits)
    then have "v_shared v1 \<or> private_index i k < 0" using False Some private_index_eq[of i k] assms by auto
    then show ?thesis using Some i(1) that by (auto simp: flow_variable_def)
  qed (simp add: flow_variable_def)
  then show ?thesis by (rule triple_constant) (simp, rule triple_skip)
qed

lemma triple_catch_variable:
  assumes "catch_ok z k v" "z < 2 ^ 31"
  shows "triple Q (z - k) body k j r {} (flow_catch_variable v) {}"
proof -
  obtain v1 i where v: "v = Some v1" "v_index v1 = Some i" "v_shared v1 \<or> k \<le> i \<and> i < z"
    using assms(1) by (auto simp: catch_ok_def split: option.splits)
  show ?thesis
  proof (cases "v_shared v1")
    case True
    then show ?thesis
      using v triple_constant[of k "flow_catch_variable v" flow_skip] triple_skip by (simp add: flow_catch_variable_def)
  next
    case False
    then have "flow_catch_variable v s = flow_use (of_nat (i - k)) True s" if "v_flow_arguments s = k" for s
      using v that by (simp add: flow_catch_variable_def index_difference_le)
    then show ?thesis
      by (rule triple_constant) (simp, rule triple_use, use False v(3) in arith, rule small_privates[OF assms(2)])
  qed
qed

lemma triple_strengthen:
  assumes "triple Q n body k j r D f D1" "j \<Longrightarrow> j1" "r \<Longrightarrow> r1"
  shows "triple Q n body k j1 r1 D f D1"
  unfolding triple_def
proof (intro allI impI)
  fix s
  assume s: "walking Q n body k j1 r1 s" "D \<subseteq> linked_blocks body (v_blocks s)"
  then have "walking Q n body k j r s" using assms(2,3) by (auto simp: walking_def)
  then obtain s1 where "f s = Some (Inr s1)" "walking Q n body k j r s1" "v_flow_targets s1 = v_flow_targets s"
      "linked_blocks body (v_blocks s) \<subseteq> linked_blocks body (v_blocks s1)" "D1 \<subseteq> linked_blocks body (v_blocks s1)"
    using tripleD[OF assms(1) _ s(2)] by blast
  then show "\<exists>s1. f s = Some (Inr s1) \<and> walking Q n body k j1 r1 s1 \<and> v_flow_targets s1 = v_flow_targets s \<and>
       linked_blocks body (v_blocks s) \<union> D1 \<subseteq> linked_blocks body (v_blocks s1)"
    using s(1) by (auto simp: walking_def)
qed

text \<open>The solver is run on the graph that the walk leaves, once the last block is linked to the junction.\<close>

lemma linked_start:
  "linked n (linked_blocks body (\<lambda>_. t_block_new)) body (\<lambda>_. t_block_new)" "linked_blocks body (\<lambda>_. t_block_new) = {body}"
proof -
  have "succ (\<lambda>_. t_block_new) = {}" by (simp add: succ_def t_block_new_def)
  then show "linked n (linked_blocks body (\<lambda>_. t_block_new)) body (\<lambda>_. t_block_new)" "linked_blocks body (\<lambda>_. t_block_new) = {body}"
    by (simp_all add: linked_def linked_blocks_def fresh_def t_block_new_def)
qed

lemma analyze_run:
  assumes w: "Q (v_analyzed s)" and t: "triple Q (z - k) (p, B_block_body) k False True {} body {}" and z: "k \<le> z" "z < 2 ^ 31"
    and Q: "\<And>T bs. Q T \<Longrightarrow> (\<forall>b. length (v_block_privates (bs b)) \<le> z - k) \<Longrightarrow> Q (T(p := bs))"
  shows "\<exists>T. f_analyze z k p body s = Some (Inr (s\<lparr>v_analyzed := T\<rparr>)) \<and> Q T"
proof -
  let ?s = "s\<lparr>v_flow_arguments := k, v_flow_targets := \<lparr>v_flow_break = None, v_flow_continue = None, v_flow_return = Some (p, B_junction)\<rparr>,
      v_current := (p, B_block_body), v_blocks := \<lambda>_. t_block_new\<rparr>"
  have "walking Q (z - k) (p, B_block_body) k False True ?s" using linked_start w by (simp add: walking_def)
  then obtain s1 where s1: "body ?s = Some (Inr s1)" "walking Q (z - k) (p, B_block_body) k False True s1"
    by (rule tripleD[OF t]) auto
  define bs0 where "bs0 = f_next (v_current s1) (p, B_junction) (v_blocks s1)"
  have L: "linked (z - k) (linked_blocks (p, B_block_body) bs0) (p, B_block_body) bs0"
    using walking_next(1)[OF s1(2) walking_current[OF s1(2)]] by (simp add: walking_def bs0_def)
  have "(p, B_junction) \<in> linked_blocks (p, B_block_body) bs0"
    using walking_next(2)[OF s1(2) walking_current[OF s1(2)]] by (simp add: bs0_def)
  from solve_total[OF L small_privates[OF z(2)] this] obtain bs
    where "f_solve (z - k) (p, B_block_body) (p, B_junction) bs0 = Some (Inr bs)" "\<And>b. length (v_block_privates (bs b)) \<le> z - k"
    by blast
  moreover have "Q (v_analyzed s1)" using s1(2) by (simp add: walking_def)
  ultimately have "f_analyze z k p body s = Some (Inr (s\<lparr>v_analyzed := (v_analyzed s1)(p := bs)\<rparr>))" "Q ((v_analyzed s1)(p := bs))"
    using s1(1) z(1) Q by (simp_all add: f_analyze_def then_result_def bs0_def)
  then show ?thesis by blast
qed

lemma analyze_total:
  assumes "triple Q (z - k) (p, B_block_body) k False True {} body {}" "k \<le> z" "z < 2 ^ 31"
    and "\<And>T bs. Q T \<Longrightarrow> (\<forall>b. length (v_block_privates (bs b)) \<le> z - k) \<Longrightarrow> Q (T(p := bs))"
  shows "triple Q n b0 k0 j r {} (f_analyze z k p body) {}"
  unfolding triple_def
proof (intro allI impI)
  fix s
  assume s: "walking Q n b0 k0 j r s"
  then have "Q (v_analyzed s)" by (simp add: walking_def)
  from analyze_run[of Q, OF this assms] obtain T where "f_analyze z k p body s = Some (Inr (s\<lparr>v_analyzed := T\<rparr>))" "Q T" by blast
  then show "\<exists>s1. f_analyze z k p body s = Some (Inr s1) \<and> walking Q n b0 k0 j r s1 \<and> v_flow_targets s1 = v_flow_targets s \<and>
       linked_blocks b0 (v_blocks s) \<union> {} \<subseteq> linked_blocks b0 (v_blocks s1)"
    using s by (simp add: walking_def)
qed

text \<open>The node at a path of a tree whose script is at \<open>[0]\<close>.\<close>

fun child :: "t_node \<Rightarrow> nat \<Rightarrow> t_node option" where
  "child (N_nodes ns) c = (if c < length ns then Some (ns ! c) else None)"
| "child (N_lambda p i va k ds b) c = (if c = 0 then Some b else if c \<le> length ds then Some (ds ! (c - 1)) else None)"
| "child (N_if e x y) c = (if c = 0 then e else if c = 1 then Some x else Some y)"
| "child (N_while e b) c = (if c = 0 then e else Some b)"
| "child (N_for i e n b) c = (if c = 0 then i else if c = 1 then e else if c = 2 then n else Some b)"
| "child (N_break e) c = Some e"
| "child (N_return e) c = Some e"
| "child (N_try b cs f) c =
     (if c = 0 then Some b else if c = 1 then f
      else if (c - 2) div 2 < length cs then Some (if even c then fst (cs ! ((c - 2) div 2)) else snd (snd (cs ! ((c - 2) div 2)))) else None)"
| "child (N_throw p e) c = Some e"
| "child (N_object_get p t x) c = Some t"
| "child (N_object_get_indirect p t x) c = Some (if c = 0 then t else x)"
| "child (N_object_put p t x v) c = Some (if c = 0 then t else v)"
| "child (N_object_put_indirect p t x v) c = Some (if c = 0 then t else if c = 1 then x else v)"
| "child (N_object_has p t x) c = Some t"
| "child (N_object_has_indirect p t x) c = Some (if c = 0 then t else x)"
| "child (N_scope_put p u v e) c = Some e"
| "child (N_class p t) c = Some t"
| "child (N_super p t) c = Some t"
| "child (N_unary p op e) c = Some e"
| "child (N_binary p op x y) c = Some (if c = 0 then x else y)"
| "child (N_call p t as es) c = (if c = 0 then Some t else if c \<le> length as then Some (as ! (c - 1)) else None)"
| "child (N_get_at p t i) c = Some (if c = 0 then t else i)"
| "child (N_set_at p t i v) c = Some (if c = 0 then t else if c = 1 then i else v)"
| "child _ c = None"

fun node_at :: "t_node \<Rightarrow> t_path \<Rightarrow> t_node option" where
  "node_at script [] = None"
| "node_at script [c] = (if c = 0 then Some script else None)"
| "node_at script (c # d # p) = (case node_at script (d # p) of None \<Rightarrow> None | Some n \<Rightarrow> child n c)"

lemma node_at_child: "node_at script p = Some n \<Longrightarrow> node_at script (c # p) = child n c"
  by (cases p) auto

text \<open>\<open>tables_ok\<close>: no table of a function has more privates than the function.\<close>

definition tables_ok :: "t_scope list \<Rightarrow> t_node \<Rightarrow> (t_path \<Rightarrow> t_blocks) \<Rightarrow> bool" where
  "tables_ok ss script T \<longleftrightarrow> (\<forall>b. length (v_block_privates (T [] b)) \<le> v_privates_size (ss ! 0)) \<and>
     (\<forall>q a i va k ds d. node_at script q = Some (N_lambda a i va k ds d) \<longrightarrow>
        (\<forall>b. length (v_block_privates (T q b)) \<le> v_privates_size (ss ! i) - k))"

lemma tables_ok_update:
  "node_at script q = Some (N_lambda a i va k ds d) \<Longrightarrow> tables_ok ss script T \<Longrightarrow>
   \<forall>b. length (v_block_privates (bs b)) \<le> v_privates_size (ss ! i) - k \<Longrightarrow> tables_ok ss script (T(q := bs))"
  by (auto simp: tables_ok_def)

lemma tables_ok_start:
  "tables_ok ss script T \<Longrightarrow> \<forall>b. length (v_block_privates (bs b)) \<le> v_privates_size (ss ! 0) - 0 \<Longrightarrow>
   tables_ok ss script (T([] := bs))"
  by (auto simp: tables_ok_def)

lemma triple_list:
  "(\<And>c. c < length fs \<Longrightarrow> triple Q n body k j r {} ((fs ! c) ((i + c) # p)) {}) \<Longrightarrow> triple Q n body k j r {} (flow_list p i fs) {}"
proof (induction fs arbitrary: i)
  case (Cons f fs)
  have "triple Q n body k j r {} (f (i # p)) {}" using Cons.prems[of 0] by simp
  moreover have "triple Q n body k j r {} (flow_list p (Suc i) fs) {}"
    using Cons.prems[of "Suc c" for c] by (intro Cons.IH) simp
  ultimately show ?case by (auto intro: triple_seq)
qed (simp add: triple_skip)

lemma triple_option:
  "(\<And>f. fo = Some f \<Longrightarrow> triple Q n body k j r {} (f p) {}) \<Longrightarrow> triple Q n body k j r {} (flow_option p fo) {}"
  by (cases fo) (auto intro: triple_skip)

lemma triple_catches:
  "(\<And>c. c < length cs \<Longrightarrow> case cs ! c of (e, v, b) \<Rightarrow> triple Q n body k j r {} (e ((2 + 2 * (i + c)) # p)) {} \<and>
      triple Q n body k j r {} (flow_catch_variable (variable_at ss v)) {} \<and> triple Q n body k j r {} (b ((3 + 2 * (i + c)) # p)) {}) \<Longrightarrow>
   triple Q n body k j r {} (flow_catches ss p i cs) {}"
proof (induction cs arbitrary: i)
  case (Cons c cs)
  obtain e v b where c: "c = (e, v, b)" by (cases c)
  have "triple Q n body k j r {} (flow_catches ss p (Suc i) cs) {}"
    using Cons.prems[of "Suc d" for d] by (intro Cons.IH) simp
  then show ?case using Cons.prems[of 0] unfolding c by (auto intro!: triple_seq triple_catch)
qed (simp add: triple_skip)

lemma f_flow_total:
  "well_scoped ss z k j r n \<Longrightarrow> k \<le> z \<Longrightarrow> z < 2 ^ 31 \<Longrightarrow> node_at script p = Some n \<Longrightarrow>
   \<forall>body. triple (tables_ok ss script) (z - k) body k j r {} (f_flow ss n p) {}"
proof (induction ss z k j r n arbitrary: p rule: well_scoped.induct)
  case (1 ss z k j r ns)
  then show ?case by (auto simp: node_at_child intro!: triple_list)
next
  case (2 ss z k j r a i va m ds b)
  have "triple (tables_ok ss script) (v_privates_size (ss ! i) - m) body m False True {} (f_flow ss b (0 # p)) {}" for body
    using 2 by (auto simp: scope_ok_def node_at_child)
  then show ?case
    using 2 by (auto simp: flow_node_defs scope_ok_def node_at_child intro!: triple_seq triple_list analyze_total tables_ok_update)
next
  case (9 ss z k j r b cs f)
  have "well_scoped ss z k j r b" "node_at script (0 # p) = Some b" using 9(5,8) by (simp_all add: node_at_child)
  from 9(1)[OF this(1) 9(6,7) this(2)]
  have b: "triple (tables_ok ss script) (z - k) body k True True {} (f_flow ss b (0 # p)) {}" for body
    by (blast intro: triple_strengthen)
  have c: "case map (map_prod (f_flow ss) (map_prod id (f_flow ss))) cs ! c of (e, v, d) \<Rightarrow>
      triple (tables_ok ss script) (z - k) body k True True {} (e ((2 + 2 * (0 + c)) # p)) {} \<and>
      triple (tables_ok ss script) (z - k) body k True True {} (flow_catch_variable (variable_at ss v)) {} \<and>
      triple (tables_ok ss script) (z - k) body k True True {} (d ((3 + 2 * (0 + c)) # p)) {}"
    if "c < length cs" for body c
  proof -
    obtain e v d where cd: "cs ! c = (e, v, d)" by (cases "cs ! c")
    then have mem: "(e, v, d) \<in> set cs" using that by (metis nth_mem)
    then have ws: "well_scoped ss z k j r e" "catch_ok z k (variable_at ss v)" "well_scoped ss z k j r d" using 9(5) by auto
    have at: "node_at script ((2 + 2 * c) # p) = Some e" "node_at script ((3 + 2 * c) # p) = Some d"
      using 9(8) that cd by (simp_all add: node_at_child)
    show ?thesis
      using that cd triple_catch_variable[OF ws(2) 9(7)] 9(2)[OF mem refl refl ws(1) 9(6,7) at(1)] 9(3)[OF mem refl refl ws(3) 9(6,7) at(2)]
      by (auto intro: triple_strengthen)
  qed
  have f: "triple (tables_ok ss script) (z - k) body k False False {} (f_flow ss x (1 # p)) {}" if "f = Some x" for x body
    using 9(4)[of x "1 # p"] 9(5-8) that by (simp add: node_at_child)
  show ?case
  proof (rule allI)
    fix body
    have "triple (tables_ok ss script) (z - k) body k False False {} (flow_option (1 # p) (map_option (f_flow ss) f)) {}"
      using f[of _ body] by (cases f) (simp_all add: triple_skip)
    moreover have "triple (tables_ok ss script) (z - k) body k True True {}
        (flow_catches ss p 0 (map (map_prod (f_flow ss) (map_prod id (f_flow ss))) cs)) {}"
      by (rule triple_catches) (use c in simp)
    ultimately show "triple (tables_ok ss script) (z - k) body k j r {} (f_flow ss (N_try b cs f) p) {}"
      using triple_try[OF b] by simp
  qed
next
  case (17 ss z k j r p u sc x)
  then show ?case by (auto simp: flow_node_defs intro!: triple_variable split: option.split)
next
  case (18 ss z k j r p u v e)
  then show ?case by (auto simp: flow_node_defs node_at_child intro!: triple_seq triple_variable split: option.splits)
next
  case (3 ss z k j r e x y)
  then show ?case by (auto simp: node_at_child intro!: triple_option triple_if)
next
  case (4 ss z k j r e b)
  then show ?case by (auto simp: node_at_child intro!: triple_option triple_while)
next
  case (5 ss z k j r i e f b)
  then show ?case by (auto simp: node_at_child intro!: triple_option triple_for)
next
  case (23 ss z k j r p t as es)
  then show ?case by (auto simp: node_at_child intro!: triple_list triple_seq)
qed (auto simp: flow_node_defs node_at_child intro!: triple_seq triple_skip triple_jumps)


text \<open>The theorem for a whole script.\<close>

lemma analyze_script_total:
  assumes "well_scoped ss (v_privates_size (ss ! 0)) 0 False False script" "v_privates_size (ss ! 0) < 2 ^ 31"
  shows "\<exists>T. analyze_script ss script = Some (Inr T) \<and> tables_ok ss script T"
proof -
  let ?z = "v_privates_size (ss ! 0)"
  let ?s = "\<lparr>v_flow_arguments = 0, v_flow_targets = \<lparr>v_flow_break = None, v_flow_continue = None, v_flow_return = None\<rparr>,
          v_current = ([], B_block_body), v_blocks = \<lambda>_. t_block_new, v_analyzed = \<lambda>_ _. t_block_new\<rparr>"
  have "triple (tables_ok ss script) (?z - 0) ([], B_block_body) 0 False False {} (f_flow ss script [0]) {}"
    using f_flow_total[OF assms(1) _ assms(2), of script "[0]"] by simp
  then have t: "triple (tables_ok ss script) (?z - 0) ([], B_block_body) 0 False True {} (f_flow ss script [0]) {}"
    by (rule triple_strengthen) simp_all
  have "tables_ok ss script (v_analyzed ?s)" by (simp add: tables_ok_def t_block_new_def)
  then have "\<exists>T. f_analyze ?z 0 [] (f_flow ss script [0]) ?s = Some (Inr (?s\<lparr>v_analyzed := T\<rparr>)) \<and> tables_ok ss script T"
    using t assms(2) by (intro analyze_run tables_ok_start) simp_all
  then obtain T where "f_analyze ?z 0 [] (f_flow ss script [0]) ?s = Some (Inr (?s\<lparr>v_analyzed := T\<rparr>))" "tables_ok ss script T" by blast
  then show ?thesis by (simp add: analyze_script_def then_result_def)
qed

section \<open>Properties\<close>

text \<open>C36: on the graph of a function, with \<open>n\<close> variables and the blocks \<open>V\<close>, the two worklist loops terminate.
  Afterwards a variable is marked \<open>v_in\<close> in a block exactly when a block on some way from the body to it uses
  or sets the variable, \<open>v_out\<close> when the block does so itself too, and \<open>v_use\<close>, in a block from which the
  junction can be reached, exactly when some way from it reads the variable before setting it.\<close>
theorem flow_solution:
  assumes "linked n V body bs" "int n \<le> max_privates" "junction \<in> V"
  shows "\<exists>bs1. f_solve n body junction bs = Some (Inr bs1) \<and>
    (\<forall>b \<in> V. length (v_block_privates (bs1 b)) = n \<and>
      (\<forall>i. (flag v_in (bs1 b) i \<longleftrightarrow> reaches bs body i b) \<and>
           (flag v_out (bs1 b) i \<longleftrightarrow> flag v_out (bs b) i \<or> reaches bs body i b) \<and>
           ((b, junction) \<in> (succ bs)\<^sup>* \<longrightarrow> (flag v_use (bs1 b) i \<longleftrightarrow> live bs junction i b))))"
  using solve_total[OF assms] by blast

theorem flow_solution_witness:
  "\<exists>bs1. f_solve 2 ([], B_block_body) ([], B_junction) (f_next ([], B_block_body) ([], B_junction) (\<lambda>_. t_block_new)) = Some (Inr bs1) \<and>
    \<not> flag v_in (bs1 ([], B_junction)) 1"
proof -
  let ?bs = "f_next ([], B_block_body) ([], B_junction) (\<lambda>_. t_block_new)"
  have "linked 2 {([], B_junction), ([], B_block_body)} ([], B_block_body) ?bs"
    using linked_next[OF linked_start(1), of "([], B_block_body)" "([], B_block_body)" 2 "([], B_junction)"]
    by (simp add: linked_start(2))
  from flow_solution[OF this, of "([], B_junction)"]
  obtain bs1 where r: "f_solve 2 ([], B_block_body) ([], B_junction) ?bs = Some (Inr bs1)"
      "flag v_in (bs1 ([], B_junction)) 1 \<longleftrightarrow> reaches ?bs ([], B_block_body) 1 ([], B_junction)"
    by (auto simp: max_privates_def)
  have "\<not> reaches ?bs ([], B_block_body) 1 ([], B_junction)"
    by (simp add: reaches_def flag_def t_block_new_def)
  then show ?thesis using r by blast
qed

text \<open>C37: the analysis of a script returns when its tree is well scoped: every jump has a target in its own
  function, every variable a slot of the function, and no \<open>catch\<close> names a parameter.  No table it leaves
  has more variables than its function, which is what the emitter relies on when it indexes its own flags
  by them.\<close>
theorem flow_returns:
  assumes "well_scoped ss (v_privates_size (ss ! 0)) 0 False False script" "int (v_privates_size (ss ! 0)) < 2 ^ 31"
  shows "\<exists>T. analyze_script ss script = Some (Inr T) \<and> tables_ok ss script T"
  using analyze_script_total[OF assms(1)] assms(2) by simp

theorem flow_returns_witness:
  "\<exists>T. analyze_script [f_classify [97] (privates_push [97] (add_variable [97] (t_scope_new None)))]
     (N_while None (N_scope_put (0, 1, 1) 0 (0, [97]) (N_symbol_get (0, 1, 1) 0 (Some 0) [97]))) = Some (Inr T)"
proof -
  let ?ss = "[f_classify [97] (privates_push [97] (add_variable [97] (t_scope_new None)))]"
  let ?n = "N_while None (N_scope_put (0, 1, 1) 0 (0, [97]) (N_symbol_get (0, 1, 1) 0 (Some 0) [97]))"
  have "well_scoped ?ss (v_privates_size (?ss ! 0)) 0 False False ?n \<and> int (v_privates_size (?ss ! 0)) < 2 ^ 31" by code_simp
  then show ?thesis using flow_returns[of ?ss ?n] by blast
qed



end
