(* ===== verification/Xm_Emit_Rules.thy ===== *)
theory Xm_Emit_Rules
  imports Xm_Emit Xm_Flow_Correct
begin

text \<open>
  A Hoare calculus for the emitter: \<open>hoare P m Q\<close>, the assertion \<open>stage\<close> that holds between two steps, a
  rule for every step that nodes are built from, and the contract \<open>node_ok\<close> of a node.

  \<open>stage\<close> keeps the invariant of the code under construction: its slots are in the frame, the cells left open
  for labels are operands, the targets of labels are instructions or the end of the code, and every
  instruction that jumps has its label.  It also gives the height of the stack, the labels that still need a
  target and the targets of jumps.
\<close>

declare split_paired_All [simp del] split_paired_Ex [simp del]

section \<open>Runs\<close>

text \<open>Constant folding is the only step that may fail on a good tree.\<close>

definition folding_error :: "xerror \<Rightarrow> bool" where
  "folding_error x \<longleftrightarrow> x \<in> {Thrown ''not supported.'', Undefined ''division'', Undefined ''shift''}"

definition runs :: "('a \<Rightarrow> t_emit \<Rightarrow> bool) \<Rightarrow> ('a \<times> t_emit) result \<Rightarrow> bool" where
  "runs Q r \<longleftrightarrow> (case r of Inl x \<Rightarrow> folding_error x | Inr (a, e) \<Rightarrow> Q a e)"

lemma runs_simps [simp]:
  "runs Q (Inr (a, e)) \<longleftrightarrow> Q a e" "runs Q (Inl x) \<longleftrightarrow> folding_error x"
  "runs Q (e_return a e) \<longleftrightarrow> Q a e"
  "runs Q (e_bind m f e) \<longleftrightarrow> runs (\<lambda>a e1. runs Q (f a e1)) (m e)"
  "runs Q' (e_then m k e) \<longleftrightarrow> runs (\<lambda>_ e1. runs Q' (k e1)) (m e)"
  "runs Q (e_state h e) \<longleftrightarrow> runs Q (h e e)"
  by (auto simp: runs_def e_return_def e_bind_def e_then_def e_state_def bind_result_def split: sum.splits)

lemma runs_modify [simp]: "runs Q (e_modify f e) \<longleftrightarrow> Q () (f e)"
  by (simp add: runs_def e_modify_def)

lemma runs_mono: "runs Q r \<Longrightarrow> (\<And>a e. Q a e \<Longrightarrow> Q' a e) \<Longrightarrow> runs Q' r"
  by (auto simp: runs_def split: sum.splits)

text \<open>\<open>hoare P m Q\<close>: from a state that satisfies \<open>P\<close> the step \<open>m\<close> reaches one that satisfies \<open>Q\<close>.\<close>

definition hoare :: "(t_emit \<Rightarrow> bool) \<Rightarrow> 'a emit \<Rightarrow> ('a \<Rightarrow> t_emit \<Rightarrow> bool) \<Rightarrow> bool" where
  "hoare P m Q \<longleftrightarrow> (\<forall>e. P e \<longrightarrow> runs Q (m e))"

lemma hoareI: "(\<And>e. P e \<Longrightarrow> runs Q (m e)) \<Longrightarrow> hoare P m Q"
  by (simp add: hoare_def)

lemma hoare_bind: "hoare P m R \<Longrightarrow> (\<And>a. hoare (R a) (f a) Q) \<Longrightarrow> hoare P (e_bind m f) Q"
  unfolding hoare_def by (auto intro: runs_mono)

lemma hoare_then: "hoare P m R \<Longrightarrow> (\<And>a. hoare (R a) k Q) \<Longrightarrow> hoare P (e_then m k) Q"
  unfolding e_then_def by (rule hoare_bind)

lemma hoare_skip: "hoare P e_skip (\<lambda>_. P)"
  by (simp add: hoare_def e_skip_def)

lemma hoare_weaken: "hoare P m Q \<Longrightarrow> (\<And>e. P' e \<Longrightarrow> P e) \<Longrightarrow> (\<And>a e. Q a e \<Longrightarrow> Q' a e) \<Longrightarrow> hoare P' m Q'"
  unfolding hoare_def by (blast intro: runs_mono)

lemma hoare_pre: "(\<And>e. P e \<Longrightarrow> P' e) \<Longrightarrow> hoare P' m Q \<Longrightarrow> hoare P m Q"
  by (auto simp: hoare_def)

lemma hoare_state: "(\<And>e1. P e1 \<Longrightarrow> hoare P (h e1) Q) \<Longrightarrow> hoare P (e_state h) Q"
  by (simp add: hoare_def)

section \<open>Well-formed code\<close>

fun is_instruction :: "t_cell \<Rightarrow> bool" where
  "is_instruction (C_instruction i) = True"
| "is_instruction _ = False"

fun cell_ok :: "nat \<Rightarrow> t_cell \<Rightarrow> bool" where
  "cell_ok z (C_slot n) = (n < z)"
| "cell_ok z (C_address t) = False"
| "cell_ok z _ = True"

text \<open>Where an instruction has the address of another one among its operands.\<close>

fun label_operands :: "t_instruction \<Rightarrow> nat set" where
  "label_operands I_JUMP = {1}"
| "label_operands I_BRANCH = {2}"
| "label_operands I_TRY = {2, 3}"
| "label_operands I_CATCH = {1}"
| "label_operands _ = {}"

definition positions :: "t_label list \<Rightarrow> nat set" where
  "positions bs = (\<Union>b \<in> set bs. set (v_positions b))"

text \<open>A finished code: the slots are in the frame, every address is the one of an instruction, and every
  instruction that jumps has its addresses.\<close>

fun cell_fits :: "nat \<Rightarrow> t_cell list \<Rightarrow> nat \<Rightarrow> bool" where
  "cell_fits z cs k = (case cs ! k of
       C_slot n \<Rightarrow> n < z
     | C_address t \<Rightarrow> t < length cs \<and> is_instruction (cs ! t)
     | C_instruction i \<Rightarrow> (\<forall>d \<in> label_operands i. k + d < length cs \<and> (\<exists>t. cs ! (k + d) = C_address t))
     | _ \<Rightarrow> True)"

definition code_fits :: "nat \<Rightarrow> t_code \<Rightarrow> bool" where
  "code_fits z c \<longleftrightarrow> v_code_privates c \<le> v_size c \<and> (\<forall>k < length (v_instructions c). cell_fits z (v_instructions c) k)"

definition code_ok :: "t_code \<Rightarrow> bool" where
  "code_ok c \<longleftrightarrow> code_fits (v_size c) c"

definition label_ok :: "t_cell list \<Rightarrow> t_label \<Rightarrow> bool" where
  "label_ok cs b \<longleftrightarrow> (\<forall>p \<in> set (v_positions b). p < length cs \<and> \<not> is_instruction (cs ! p)) \<and>
     (\<forall>t. v_target b = Some t \<longrightarrow> t \<le> length cs \<and> (t < length cs \<longrightarrow> is_instruction (cs ! t)))"

text \<open>The code under construction, up to the limit \<open>z\<close> for slots.\<close>

definition cells_ok :: "nat \<Rightarrow> t_label list \<Rightarrow> t_cell list \<Rightarrow> bool" where
  "cells_ok z bs cs \<longleftrightarrow> (\<forall>c \<in> set cs. cell_ok z c) \<and> (\<forall>b \<in> set bs. label_ok cs b) \<and>
     (\<forall>k i d. k < length cs \<longrightarrow> cs ! k = C_instruction i \<longrightarrow> d \<in> label_operands i \<longrightarrow> k + d \<in> positions bs)"

definition settled :: "t_emit \<Rightarrow> bool" where
  "settled e \<longleftrightarrow> (\<forall>b \<in> set (v_labels e). \<forall>t. v_target b = Some t \<longrightarrow> t < f_last e)"

definition open_labels :: "t_emit \<Rightarrow> nat set" where
  "open_labels e = {l. l < length (v_labels e) \<and> v_target (v_labels e ! l) = None}"

text \<open>
  The assertion between two steps, in the function \<open>F\<close> (its scope and its number of parameters) with targets
  \<open>t\<close>: \<open>K\<close> are some labels that exist, \<open>Op\<close> the labels without a target, the stack stands at \<open>S\<close> and the
  frame has at least \<open>M\<close> slots.  Slots may go up to \<open>L\<close> where the frame is not that large yet.  \<open>c\<close> tells
  that no label has its target at the end of the code, so that operands may follow.
\<close>

abbreviation frame_privates :: "t_scope \<times> nat \<Rightarrow> nat" where
  "frame_privates F \<equiv> v_privates_size (fst F)"

definition stage :: "t_scope \<times> nat \<Rightarrow> nat \<Rightarrow> t_targets \<Rightarrow> nat set \<Rightarrow> nat set \<Rightarrow> nat \<Rightarrow> nat \<Rightarrow> bool \<Rightarrow> t_emit \<Rightarrow> bool" where
  "stage F L t K Op S M c e \<longleftrightarrow>
     v_emit_scope e = fst F \<and> v_emit_arguments e = snd F \<and> length (v_emit_privates e) = frame_privates F - snd F \<and>
     cells_ok (max L (v_size (v_code e))) (v_labels e) (v_instructions (v_code e)) \<and>
     (\<forall>c \<in> snd ` set (v_codes e). code_ok c) \<and> v_code_privates (v_code e) \<le> v_size (v_code e) \<and>
     v_targets e = t \<and> v_stack e = S \<and> S \<le> M \<and> M \<le> v_size (v_code e) \<and>
     open_labels e = Op \<and> K \<subseteq> {..<length (v_labels e)} \<and> (c \<longrightarrow> settled e)"

lemma stageD:
  assumes "stage F L t K Op S M c e"
  shows "v_emit_scope e = fst F" "v_emit_arguments e = snd F" "length (v_emit_privates e) = frame_privates F - snd F"
    "v_targets e = t" "v_stack e = S" "S \<le> M" "M \<le> v_size (v_code e)"
    "open_labels e = Op" "K \<subseteq> {..<length (v_labels e)}"
  using assms by (auto simp: stage_def)

lemma cell_ok_mono: "cell_ok z c \<Longrightarrow> z \<le> z1 \<Longrightarrow> cell_ok z1 c"
  by (cases c) auto

lemma cells_ok_mono: "cells_ok z bs cs \<Longrightarrow> z \<le> z1 \<Longrightarrow> cells_ok z1 bs cs"
  unfolding cells_ok_def using cell_ok_mono by blast

text \<open>The limit is raised for a while; what is known of the size and of the end of the code can be forgotten.\<close>

lemma stage_raise: "stage F L t K Op S M c e \<Longrightarrow> L \<le> L1 \<Longrightarrow> stage F L1 t K Op S M c e"
  unfolding stage_def using cells_ok_mono[of _ _ _ "max L1 (v_size (v_code e))"] by (auto simp: max_def split: if_splits)

lemma stage_weaken:
  "stage F L1 t K Op S M c e \<Longrightarrow> L1 \<le> max L M \<Longrightarrow> M1 \<le> M \<Longrightarrow> S \<le> M1 \<Longrightarrow> K1 \<subseteq> K \<Longrightarrow> Op1 = Op \<Longrightarrow> (c1 \<longrightarrow> c) \<Longrightarrow>
   stage F L t K1 Op1 S M1 c1 e"
  unfolding stage_def using cells_ok_mono[of "max L1 (v_size (v_code e))" _ _ "max L (v_size (v_code e))"]
  by (auto simp: max_def split: if_splits)

subsection \<open>Appending cells\<close>

text \<open>The cells \<open>ys\<close> are appended, and those at the offsets in \<open>ps\<close> are left open for labels.\<close>

definition add_positions :: "nat \<Rightarrow> (nat \<times> nat) list \<Rightarrow> t_label list \<Rightarrow> t_label list" where
  "add_positions n ps bs = fold (\<lambda>(l, d) bs. bs[l := (bs ! l)\<lparr>v_positions := v_positions (bs ! l) @ [n + d]\<rparr>]) ps bs"

definition append_cells :: "t_cell list \<Rightarrow> (nat \<times> nat) list \<Rightarrow> t_emit \<Rightarrow> t_emit" where
  "append_cells ys ps e = e\<lparr>v_code := (v_code e)\<lparr>v_instructions := v_instructions (v_code e) @ ys\<rparr>,
     v_labels := add_positions (f_last e) ps (v_labels e)\<rparr>"

lemma length_add_positions [simp]: "length (add_positions n ps bs) = length bs"
  by (induction ps arbitrary: bs) (auto simp: add_positions_def)

lemma target_add_positions [simp]: "v_target (add_positions n ps bs ! l) = v_target (bs ! l)"
proof (induction ps arbitrary: bs)
  case (Cons p ps)
  obtain k d where p: "p = (k, d)" by (cases p)
  have "v_target (bs[k := (bs ! k)\<lparr>v_positions := x\<rparr>] ! l) = v_target (bs ! l)" for x
    by (cases "k < length bs"; cases "l = k") (simp_all add: list_update_beyond)
  then show ?case using Cons by (simp add: add_positions_def p)
qed (simp add: add_positions_def)

lemma positions_add_positions:
  "l < length bs \<Longrightarrow> set (v_positions (add_positions n ps bs ! l)) = set (v_positions (bs ! l)) \<union> {n + d | d. (l, d) \<in> set ps}"
proof (induction ps arbitrary: bs)
  case (Cons p ps)
  obtain k d where p: "p = (k, d)" by (cases p)
  have "add_positions n (p # ps) bs = add_positions n ps (bs[k := (bs ! k)\<lparr>v_positions := v_positions (bs ! k) @ [n + d]\<rparr>])"
    by (simp add: add_positions_def p)
  moreover have "set (v_positions (bs[k := (bs ! k)\<lparr>v_positions := v_positions (bs ! k) @ [n + d]\<rparr>] ! l)) =
      set (v_positions (bs ! l)) \<union> (if l = k then {n + d} else {})"
    using Cons.prems by (cases "l = k") simp_all
  ultimately show ?case using Cons by (auto simp: p split: if_splits)
qed (simp add: add_positions_def)

lemma in_positions_iff: "p \<in> positions bs \<longleftrightarrow> (\<exists>l < length bs. p \<in> set (v_positions (bs ! l)))"
  by (metis (no_types, lifting) UN_iff in_set_conv_nth positions_def)

definition operands_follow :: "t_cell list \<Rightarrow> nat set \<Rightarrow> bool" where
  "operands_follow ys D \<longleftrightarrow> (\<forall>k < length ys. case ys ! k of C_instruction i \<Rightarrow> \<forall>d \<in> label_operands i. k + d \<in> D | _ \<Rightarrow> True)"

lemma label_ok_append:
  assumes b: "label_ok cs b" and t: "v_target b1 = v_target b" and hd: "v_target b = Some (length cs) \<Longrightarrow> is_instruction (hd ys)"
    and ps: "set (v_positions b1) = set (v_positions b) \<union> {length cs + d | d. d \<in> D}"
    and D: "\<forall>d \<in> D. d < length ys \<and> \<not> is_instruction (ys ! d)"
  shows "label_ok (cs @ ys) b1"
proof -
  have "p < length (cs @ ys) \<and> \<not> is_instruction ((cs @ ys) ! p)" if "p \<in> set (v_positions b1)" for p
    using that ps b D by (auto simp: label_ok_def nth_append)
  moreover have "k \<le> length (cs @ ys) \<and> (k < length (cs @ ys) \<longrightarrow> is_instruction ((cs @ ys) ! k))" if k: "v_target b1 = Some k" for k
  proof (cases "k < length cs")
    case True
    then show ?thesis using b t k by (auto simp: label_ok_def nth_append)
  next
    case False
    then have "k = length cs" using b t k unfolding label_ok_def by (metis le_neq_implies_less)
    then show ?thesis using hd t k by (cases ys) (auto simp: nth_append)
  qed
  ultimately show ?thesis by (simp add: label_ok_def)
qed

lemma cells_ok_append:
  assumes ok: "cells_ok z bs cs" and ys: "\<forall>c \<in> set ys. cell_ok z c"
    and hd: "(\<forall>b \<in> set bs. v_target b \<noteq> Some (length cs)) \<or> is_instruction (hd ys)"
    and ps: "\<forall>(l, d) \<in> set ps. l < length bs \<and> d < length ys \<and> \<not> is_instruction (ys ! d)"
    and ops: "operands_follow ys (snd ` set ps)"
  shows "cells_ok z (add_positions (length cs) ps bs) (cs @ ys)"
proof -
  let ?bs = "add_positions (length cs) ps bs"
  have "label_ok (cs @ ys) (?bs ! l)" if l: "l < length bs" for l
  proof (rule label_ok_append)
    show "label_ok cs (bs ! l)" using ok l by (simp add: cells_ok_def)
    show "v_target (bs ! l) = Some (length cs) \<Longrightarrow> is_instruction (hd ys)" using hd l by auto
    show "set (v_positions (?bs ! l)) = set (v_positions (bs ! l)) \<union> {length cs + d | d. d \<in> {d. (l, d) \<in> set ps}}"
      using positions_add_positions[OF l] by simp
    show "\<forall>d \<in> {d. (l, d) \<in> set ps}. d < length ys \<and> \<not> is_instruction (ys ! d)" using ps by auto
  qed simp
  then have labels: "\<forall>b \<in> set ?bs. label_ok (cs @ ys) b" by (auto simp: in_set_conv_nth)
  have "k + d \<in> positions ?bs" if k: "k < length (cs @ ys)" "(cs @ ys) ! k = C_instruction i" "d \<in> label_operands i" for k i d
  proof (cases "k < length cs")
    case True
    then have "k + d \<in> positions bs" using ok that by (auto simp: cells_ok_def nth_append)
    then show ?thesis by (auto simp: in_positions_iff positions_add_positions)
  next
    case False
    then have "k - length cs < length ys" "ys ! (k - length cs) = C_instruction i" using k by (auto simp: nth_append)
    then have "k - length cs + d \<in> snd ` set ps" using ops k(3) by (auto simp: operands_follow_def)
    then obtain l where "(l, k - length cs + d) \<in> set ps" by auto
    moreover from this have "l < length bs" using ps by auto
    moreover have "k + d = length cs + (k - length cs + d)" using False by simp
    ultimately have "l < length bs" "k + d \<in> set (v_positions (bs ! l)) \<union> {length cs + d | d. (l, d) \<in> set ps}" by blast+
    then show ?thesis using positions_add_positions[of l bs "length cs" ps] unfolding in_positions_iff length_add_positions by blast
  qed
  moreover have "\<forall>c \<in> set (cs @ ys). cell_ok z c" using ok ys by (auto simp: cells_ok_def)
  ultimately show ?thesis using labels by (simp add: cells_ok_def)
qed

lemma open_labels_append [simp]: "open_labels (append_cells ys ps e) = open_labels e"
  by (auto simp: open_labels_def append_cells_def)

lemma targets_bound: "cells_ok z bs cs \<Longrightarrow> b \<in> set bs \<Longrightarrow> v_target b = Some t \<Longrightarrow> t \<le> length cs"
  by (auto simp: cells_ok_def label_ok_def)

lemma stage_append:
  assumes st: "stage F L t K Op S M c e" and ys: "\<forall>x \<in> set ys. cell_ok (max L M) x" "ys \<noteq> []"
    and hd: "c \<or> is_instruction (hd ys)"
    and ps: "\<forall>(l, d) \<in> set ps. l \<in> K \<and> d < length ys \<and> \<not> is_instruction (ys ! d)"
    and ops: "operands_follow ys (snd ` set ps)"
  shows "stage F L t K Op S M True (append_cells ys ps e)"
proof -
  let ?cs = "v_instructions (v_code e)"
  let ?z = "max L (v_size (v_code e))"
  have ok: "cells_ok ?z (v_labels e) ?cs" using st by (simp add: stage_def)
  have "\<forall>x \<in> set ys. cell_ok ?z x"
    using ys(1) stageD(7)[OF st] cell_ok_mono[of "max L M" _ ?z] by (auto simp: max.coboundedI2)
  moreover have "(\<forall>b \<in> set (v_labels e). v_target b \<noteq> Some (length ?cs)) \<or> is_instruction (hd ys)"
    using hd st by (auto simp: stage_def settled_def f_last_def)
  moreover have "\<forall>(l, d) \<in> set ps. l < length (v_labels e) \<and> d < length ys \<and> \<not> is_instruction (ys ! d)"
    using ps stageD(9)[OF st] by fastforce
  ultimately have "cells_ok ?z (add_positions (length ?cs) ps (v_labels e)) (?cs @ ys)"
    using cells_ok_append[OF ok _ _ _ ops] by blast
  moreover have "v_target (v_labels e ! l) = Some k \<Longrightarrow> l < length (v_labels e) \<Longrightarrow> k < length ?cs + length ys" for l k
    using targets_bound[OF ok nth_mem, of l k] ys(2) by (cases ys) auto
  ultimately show ?thesis
    using st by (auto simp: stage_def append_cells_def settled_def f_last_def in_set_conv_nth open_labels_def)
qed

section \<open>Rules for the steps\<close>

lemma hoare_value: "(\<And>e. P e \<Longrightarrow> \<exists>e1. m e = Inr ((), e1) \<and> Q e1) \<Longrightarrow> hoare P m (\<lambda>_. Q)"
  unfolding hoare_def by fastforce

lemma stage_hoare_raise:
  "hoare (stage F (max L L1) t K Op S M c) m Q \<Longrightarrow> hoare (stage F L t K Op S M c) m Q"
  by (erule hoare_pre[rotated]) (erule stage_raise, simp)

lemma rule_push: "hoare (stage F L t K Op S M c) f_push (\<lambda>_. stage F L t K Op (Suc S) (max M (Suc S)) c)"
proof (rule hoare_value)
  fix e assume st: "stage F L t K Op S M c e"
  have "cells_ok (max L (max (v_size (v_code e)) (Suc S))) (v_labels e) (v_instructions (v_code e))"
    by (rule cells_ok_mono[of "max L (v_size (v_code e))"]) (use st in \<open>auto simp: stage_def\<close>)
  then show "\<exists>e1. f_push e = Inr ((), e1) \<and> stage F L t K Op (Suc S) (max M (Suc S)) c e1"
    using st by (auto simp: f_push_def e_modify_def stage_def update_code_def open_labels_def settled_def f_last_def)
qed

lemma rule_pop: "hoare (stage F L t K Op (Suc S) M c) f_pop (\<lambda>_. stage F L t K Op S M c)"
  by (rule hoare_value)
    (auto simp: f_pop_def e_state_def e_modify_def stage_def open_labels_def settled_def f_last_def)

lemma rule_set_stack: "n \<le> M \<Longrightarrow> hoare (stage F L t K Op S M c) (set_stack n) (\<lambda>_. stage F L t K Op n M c)"
  by (rule hoare_value) (auto simp: set_stack_def e_modify_def stage_def open_labels_def settled_def f_last_def)

lemma rule_set_targets: "hoare (stage F L t K Op S M c) (set_targets t1) (\<lambda>_. stage F L t1 K Op S M c)"
  by (rule hoare_value) (auto simp: set_targets_def e_modify_def stage_def open_labels_def settled_def f_last_def)

lemma rule_restore:
  "length ps = frame_privates F - snd F \<Longrightarrow> n \<le> M \<Longrightarrow>
   hoare (stage F L t K Op S M c) (e_modify (\<lambda>e. e\<lparr>v_emit_privates := ps, v_stack := n\<rparr>)) (\<lambda>_. stage F L t K Op n M c)"
  by (rule hoare_value) (auto simp: e_modify_def stage_def open_labels_def settled_def f_last_def)

lemma rule_at: "hoare (stage F L t K Op S M c) (f_at a) (\<lambda>_. stage F L t K Op S M c)"
  by (rule hoare_value)
    (auto simp: f_at_def e_modify_def stage_def update_code_def open_labels_def settled_def f_last_def)

lemma rule_skip: "hoare (stage F L t K Op S M c) e_skip (\<lambda>_. stage F L t K Op S M c)"
  by (rule hoare_skip)

lemma rule_return: "hoare (stage F L t K Op S M c) (e_return a) (\<lambda>x e. x = a \<and> stage F L t K Op S M c e)"
  by (simp add: hoare_def)

lemma rule_slot0: "hoare (stage F L t K Op S M c) (f (C_slot S)) Q \<Longrightarrow> hoare (stage F L t K Op S M c) (e_slot 0 f) Q"
  unfolding e_slot_def by (rule hoare_state) (auto simp: hoare_def stageD(5))

lemma rule_slots:
  "hoare (stage F L t K Op (Suc S) M c) (f (C_slot S)) Q \<Longrightarrow> hoare (stage F L t K Op (Suc S) M c) (e_slot 1 f) Q"
  "hoare (stage F L t K Op (Suc (Suc S)) M c) (f (C_slot S)) Q \<Longrightarrow> hoare (stage F L t K Op (Suc (Suc S)) M c) (e_slot 2 f) Q"
  "hoare (stage F L t K Op (Suc (Suc (Suc S))) M c) (f (C_slot S)) Q \<Longrightarrow> hoare (stage F L t K Op (Suc (Suc (Suc S))) M c) (e_slot 3 f) Q"
  "hoare (stage F L t K Op (Suc (Suc (Suc (Suc S)))) M c) (f (C_slot S)) Q \<Longrightarrow>
   hoare (stage F L t K Op (Suc (Suc (Suc (Suc S)))) M c) (e_slot 4 f) Q"
  unfolding e_slot_def by (rule hoare_state, auto simp: hoare_def stageD(5) numeral_eq_Suc)+

subsection \<open>Instructions and labels\<close>

definition operand_cell :: "nat \<Rightarrow> t_cell \<Rightarrow> bool" where
  "operand_cell z c \<longleftrightarrow> cell_ok z c \<and> \<not> is_instruction c"

lemma operand_cell_simps [simp]:
  "operand_cell z (C_slot n) \<longleftrightarrow> n < z" "operand_cell z (C_entry n)" "operand_cell z (C_not_entry n)" "operand_cell z (C_size n)"
  "operand_cell z (C_integer w)" "operand_cell z (C_float x)" "operand_cell z (C_value v)" "operand_cell z (C_symbol s)"
  "operand_cell z (C_code n)" "operand_cell z (C_try y)" "\<not> operand_cell z (C_address n)" "\<not> operand_cell z (C_instruction i)"
  by (simp_all add: operand_cell_def)

lemma e_cells_append: "e_cells cs e = Inr ((), append_cells cs [] e)"
  by (cases e) (simp add: e_cells_def e_modify_def append_cells_def update_code_def add_positions_def)

lemma e_label_append: "e_label l e = Inr ((), append_cells [C_size 0] [(l, 0)] e)"
  by (simp add: e_label_def e_state_def e_then_def e_bind_def e_cells_def e_modify_def append_cells_def update_code_def
      update_label_def bind_result_def add_positions_def)

lemma operands_follow_plain: "\<forall>x \<in> set cs. operand_cell z x \<Longrightarrow> operands_follow cs D"
  unfolding operands_follow_def operand_cell_def using nth_mem by (fastforce split: t_cell.split)

lemma operands_follow_instruction:
  "label_operands i \<subseteq> D \<Longrightarrow> \<forall>x \<in> set cs. operand_cell z x \<Longrightarrow> operands_follow (C_instruction i # cs) D"
  using operands_follow_plain[of cs z UNIV]
  by (auto simp: operands_follow_def nth_Cons' operand_cell_def split: t_cell.split) (metis is_instruction.simps(1) less_Suc_eq_0_disj nth_mem less_diff_conv Suc_eq_plus1 Suc_pred gr0I not_less_eq)

lemma stage_instruction:
  assumes "stage F L t K Op S M c e" "\<forall>x \<in> set cs. operand_cell (max L M) x" "label_operands i \<subseteq> snd ` set ps"
    "\<forall>(l, d) \<in> set ps. l \<in> K \<and> 0 < d \<and> d \<le> length cs"
  shows "stage F L t K Op S M True (append_cells (C_instruction i # cs) ps e)"
  using assms(2-4)
  by (intro stage_append[OF assms(1)] operands_follow_instruction) (auto simp: operand_cell_def nth_Cons')

lemma rule_instruction:
  assumes "label_operands i = {}" "\<forall>x \<in> set cs. operand_cell (max L M) x"
  shows "hoare (stage F L t K Op S M c) (e_instruction i cs) (\<lambda>_. stage F L t K Op S M True)"
  by (rule hoare_value) (use assms stage_instruction[where ps = "[]"] in \<open>auto simp: e_instruction_def e_cells_append\<close>)

lemma rule_cells:
  assumes "\<forall>x \<in> set cs. operand_cell (max L M) x"
  shows "hoare (stage F L t K Op S M True) (e_cells cs) (\<lambda>_. stage F L t K Op S M True)"
proof (rule hoare_value)
  fix e assume st: "stage F L t K Op S M True e"
  have "stage F L t K Op S M True (append_cells cs [] e)"
  proof (cases "cs = []")
    case True
    then show ?thesis using st by (cases e) (simp add: append_cells_def add_positions_def)
  next
    case False
    then show ?thesis
      using assms by (intro stage_append[OF st] operands_follow_plain[where z = "max L M"]) (auto simp: operand_cell_def)
  qed
  then show "\<exists>e1. e_cells cs e = Inr ((), e1) \<and> stage F L t K Op S M True e1" by (simp add: e_cells_append)
qed

lemma rule_label:
  "l \<in> K \<Longrightarrow> hoare (stage F L t K Op S M True) (e_label l) (\<lambda>_. stage F L t K Op S M True)"
  by (rule hoare_value) (auto simp: e_label_append operands_follow_def intro!: stage_append)

lemma append_cells_append:
  "append_cells ys [(l, 0)] (append_cells xs ps e) = append_cells (xs @ ys) (ps @ [(l, length xs)]) e"
  by (simp add: append_cells_def add_positions_def f_last_def)

lemma append_cells_plain: "append_cells ys [] (append_cells xs ps e) = append_cells (xs @ ys) ps e"
  by (simp add: append_cells_def add_positions_def f_last_def)

lemma then_append: "e_then m k e = k e1" if "m e = Inr ((), e1)"
  using that by (simp add: e_then_def e_bind_def bind_result_def)

lemmas append_steps = then_append e_instruction_def e_cells_append e_label_append append_cells_append append_cells_plain

lemma rule_jump:
  assumes "l \<in> K"
  shows "hoare (stage F L t K Op S M c) (e_jump l) (\<lambda>_. stage F L t K Op S M True)"
proof (rule hoare_value)
  fix e assume "stage F L t K Op S M c e"
  then have "stage F L t K Op S M True (append_cells (C_instruction I_JUMP # [C_size 0]) [(l, 1)] e)"
    by (rule stage_instruction) (use assms in auto)
  then show "\<exists>e1. e_jump l e = Inr ((), e1) \<and> stage F L t K Op S M True e1" by (simp add: e_jump_def append_steps)
qed

lemma rule_branch:
  assumes "l \<in> K" "S < max L M"
  shows "hoare (stage F L t K Op S M c) (e_branch l) (\<lambda>_. stage F L t K Op S M True)"
  unfolding e_branch_def
proof (rule rule_slot0, rule hoare_value)
  fix e assume "stage F L t K Op S M c e"
  then have "stage F L t K Op S M True (append_cells (C_instruction I_BRANCH # [C_slot S, C_size 0]) [(l, 2)] e)"
    by (rule stage_instruction) (use assms in auto)
  then show "\<exists>e1. e_then (e_instruction I_BRANCH [C_slot S]) (e_label l) e = Inr ((), e1) \<and> stage F L t K Op S M True e1"
    by (simp add: append_steps numeral_2_eq_2)
qed

lemma rule_try:
  assumes "l \<in> K" "l1 \<in> K" "S < max L M"
  shows "hoare (stage F L t K Op S M c) (e_try l l1) (\<lambda>_. stage F L t K Op S M True)"
  unfolding e_try_def
proof (rule rule_slot0, rule hoare_value)
  fix e assume "stage F L t K Op S M c e"
  then have "stage F L t K Op S M True (append_cells (C_instruction I_TRY # [C_slot S, C_size 0, C_size 0]) [(l, 2), (l1, 3)] e)"
    by (rule stage_instruction) (use assms in auto)
  then show "\<exists>e1. e_then (e_instruction I_TRY [C_slot S]) (e_then (e_label l) (e_label l1)) e = Inr ((), e1) \<and>
      stage F L t K Op S M True e1"
    by (simp add: append_steps numeral_2_eq_2 numeral_3_eq_3)
qed

lemma rule_catch:
  assumes "l \<in> K" "operand_cell (max L M) x"
  shows "hoare (stage F L t K Op S M c) (e_catch l x) (\<lambda>_. stage F L t K Op S M True)"
proof (rule hoare_value)
  fix e assume "stage F L t K Op S M c e"
  then have "stage F L t K Op S M True (append_cells (C_instruction I_CATCH # [C_size 0, x]) [(l, 1)] e)"
    by (rule stage_instruction) (use assms in auto)
  then show "\<exists>e1. e_catch l x e = Inr ((), e1) \<and> stage F L t K Op S M True e1" by (simp add: e_catch_def append_steps)
qed

text \<open>A new label, and the target of one.\<close>

lemma cells_ok_new_label: "cells_ok z bs cs \<Longrightarrow> cells_ok z (bs @ [t_label_new]) cs"
  by (auto simp: cells_ok_def label_ok_def positions_def t_label_new_def)

lemma stage_new_label:
  assumes "stage F L t K Op S M c e"
  shows "stage F L t (insert (length (v_labels e)) K) (insert (length (v_labels e)) Op) S M c (e\<lparr>v_labels := v_labels e @ [t_label_new]\<rparr>)"
proof -
  have "open_labels (e\<lparr>v_labels := v_labels e @ [t_label_new]\<rparr>) = insert (length (v_labels e)) (open_labels e)"
    by (auto simp: open_labels_def nth_append t_label_new_def)
  moreover have "settled e \<Longrightarrow> settled (e\<lparr>v_labels := v_labels e @ [t_label_new]\<rparr>)"
    by (auto simp: settled_def f_last_def t_label_new_def)
  ultimately show ?thesis using assms by (auto simp: stage_def cells_ok_new_label)
qed

lemma rule_f_label:
  assumes "\<And>l. l \<notin> Op \<Longrightarrow> hoare (stage F L t (insert l K) (insert l Op) S M c) (k l) Q"
  shows "hoare (stage F L t K Op S M c) (e_bind f_label k) Q"
proof (rule hoareI)
  fix e assume st: "stage F L t K Op S M c e"
  have "length (v_labels e) \<notin> Op" using stageD(8)[OF st] by (auto simp: open_labels_def)
  from assms[OF this] stage_new_label[OF st] show "runs Q (e_bind f_label k e)" by (simp add: f_label_def hoare_def)
qed

lemma cells_ok_target:
  assumes ok: "cells_ok z bs cs" and l: "l < length bs"
  shows "cells_ok z (bs[l := (bs ! l)\<lparr>v_target := Some (length cs)\<rparr>]) cs"
proof -
  let ?bs = "bs[l := (bs ! l)\<lparr>v_target := Some (length cs)\<rparr>]"
  have "label_ok cs (bs ! l)" using ok l by (auto simp: cells_ok_def)
  then have "label_ok cs ((bs ! l)\<lparr>v_target := Some (length cs)\<rparr>)" by (simp add: label_ok_def)
  then have "\<forall>b \<in> set ?bs. label_ok cs b" using ok set_update_subset_insert[of bs l] by (auto simp: cells_ok_def)
  moreover have "v_positions (?bs ! k) = v_positions (bs ! k)" if "k < length bs" for k
    using that by (cases "k = l") auto
  then have "positions ?bs = positions bs" unfolding set_eq_iff in_positions_iff by (metis length_list_update)
  ultimately show ?thesis using ok by (simp add: cells_ok_def)
qed

lemma rule_target:
  assumes "l \<in> K"
  shows "hoare (stage F L t K Op S M c) (t_emit_f_target l) (\<lambda>_. stage F L t K (Op - {l}) S M False)"
proof (rule hoare_value)
  fix e assume st: "stage F L t K Op S M c e"
  then have l: "l < length (v_labels e)" using assms stageD(9) by fastforce
  let ?e = "update_label l (\<lambda>b. b\<lparr>v_target := Some (f_last e)\<rparr>) e"
  have "k \<in> open_labels ?e \<longleftrightarrow> k \<in> open_labels e - {l}" for k
    using l by (cases "k = l") (auto simp: open_labels_def update_label_def)
  then have "open_labels ?e = open_labels e - {l}" by blast
  then have "stage F L t K (Op - {l}) S M False ?e"
    using st cells_ok_target[OF _ l] by (auto simp: stage_def update_label_def f_last_def)
  then show "\<exists>e1. t_emit_f_target l e = Inr ((), e1) \<and> stage F L t K (Op - {l}) S M False e1"
    by (simp add: t_emit_f_target_def e_state_def e_modify_def)
qed

subsection \<open>Shared steps\<close>

lemma hoare_keep: "hoare P m (\<lambda>_. P) \<Longrightarrow> hoare P k Q \<Longrightarrow> hoare P (e_then m k) Q"
  by (erule hoare_then)

lemma rule_safe_point: "hoare (stage F L t K Op S M c) (f_emit_safe_point a) (\<lambda>_. stage F L t K Op S M c)"
proof (unfold f_emit_safe_point_def, rule hoare_state)
  fix e1
  have "hoare (stage F L t K Op S M c) (e_modify (\<lambda>e. e\<lparr>v_safe_positions := f e\<rparr>)) (\<lambda>_. stage F L t K Op S M c)" for f
    by (rule hoare_value) (auto simp: e_modify_def stage_def open_labels_def settled_def f_last_def)
  moreover have "hoare (stage F L t K Op S M c) (e_instruction I_SAFE_POINT []) (\<lambda>_. stage F L t K Op S M c)"
    by (rule hoare_weaken[OF rule_instruction]) (auto intro: stage_weaken dest: stageD(6))
  ultimately show "hoare (stage F L t K Op S M c)
      (case v_safe_points e1 of None \<Rightarrow> e_skip
       | Some _ \<Rightarrow> e_then (e_modify (\<lambda>e. e\<lparr>v_safe_positions := v_safe_positions e @ [(fst (snd a), f_last e, snd (snd a))]\<rparr>))
           (e_then (e_instruction I_SAFE_POINT []) (f_at a))) (\<lambda>_. stage F L t K Op S M c)"
    by (cases "v_safe_points e1") (simp_all add: hoare_skip hoare_keep rule_at)
qed

lemma rule_done:
  "hoare (stage F L t K Op (Suc S) M c) (e_done cl) (\<lambda>x e. x = Op_temporary \<and> stage F L t K Op (if cl then S else Suc S) M c e)"
  unfolding e_done_def e_when_def
  by (cases cl) (auto intro: hoare_then[OF rule_pop] hoare_then[OF hoare_skip] rule_return)

lemma rule_assert_tail:
  "(tail \<Longrightarrow> S = frame_privates F + k) \<Longrightarrow> hoare (stage F L t K Op S M c) (assert_tail tail k) (\<lambda>_. stage F L t K Op S M c)"
  unfolding assert_tail_def e_assert_def by (auto intro!: hoare_state hoare_skip simp: stageD(1,5))

lemma rule_emit_null:
  "S < max L M \<Longrightarrow> hoare (stage F L t K Op S M c) f_emit_null (\<lambda>_. stage F L t K Op (Suc S) (max M (Suc S)) True)"
  unfolding f_emit_null_def by (rule hoare_then[OF rule_slot0[OF rule_instruction]]) (auto intro: rule_push)

lemma rule_private:
  assumes "i < frame_privates F - snd F" "\<And>b. hoare (stage F L t K Op S M c) (f b) Q"
  shows "hoare (stage F L t K Op S M c) (e_private i f) Q"
  unfolding e_private_def using assms by (auto intro!: hoare_state simp: stageD(3))

lemma rule_set_private:
  assumes "i < frame_privates F - snd F"
  shows "hoare (stage F L t K Op S M c) (set_private i b) (\<lambda>_. stage F L t K Op S M c)"
  unfolding set_private_def
  by (rule rule_private[OF assms], rule hoare_value) (auto simp: e_modify_def stage_def open_labels_def settled_def f_last_def)

lemma rule_clear_private:
  assumes "i < frame_privates F - snd F" "frame_privates F \<le> M"
  shows "hoare (stage F L t K Op S M c) (e_state (\<lambda>e. e_instruction I_NUL [C_slot (v_emit_arguments e + i)])) (\<lambda>_. stage F L t K Op S M c)"
proof (rule hoare_state)
  fix e1 assume "stage F L t K Op S M c e1"
  then have "v_emit_arguments e1 + i < max L M" using assms by (simp add: stageD(2))
  then show "hoare (stage F L t K Op S M c) (e_instruction I_NUL [C_slot (v_emit_arguments e1 + i)]) (\<lambda>_. stage F L t K Op S M c)"
    by (intro hoare_weaken[OF rule_instruction]) (auto intro: stage_weaken dest: stageD(6))
qed

lemma rule_join:
  assumes "length j \<le> frame_privates F - snd F" "frame_privates F \<le> M"
  shows "hoare (stage F L t K Op S M c) (f_join j) (\<lambda>_. stage F L t K Op S M c)"
proof -
  have "hoare (stage F L t K Op S M c) (join_from i j) (\<lambda>_. stage F L t K Op S M c)" if "i + length j \<le> frame_privates F - snd F" for i
    using that
  proof (induction j arbitrary: i)
    case Nil
    then show ?case by (simp add: hoare_skip)
  next
    case (Cons x xs)
    then have i: "i < frame_privates F - snd F" "Suc i + length xs \<le> frame_privates F - snd F" by simp_all
    show ?case unfolding join_from.simps
      by (rule hoare_then[OF rule_private[OF i(1)] Cons.IH[OF i(2)]]) (simp add: hoare_skip rule_clear_private[OF i(1) assms(2)])
  qed
  then show ?thesis using assms(1) by (simp add: f_join_def)
qed

lemma rule_merge:
  assumes "length j \<le> frame_privates F - snd F"
  shows "hoare (stage F L t K Op S M c) (f_merge j) (\<lambda>_. stage F L t K Op S M c)"
proof -
  have "hoare (stage F L t K Op S M c) (merge_from i j) (\<lambda>_. stage F L t K Op S M c)" if "i + length j \<le> frame_privates F - snd F" for i
    using that
  proof (induction j arbitrary: i)
    case Nil
    then show ?case by (simp add: hoare_skip)
  next
    case (Cons x xs)
    then have i: "i < frame_privates F - snd F" "Suc i + length xs \<le> frame_privates F - snd F" by simp_all
    show ?case unfolding merge_from.simps by (rule hoare_then[OF rule_set_private[OF i(1)] Cons.IH[OF i(2)]])
  qed
  then show ?thesis using assms by (simp add: f_merge_def)
qed

definition function_ok :: "t_scope \<times> nat \<Rightarrow> bool" where
  "function_ok F \<longleftrightarrow> snd F \<le> frame_privates F \<and> frame_privates F < 2 ^ 31"

lemma rule_assign_private:
  assumes "index < frame_privates F" "function_ok F"
  shows "hoare (stage F L t K Op S M c) (assign_private index) (\<lambda>_. stage F L t K Op S M c)"
    "frame_privates F \<le> M \<Longrightarrow> hoare (stage F L t K Op S M c) (initialize_private index) (\<lambda>_. stage F L t K Op S M c)"
proof -
  have d: "private_index index (snd F) = int index - int (snd F)"
    using assms private_index_eq[of index "snd F"] by (simp add: function_ok_def)
  show "hoare (stage F L t K Op S M c) (assign_private index) (\<lambda>_. stage F L t K Op S M c)"
    unfolding assign_private_def Let_def using assms(1)
    by (intro hoare_state) (auto simp: stageD(2) d intro!: hoare_skip rule_set_private)
  assume M: "frame_privates F \<le> M"
  have "hoare (stage F L t K Op S M c) (e_instruction I_NUL [C_slot (snd F + nat (int index - int (snd F)))]) (\<lambda>_. stage F L t K Op S M c)"
    if "snd F \<le> index"
    using that assms M by (intro hoare_weaken[OF rule_instruction]) (auto intro: stage_weaken dest: stageD(6))
  then show "hoare (stage F L t K Op S M c) (initialize_private index) (\<lambda>_. stage F L t K Op S M c)"
    unfolding initialize_private_def Let_def using assms(1)
    by (intro hoare_state) (auto simp: stageD(2) d intro!: hoare_skip hoare_keep rule_private rule_set_private)
qed

section \<open>Targets\<close>

text \<open>Where a jump may go: a label that exists, with a junction whose flags the function has, and for a result a
  place in the frame, the first one after the variables when the jump is in tail position.\<close>

definition junction_ok :: "t_scope \<times> nat \<Rightarrow> junction \<Rightarrow> bool" where
  "junction_ok F j \<longleftrightarrow> length j \<le> frame_privates F - snd F"

definition jump_ok :: "t_scope \<times> nat \<Rightarrow> nat set \<Rightarrow> nat option \<Rightarrow> junction option \<Rightarrow> bool" where
  "jump_ok F K l j \<longleftrightarrow> (\<forall>x. l = Some x \<longrightarrow> x \<in> K \<and> (\<exists>y. j = Some y \<and> junction_ok F y))"

definition result_ok :: "t_scope \<times> nat \<Rightarrow> nat \<Rightarrow> nat option \<Rightarrow> nat \<Rightarrow> bool \<Rightarrow> bool" where
  "result_ok F M l s tail \<longleftrightarrow> (l \<noteq> None \<longrightarrow> frame_privates F \<le> s \<and> s \<le> M \<and> (tail \<longrightarrow> s = frame_privates F))"

definition targets_ok :: "t_scope \<times> nat \<Rightarrow> bool \<Rightarrow> bool \<Rightarrow> t_targets \<Rightarrow> nat set \<Rightarrow> nat \<Rightarrow> bool" where
  "targets_ok F j r t K M \<longleftrightarrow>
     jump_ok F K (v_break t) (v_break_junction t) \<and> result_ok F M (v_break t) (v_break_stack t) (v_break_is_tail t) \<and>
     jump_ok F K (v_continue t) (v_continue_junction t) \<and>
     jump_ok F K (v_return t) (v_return_junction t) \<and> result_ok F M (v_return t) (v_return_stack t) (v_return_is_tail t) \<and>
     (j \<longrightarrow> v_break t \<noteq> None \<and> v_continue t \<noteq> None) \<and> (r \<longrightarrow> v_return t \<noteq> None)"

lemma targets_mono: "targets_ok F j r t K M \<Longrightarrow> K \<subseteq> K1 \<Longrightarrow> M \<le> M1 \<Longrightarrow> targets_ok F j r t K1 M1"
  unfolding targets_ok_def jump_ok_def result_ok_def by fastforce

lemma targets_max [simp]: "targets_ok F j r t K M \<Longrightarrow> targets_ok F j r t K (max M n)"
  by (erule targets_mono) auto

lemma targets_insert [simp]: "targets_ok F j r t K M \<Longrightarrow> targets_ok F j r t (insert l K) M"
  by (erule targets_mono) auto

section \<open>The contract of a node\<close>

text \<open>
  A node leaves its result on the stack, unless it has to clear it or returns it as an operand.  An operand
  that is a number leaves no trace.
\<close>

fun number_literal :: "t_operand \<Rightarrow> bool" where
  "number_literal (Op_integer n) = True"
| "number_literal (Op_float x) = True"
| "number_literal _ = False"

fun operand_ok :: "t_scope \<times> nat \<Rightarrow> t_operand \<Rightarrow> bool" where
  "operand_ok F (Op_variable i) = (i < frame_privates F)"
| "operand_ok F _ = True"

definition result_size :: "t_operand \<Rightarrow> bool \<Rightarrow> nat \<Rightarrow> nat" where
  "result_size x cl S = (if cl \<or> x \<noteq> Op_temporary then S else Suc S)"

abbreviation node_post :: "t_scope \<times> nat \<Rightarrow> nat \<Rightarrow> t_targets \<Rightarrow> nat set \<Rightarrow> nat set \<Rightarrow> nat \<Rightarrow> nat \<Rightarrow> bool \<Rightarrow> bool \<Rightarrow> t_emit \<Rightarrow> t_operand \<Rightarrow> t_emit \<Rightarrow> bool" where
  "node_post F L t K Op S M op cl e x e1 \<equiv>
     stage F L t K Op (result_size x cl S) (max M (result_size x cl S)) False e1 \<and> (x \<noteq> Op_temporary \<longrightarrow> op) \<and>
     operand_ok F x \<and> (number_literal x \<longrightarrow> e1 = e)"

definition node_ok :: "t_scope \<times> nat \<Rightarrow> bool \<Rightarrow> bool \<Rightarrow> node_emit \<Rightarrow> bool" where
  "node_ok F j r n \<longleftrightarrow> (\<forall>tail op cl L t K Op S M c e.
     stage F L t K Op S M c e \<and> targets_ok F j r t K M \<and> frame_privates F \<le> S \<and> (tail \<longrightarrow> S = frame_privates F) \<longrightarrow>
     runs (node_post F L t K Op S M op cl e) (n tail op cl e))"

lemma node_okD:
  assumes "node_ok F j r n" "stage F L t K Op S M c e" "targets_ok F j r t K M" "frame_privates F \<le> S" "tail \<Longrightarrow> S = frame_privates F"
  shows "runs (node_post F L t K Op S M op cl e) (n tail op cl e)"
  using assms(1)[unfolded node_ok_def, THEN spec, THEN spec, THEN spec, THEN spec, THEN spec, THEN spec, THEN spec, THEN spec, THEN spec,
      THEN spec, THEN spec, THEN mp, of L t K Op S M c e tail] assms(2-5) by blast

text \<open>A node that always leaves a temporary.\<close>

lemma node_okI:
  assumes "\<And>tail op cl L t K Op S M c. targets_ok F j r t K M \<Longrightarrow> frame_privates F \<le> S \<Longrightarrow> (tail \<Longrightarrow> S = frame_privates F) \<Longrightarrow> S \<le> M \<Longrightarrow>
      hoare (stage F L t K Op S M c) (n tail op cl)
        (\<lambda>x e. x = Op_temporary \<and> stage F L t K Op (if cl then S else Suc S) (if cl then M else max M (Suc S)) False e)"
  shows "node_ok F j r n"
  unfolding node_ok_def
proof (intro allI impI, elim conjE)
  fix tail op cl L t K Op S M c e
  assume a: "stage F L t K Op S M c e" "targets_ok F j r t K M" "frame_privates F \<le> S" "tail \<longrightarrow> S = frame_privates F"
  have "runs (\<lambda>x e. x = Op_temporary \<and> stage F L t K Op (if cl then S else Suc S) (if cl then M else max M (Suc S)) False e) (n tail op cl e)"
    using assms[of t K M S tail L Op c op cl] a stageD(6)[OF a(1)] by (simp add: hoare_def)
  then show "runs (node_post F L t K Op S M op cl e) (n tail op cl e)"
    by (rule runs_mono) (use stageD(6)[OF a(1)] in \<open>auto simp: result_size_def max_absorb1\<close>)
qed

lemma node_hoare:
  assumes "node_ok F j r n" "targets_ok F j r t K M" "frame_privates F \<le> S" "tail \<Longrightarrow> S = frame_privates F"
  shows "hoare (stage F L t K Op S M c) (n tail False cl)
    (\<lambda>_. stage F L t K Op (if cl then S else Suc S) (if cl then M else max M (Suc S)) False)"
proof (rule hoareI)
  fix e assume st: "stage F L t K Op S M c e"
  note node_okD[OF assms(1) st assms(2,3), of tail cl False, OF assms(4)]
  then show "runs (\<lambda>_. stage F L t K Op (if cl then S else Suc S) (if cl then M else max M (Suc S)) False) (n tail False cl e)"
    by (rule runs_mono) (use stageD(6)[OF st] in \<open>auto simp: result_size_def max_absorb1\<close>)
qed

text \<open>The three ways in which a node runs its children.\<close>

lemma rule_child:
  assumes "node_ok F j r n" "targets_ok F j r t K M" "frame_privates F \<le> S"
  shows "hoare (stage F L t K Op S M c) (n False False False) (\<lambda>_. stage F L t K Op (Suc S) (max M (Suc S)) False)"
    "hoare (stage F L t K Op S M c) (n False False True) (\<lambda>_. stage F L t K Op S M False)"
  using node_hoare[OF assms, of False L Op c False] node_hoare[OF assms, of False L Op c True] by simp_all

lemma rule_operand:
  assumes "node_ok F j r n" "targets_ok F j r t K M" "frame_privates F \<le> S"
    and k: "\<And>x. operand_ok F x \<Longrightarrow> x \<noteq> Op_temporary \<Longrightarrow> hoare (stage F L t K Op S M False) (k x) Q"
      "hoare (stage F L t K Op (Suc S) (max M (Suc S)) False) (k Op_temporary) Q"
  shows "hoare (stage F L t K Op S M c) (e_bind (n False True False) k) Q"
proof (rule hoareI)
  fix e assume st: "stage F L t K Op S M c e"
  note node_okD[OF assms(1) st assms(2,3), of False False True]
  then have "runs (\<lambda>a e1. runs Q (k a e1)) (n False True False e)"
    by (rule runs_mono) (use k stageD(6)[OF st] in \<open>auto simp: result_size_def hoare_def max_absorb1 split: if_splits\<close>)
  then show "runs Q (e_bind (n False True False) k e)" by simp
qed

end
