(* ===== verification/Xm_Emit_Correct.thy ===== *)
theory Xm_Emit_Correct
  imports Xm_Emit_Rules
begin

text \<open>
  Every class of nodes keeps the contract \<open>node_ok\<close>; with the tables that the flow analysis leaves
  (\<open>Xm_Flow_Correct\<close>) the emission of a well scoped script therefore succeeds, but for errors of constant
  folding, and all the code it makes is well formed.
\<close>

section \<open>The nodes keep the contract\<close>

lemma rule_raise: "hoare (stage F (max L (Suc S)) t K Op S M c) m Q \<Longrightarrow> hoare (stage F L t K Op S M c) m Q"
  by (rule stage_hoare_raise)

lemma rule_finish:
  assumes "Op1 = Op" "K1 \<subseteq> K" "L \<le> max L1 M" "M1 \<le> M" "S1 = S" "S1 \<le> M1"
  shows "hoare (stage F L t K Op S M c) (e_return Op_temporary) (\<lambda>x e. x = Op_temporary \<and> stage F L1 t K1 Op1 S1 M1 False e)"
  by (rule hoare_weaken[OF rule_return]) (use assms in \<open>auto intro: stage_weaken\<close>)

lemma rule_done_finish:
  assumes "Op1 = Op" "K1 \<subseteq> K" "L \<le> max L1 M" "M1 \<le> M" "S1 = (if cl then S else Suc S)" "S1 \<le> M1"
  shows "hoare (stage F L t K Op (Suc S) M c) (e_done cl) (\<lambda>x e. x = Op_temporary \<and> stage F L1 t K1 Op1 S1 M1 False e)"
  by (rule hoare_weaken[OF rule_done], assumption, elim conjE, intro conjI, assumption)
    (rule stage_weaken, simp, use assms in simp_all)

lemma rule_when_safe_point: "hoare (stage F L t K Op S M c) (e_when b (f_emit_safe_point a)) (\<lambda>_. stage F L t K Op S M c)"
  by (simp add: e_when_def rule_skip rule_safe_point)

lemma rule_when_push:
  "hoare (stage F L t K Op S M c) (e_when (\<not> cl) f_push) (\<lambda>_. stage F L t K Op (if cl then S else Suc S) (if cl then M else max M (Suc S)) c)"
  by (simp add: e_when_def rule_skip rule_push)

lemmas emit_rules = rule_finish rule_done_finish rule_push rule_pop rule_at rule_skip rule_safe_point rule_when_safe_point rule_when_push
  rule_slot0 rule_slots rule_emit_null rule_assert_tail rule_instruction rule_f_label rule_jump rule_branch rule_target rule_cells

lemma node_class:
  assumes n: "node_ok F j r n"
  shows "node_ok F j r (emit_class a n)"
  unfolding emit_class_def
  by (rule node_okI, rule rule_raise) (rule hoare_then emit_rules n[THEN rule_child(1)] | simp; fail | auto simp: max_def; fail)+

lemma node_super:
  assumes n: "node_ok F j r n"
  shows "node_ok F j r (emit_super a n)"
  unfolding emit_super_def
  by (rule node_okI, rule rule_raise) (rule hoare_then emit_rules n[THEN rule_child(1)] | simp; fail | auto simp: max_def; fail)+

lemma node_throw:
  assumes n: "node_ok F j r n"
  shows "node_ok F j r (emit_throw a n)"
  unfolding emit_throw_def
  by (rule node_okI, rule rule_raise) (rule hoare_then emit_rules n[THEN rule_child(1)] | simp; fail | auto simp: max_def; fail)+

lemma node_object_get:
  assumes n: "node_ok F j r n"
  shows "node_ok F j r (emit_object_get a n x)"
  unfolding emit_object_get_def
  by (rule node_okI, rule rule_raise) (rule hoare_then emit_rules n[THEN rule_child(1)] | simp; fail | auto simp: max_def; fail)+

lemma node_object_get_indirect:
  assumes n: "node_ok F j r n" "node_ok F j r n1"
  shows "node_ok F j r (emit_object_get_indirect a n n1)"
  unfolding emit_object_get_indirect_def
  by (rule node_okI, rule rule_raise) (rule hoare_then emit_rules n[THEN rule_child(1)] | simp; fail | auto simp: max_def; fail)+

lemma node_object_put:
  assumes n: "node_ok F j r n" "node_ok F j r n1"
  shows "node_ok F j r (emit_object_put a n x n1)"
  unfolding emit_object_put_def
  by (rule node_okI, rule rule_raise) (rule hoare_then emit_rules n[THEN rule_child(1)] | simp; fail | auto simp: max_def; fail)+

lemma node_object_put_indirect:
  assumes n: "node_ok F j r n" "node_ok F j r n1" "node_ok F j r n2"
  shows "node_ok F j r (emit_object_put_indirect a n n1 n2)"
  unfolding emit_object_put_indirect_def
  by (rule node_okI, rule rule_raise) (rule hoare_then emit_rules n[THEN rule_child(1)] | simp; fail | auto simp: max_def; fail)+

lemma node_object_has:
  assumes n: "node_ok F j r n"
  shows "node_ok F j r (emit_object_has a n x)"
  unfolding emit_object_has_def
  by (rule node_okI, rule rule_raise) (rule hoare_then emit_rules n[THEN rule_child(1)] | simp; fail | auto simp: max_def; fail)+

lemma node_object_has_indirect:
  assumes n: "node_ok F j r n" "node_ok F j r n1"
  shows "node_ok F j r (emit_object_has_indirect a n n1)"
  unfolding emit_object_has_indirect_def
  by (rule node_okI, rule rule_raise) (rule hoare_then emit_rules n[THEN rule_child(1)] | simp; fail | auto simp: max_def; fail)+

lemma node_get_at:
  assumes n: "node_ok F j r n" "node_ok F j r n1"
  shows "node_ok F j r (emit_get_at a n n1)"
  unfolding emit_get_at_def
  by (rule node_okI, rule rule_raise) (rule hoare_then emit_rules n[THEN rule_child(1)] | simp; fail | auto simp: max_def; fail)+

lemma node_set_at:
  assumes n: "node_ok F j r n" "node_ok F j r n1" "node_ok F j r n2"
  shows "node_ok F j r (emit_set_at a n n1 n2)"
  unfolding emit_set_at_def
  by (rule node_okI, rule rule_raise) (rule hoare_then emit_rules n[THEN rule_child(1)] | simp; fail | auto simp: max_def; fail)+


lemma node_preserve: "node_ok F j r emit_preserve"
  unfolding emit_preserve_def by (rule node_okI) (rule hoare_then emit_rules | simp; fail)+

lemma node_self: "node_ok F j r (emit_self a u)"
proof (rule node_okI)
  fix tail op cl L t K Op S M c
  assume *: "(S::nat) \<le> M"
  have "hoare (stage F (max L (Suc S)) t K Op S M c) (if 0 < u then e_instruction (scope_get u) (C_slot S # scope_get_cells u @ [C_entry 0])
      else e_instruction I_SELF [C_slot S]) (\<lambda>_. stage F (max L (Suc S)) t K Op S M True)"
    by (auto simp: scope_get_def scope_get_cells_def intro!: rule_instruction)
  then have "hoare (stage F L t K Op S M c) (e_then (e_when tail (f_emit_safe_point a)) (e_then (e_slot 0 (\<lambda>slot.
           if 0 < u then e_instruction (scope_get u) (slot # scope_get_cells u @ [C_entry 0])
           else e_instruction I_SELF [slot])) (e_then f_push (e_then (f_at a) (e_return Op_temporary)))))
        (\<lambda>x e. x = Op_temporary \<and> stage F L t K Op (Suc S) (max M (Suc S)) False e)"
    by - (rule rule_raise, (rule hoare_then emit_rules | assumption | simp; fail)+)
  moreover have "hoare (stage F L t K Op S M c) (e_return Op_temporary) (\<lambda>x e. x = Op_temporary \<and> stage F L t K Op S M False e)"
    using * by (intro rule_finish) auto
  ultimately show "hoare (stage F L t K Op S M c) (emit_self a u tail op cl)
      (\<lambda>x e. x = Op_temporary \<and> stage F L t K Op (if cl then S else Suc S) (if cl then M else max M (Suc S)) False e)"
    by (simp add: emit_self_def)
qed

subsection \<open>Operands\<close>

lemma node_ok_operandI:
  assumes "\<And>tail cl L t K Op S M c. targets_ok F j r t K M \<Longrightarrow> frame_privates F \<le> S \<Longrightarrow> (tail \<Longrightarrow> S = frame_privates F) \<Longrightarrow> S \<le> M \<Longrightarrow>
      hoare (stage F L t K Op S M c) (n tail False cl)
        (\<lambda>x e. x = Op_temporary \<and> stage F L t K Op (if cl then S else Suc S) (if cl then M else max M (Suc S)) False e)"
    and "\<And>tail cl L t K Op S M c e. stage F L t K Op S M c e \<Longrightarrow> targets_ok F j r t K M \<Longrightarrow> frame_privates F \<le> S \<Longrightarrow>
      (tail \<Longrightarrow> S = frame_privates F) \<Longrightarrow> S \<le> M \<Longrightarrow>
      runs (\<lambda>x e1. x \<noteq> Op_temporary \<and> operand_ok F x \<and> stage F L t K Op S M False e1 \<and> (number_literal x \<longrightarrow> e1 = e)) (n tail True cl e)"
  shows "node_ok F j r n"
  unfolding node_ok_def
proof (intro allI impI, elim conjE)
  fix tail op cl L t K Op S M c e
  assume a: "stage F L t K Op S M c e" "targets_ok F j r t K M" "frame_privates F \<le> S" "tail \<longrightarrow> S = frame_privates F"
  let ?Q = "node_post F L t K Op S M op cl e"
  have SM: "S \<le> M" using stageD(6)[OF a(1)] .
  show "runs ?Q (n tail op cl e)"
  proof (cases op)
    case True
    have "runs ?Q (n tail True cl e)"
      by (rule runs_mono[OF assms(2)[OF a(1-3) _ SM]]) (use a SM True in \<open>auto simp: result_size_def max_absorb1\<close>)
    then show ?thesis using True by simp
  next
    case False
    have "runs (\<lambda>x e. x = Op_temporary \<and> stage F L t K Op (if cl then S else Suc S) (if cl then M else max M (Suc S)) False e) (n tail False cl e)"
      using assms(1)[OF a(2,3) _ SM, of tail L Op c cl] a by (simp add: hoare_def)
    then have "runs ?Q (n tail False cl e)" by (rule runs_mono) (use SM in \<open>auto simp: result_size_def max_absorb1\<close>)
    then show ?thesis using False by simp
  qed
qed

lemma rule_return_finish: "S \<le> M \<Longrightarrow> hoare (stage F L t K Op S M c) (e_return Op_temporary) (\<lambda>x e. x = Op_temporary \<and> stage F L t K Op S M False e)"
  by (rule rule_finish) auto

lemma literal_operand_cell: "operand_ok F v \<Longrightarrow> frame_privates F \<le> z \<Longrightarrow> operand_cell z (literal_cell v)"
  by (cases v) auto

lemma label_operands_simps [simp]:
  "label_operands (literal_instruction tail v) = {}" "label_operands (scope_get u) = {}"
  by (cases v; simp) (simp add: scope_get_def)

lemma scope_get_operands [simp]: "x \<in> set (scope_get_cells u) \<Longrightarrow> operand_cell z x"
  by (auto simp: scope_get_cells_def split: if_splits)

lemma node_literal:
  assumes v: "operand_ok F v" "v \<noteq> Op_temporary"
  shows "node_ok F j r (emit_literal a v)"
proof (rule node_ok_operandI)
  fix tail cl L t K Op S M c
  assume *: "targets_ok F j r t K M" "frame_privates F \<le> S" "S \<le> M"
  have cell: "operand_cell (max (max L (Suc S)) M) (literal_cell v)" using literal_operand_cell[OF v(1)] * by (simp add: max_def)
  have "hoare (stage F L t K Op S M c) (e_then
        (if tail then e_then (f_emit_safe_point a) (e_instruction (literal_instruction True v) [literal_cell v])
         else e_slot 0 (\<lambda>slot. e_instruction (literal_instruction False v) [slot, literal_cell v]))
        (e_then f_push (e_then (f_at a) (e_return Op_temporary))))
      (\<lambda>x e. x = Op_temporary \<and> stage F L t K Op (Suc S) (max M (Suc S)) False e)"
    by (cases tail; simp only: if_True if_False; rule rule_raise) (rule hoare_then emit_rules | (simp add: cell; fail))+
  then show "hoare (stage F L t K Op S M c) (emit_literal a v tail False cl)
      (\<lambda>x e. x = Op_temporary \<and> stage F L t K Op (if cl then S else Suc S) (if cl then M else max M (Suc S)) False e)"
    using * by (simp add: emit_literal_def rule_return_finish)
next
  fix tail cl L t K Op S M c e
  assume "stage F L t K Op S M c e" "S \<le> M"
  then show "runs (\<lambda>x e1. x \<noteq> Op_temporary \<and> operand_ok F x \<and> stage F L t K Op S M False e1 \<and> (number_literal x \<longrightarrow> e1 = e))
      (emit_literal a v tail True cl e)"
    using v by (auto simp: emit_literal_def intro: stage_weaken)
qed

lemma node_null: "node_ok F j r (emit_null a)"
proof (rule node_ok_operandI)
  fix tail cl L t K Op S M c
  assume *: "targets_ok F j r t K M" "frame_privates F \<le> S" "S \<le> M"
  have "hoare (stage F L t K Op S M c) (e_then
        (if tail then e_then (f_emit_safe_point a) (e_then (e_instruction I_RETURN_NUL []) f_push) else f_emit_null)
        (e_then (f_at a) (e_return Op_temporary)))
      (\<lambda>x e. x = Op_temporary \<and> stage F L t K Op (Suc S) (max M (Suc S)) False e)"
    by (cases tail; simp only: if_True if_False; rule rule_raise) (rule hoare_then emit_rules | (simp; fail))+
  then show "hoare (stage F L t K Op S M c) (emit_null a tail False cl)
      (\<lambda>x e. x = Op_temporary \<and> stage F L t K Op (if cl then S else Suc S) (if cl then M else max M (Suc S)) False e)"
    using * by (simp add: emit_null_def rule_return_finish)
next
  fix tail cl L t K Op S M c e
  assume "stage F L t K Op S M c e" "S \<le> M"
  then show "runs (\<lambda>x e1. x \<noteq> Op_temporary \<and> operand_ok F x \<and> stage F L t K Op S M False e1 \<and> (number_literal x \<longrightarrow> e1 = e))
      (emit_null a tail True cl e)"
    by (auto simp: emit_null_def intro: stage_weaken)
qed

subsection \<open>Variables\<close>

lemma finish_push:
  assumes "hoare (stage F (max L (Suc S)) t K Op S M c) m (\<lambda>_. stage F (max L (Suc S)) t K Op S M True)" "S \<le> M"
  shows "hoare (stage F L t K Op S M c) (e_then m (e_then f_push (e_then (f_at a) (e_done cl))))
    (\<lambda>x e. x = Op_temporary \<and> stage F L t K Op (if cl then S else Suc S) (if cl then M else max M (Suc S)) False e)"
  by (rule rule_raise, rule hoare_then[OF assms(1)])
    (insert assms(2), (rule hoare_then emit_rules | simp; fail | auto simp: max_def; fail)+)

lemma symbol_get_instruction:
  assumes "label_operands i = {}" "\<forall>x \<in> set cs. operand_cell (max (max L (Suc S)) M) x"
  shows "hoare (stage F (max L (Suc S)) t K Op S M c) (e_then (e_when tail (f_emit_safe_point a)) (e_slot 0 (\<lambda>slot. e_instruction i (slot # cs))))
    (\<lambda>_. stage F (max L (Suc S)) t K Op S M True)"
  by (rule hoare_then emit_rules | simp add: assms; fail)+

lemma symbol_get_found:
  assumes i: "index < frame_privates F" "frame_privates F \<le> S" "S \<le> M"
  shows "hoare (stage F (max L (Suc S)) t K Op S M c)
      (if tail then e_then (f_emit_safe_point a) (e_instruction I_RETURN [C_slot index])
       else e_slot 0 (\<lambda>slot. e_instruction I_STACK_GET [slot, C_slot index])) (\<lambda>_. stage F (max L (Suc S)) t K Op S M True)"
  by (insert i, cases tail; simp only: if_True if_False) (rule hoare_then emit_rules | auto; fail)+

lemma node_symbol_get:
  assumes F: "function_ok F" and v: "\<forall>v \<in> set_option (snd found). variable_ok (frame_privates F) v"
  shows "node_ok F j r (emit_symbol_get a x found)"
proof -
  obtain u vo where fd: "found = (u, vo)" by (cases found)
  consider (global) "vo = None" | (shared) v i where "vo = Some v" "v_index v = Some i" "v_shared v"
    | (local) v i where "vo = Some v" "v_index v = Some i" "\<not> v_shared v" "i < frame_privates F"
    using v fd by (cases vo) (auto simp: variable_ok_def split: option.splits)
  then show ?thesis
  proof cases
    case global
    show ?thesis
      by (rule node_okI) (simp only: emit_symbol_get_def fd global Let_def prod.case option.case, rule finish_push,
          rule symbol_get_instruction, simp_all)
  next
    case (shared v i)
    show ?thesis
      by (rule node_okI) (simp only: emit_symbol_get_def fd shared Let_def prod.case option.case e_index_def if_True, rule finish_push,
          rule symbol_get_instruction, auto)
  next
    case (local v i)
    show ?thesis
    proof (rule node_ok_operandI)
      fix tail cl L t K Op S M c
      assume *: "targets_ok F j r t K M" "frame_privates F \<le> S" "S \<le> M"
      show "hoare (stage F L t K Op S M c) (emit_symbol_get a x found tail False cl)
          (\<lambda>x e. x = Op_temporary \<and> stage F L t K Op (if cl then S else Suc S) (if cl then M else max M (Suc S)) False e)"
        unfolding emit_symbol_get_def fd Let_def prod.case local(1) option.case e_index_def local(2) if_not_P[OF local(3)] if_False
        using * by (intro hoare_keep rule_assign_private(2)[OF local(4) F] finish_push symbol_get_found[OF local(4)]) simp_all
    next
      fix tail cl L t K Op S M c e
      assume st: "stage F L t K Op S M c e" and *: "frame_privates F \<le> S" "S \<le> M"
      have "hoare (stage F L t K Op S M c) (e_then (initialize_private i) (e_return (Op_variable i))) (\<lambda>x e. x = Op_variable i \<and> stage F L t K Op S M c e)"
        using * by (intro hoare_keep rule_assign_private(2)[OF local(4) F] rule_return) simp
      then have "runs (\<lambda>x e. x = Op_variable i \<and> stage F L t K Op S M c e) (emit_symbol_get a x found tail True cl e)"
        using st local by (simp add: hoare_def emit_symbol_get_def fd e_index_def)
      then show "runs (\<lambda>x e1. x \<noteq> Op_temporary \<and> operand_ok F x \<and> stage F L t K Op S M False e1 \<and> (number_literal x \<longrightarrow> e1 = e))
          (emit_symbol_get a x found tail True cl e)"
        by (rule runs_mono) (use local(4) *(2) in \<open>auto intro: stage_weaken\<close>)
    qed
  qed
qed

lemma node_scope_put:
  assumes F: "function_ok F" and v: "variable_ok (frame_privates F) v" and n: "node_ok F j r n"
  shows "node_ok F j r (emit_scope_put a u (Some v) n)"
proof -
  consider (shared) i where "v_index v = Some i" "v_shared v" | (local) i where "v_index v = Some i" "\<not> v_shared v" "i < frame_privates F"
    using v by (auto simp: variable_ok_def split: option.splits)
  then show ?thesis
  proof cases
    case (shared i)
    show ?thesis
    proof (rule node_okI)
      fix tail op cl L t K Op S M c
      assume *: "targets_ok F j r t K M" "frame_privates F \<le> S" "S \<le> M"
      have "hoare (stage F (max L (Suc S)) t K Op (Suc S) (max M (Suc S)) False)
          (e_slot 1 (\<lambda>slot. if 0 < u then e_instruction I_SCOPE_PUT [slot, C_size u, C_entry i] else e_instruction I_SCOPE_PUT0 [slot, C_entry i]))
          (\<lambda>_. stage F (max L (Suc S)) t K Op (Suc S) (max M (Suc S)) True)"
        by (rule rule_slots) (auto intro!: rule_instruction)
      note put = this
      show "hoare (stage F L t K Op S M c) (emit_scope_put a u (Some v) n tail op cl)
          (\<lambda>x e. x = Op_temporary \<and> stage F L t K Op (if cl then S else Suc S) (if cl then M else max M (Suc S)) False e)"
        unfolding emit_scope_put_def e_null_def e_index_def option.case shared(1) if_P[OF shared(2)]
        by (insert * shared, simp only: not_True_eq_False simp_thms if_False, rule rule_raise)
          (rule hoare_then put emit_rules n[THEN rule_child(1)] | simp; fail | auto simp: max_def; fail)+
    qed
  next
    case (local i)
    show ?thesis
    proof (rule node_okI)
      fix tail op cl L t K Op S M c
      assume *: "targets_ok F j r t K M" "frame_privates F \<le> S" "S \<le> M"
      note steps = rule_assign_private(1)[OF local(3) F] n[THEN rule_child(1)]
      have "hoare (stage F L t K Op S M c) (e_then (n False False False) (e_then (f_emit_safe_point a)
          (e_then (e_then (assign_private i) (e_slot 1 (\<lambda>slot. e_instruction I_STACK_PUT [slot, C_slot i])))
            (e_then (f_at a) (e_done False)))))
          (\<lambda>x e. x = Op_temporary \<and> stage F L t K Op (Suc S) (max M (Suc S)) False e)"
        by (insert * local, rule rule_raise) (rule hoare_then steps emit_rules | simp; fail | auto simp: max_def; fail)+
      moreover have "hoare (stage F L t K Op S M c) (e_bind (n False True False) (\<lambda>operand. e_then (f_emit_safe_point a)
          (e_then (assign_private i) (e_then (put_operand i operand) (e_then (f_at a) (e_return Op_temporary))))))
          (\<lambda>x e. x = Op_temporary \<and> stage F L t K Op S M False e)"
      proof (rule rule_operand[OF n])
        fix x assume x: "operand_ok F x" "x \<noteq> Op_temporary"
        have "hoare (stage F L t K Op S M False) (put_operand i x) (\<lambda>_. stage F L t K Op S M True)"
          using x local * by (cases x) (auto intro!: rule_instruction)
        then show "hoare (stage F L t K Op S M False) (e_then (f_emit_safe_point a)
            (e_then (assign_private i) (e_then (put_operand i x) (e_then (f_at a) (e_return Op_temporary)))))
            (\<lambda>x e. x = Op_temporary \<and> stage F L t K Op S M False e)"
          using * by (intro hoare_keep[OF rule_safe_point] hoare_keep[OF steps(1)]) (erule hoare_then, intro hoare_keep[OF rule_at] rule_finish, auto)
      qed (insert * local, (simp only: put_operand.simps | rule hoare_then steps emit_rules | simp; fail | auto simp: max_def; fail)+)
      ultimately show "hoare (stage F L t K Op S M c) (emit_scope_put a u (Some v) n tail op cl)
          (\<lambda>x e. x = Op_temporary \<and> stage F L t K Op (if cl then S else Suc S) (if cl then M else max M (Suc S)) False e)"
        using local by (cases cl) (simp_all add: emit_scope_put_def e_null_def e_index_def)
    qed
  qed
qed

subsection \<open>Operators\<close>

fun plain_result :: "t_value result \<Rightarrow> bool" where
  "plain_result (Inl x) = folding_error x"
| "plain_result (Inr v) = (value_operand v \<noteq> Op_temporary)"

lemma value_operand_bool [simp]: "value_operand (V_bool c) \<noteq> Op_temporary"
  by (simp add: V_bool_def)

lemma plain_folds:
  "plain_result (f_throw_not_supported :: t_value result)" "plain_result (s_divide a b)" "plain_result (s_modulus a b)"
  "plain_result (left_shift a b)" "plain_result (u_right_shift a b)"
  by (auto simp: f_throw_not_supported_def s_divide_def s_modulus_def left_shift_def u_right_shift_def shift_count_def bind_result_def
      folding_error_def)

lemma fold_ii_plain: "plain_result (fold_ii op a b)"
  by (cases op) (simp_all add: plain_folds)

lemma fold_if_plain: "plain_result (fold_if op a b)"
  by (cases op) (simp_all add: plain_folds)

lemma fold_fi_plain: "plain_result (fold_fi op a b)"
  by (cases op) (simp_all add: plain_folds)

lemma fold_ff_plain: "plain_result (fold_ff op a b)"
  by (cases op) (simp_all add: plain_folds)

lemma fold_binary_plain:
  assumes "fold_binary op (number_operand x) (number_operand y) = Some res"
  shows "number_literal x \<and> number_literal y \<and> plain_result res"
  using assms by (cases x; cases y) (auto simp: fold_ii_plain fold_if_plain fold_fi_plain fold_ff_plain)

lemma fold_unary_plain:
  assumes "fold_unary op (number_operand x) = Some res"
  shows "number_literal x \<and> plain_result res"
  using assms by (cases x; cases op) (auto simp: plain_folds)

text \<open>A folded node leaves the state as it was before its operands, and goes on as a literal.\<close>

definition pushed :: "t_emit \<Rightarrow> t_emit" where
  "pushed e = update_code (\<lambda>c. c\<lparr>v_size := max (v_size c) (Suc (v_stack e))\<rparr>) (e\<lparr>v_stack := Suc (v_stack e)\<rparr>)"

lemma f_push_pushed: "f_push e = Inr ((), pushed e)"
  by (simp add: f_push_def e_modify_def pushed_def)

lemma stage_pushed: "stage F L t K Op S M c e \<Longrightarrow> stage F L t K Op (Suc S) (max M (Suc S)) c (pushed e)"
  using rule_push[of F L t K Op S M c] by (simp add: hoare_def f_push_pushed)

lemma f_pop_pushed:
  "e_then f_pop k (pushed e) = k (e\<lparr>v_code := (v_code e)\<lparr>v_size := max (v_size (v_code e)) (Suc (v_stack e))\<rparr>\<rparr>)"
  "e_then f_pop (e_then f_pop k) (pushed (pushed e)) =
     k (e\<lparr>v_code := (v_code e)\<lparr>v_size := max (max (v_size (v_code e)) (Suc (v_stack e))) (Suc (Suc (v_stack e)))\<rparr>\<rparr>)"
  by (simp_all add: pushed_def e_then_def e_bind_def f_pop_def e_state_def e_modify_def bind_result_def update_code_def)

lemma folded_runs:
  assumes res: "plain_result res"
    and st: "stage F L t K Op S M c e" "targets_ok F j r t K M" "frame_privates F \<le> S" "tail \<Longrightarrow> S = frame_privates F"
  shows "runs (node_post F L t K Op S M op cl e) (emit_folded a (v_size (v_code e)) res tail op cl (e\<lparr>v_code := (v_code e)\<lparr>v_size := z\<rparr>\<rparr>))"
proof -
  let ?e = "e\<lparr>v_code := (v_code e)\<lparr>v_size := z\<rparr>\<rparr>"
  have "update_code (\<lambda>c. c\<lparr>v_size := v_size (v_code e)\<rparr>) ?e = e" by (cases e) (simp add: update_code_def)
  then have eq: "emit_folded a (v_size (v_code e)) res tail op cl ?e =
      (case res of Inl x \<Rightarrow> Inl x | Inr v \<Rightarrow> emit_literal a (value_operand v) tail op cl e)"
    by (simp add: emit_folded_def e_then_def e_bind_def e_modify_def bind_result_def split: sum.split)
  show ?thesis
  proof (cases res)
    case (Inr v)
    then have "value_operand v \<noteq> Op_temporary" "operand_ok F (value_operand v)" using res by (cases v; simp)+
    then have "node_ok F j r (emit_literal a (value_operand v))" by (intro node_literal)
    from node_okD[OF this st] show ?thesis unfolding eq by (simp add: Inr)
  next
    case (Inl x)
    then show ?thesis using res unfolding eq by simp
  qed
qed

lemma rule_operand_push:
  assumes "S \<le> M"
  shows "hoare (stage F L t K Op (result_size x False S) (max M (result_size x False S)) c) (e_when (x \<noteq> Op_temporary) f_push)
    (\<lambda>_. stage F L t K Op (Suc S) (max M (Suc S)) c)"
  using assms by (simp add: result_size_def e_when_def rule_skip rule_push max_absorb1)

lemma operand_cells_ok: "operand_ok F x \<Longrightarrow> frame_privates F \<le> z \<Longrightarrow> y \<in> set (operand_cells x) \<Longrightarrow> operand_cell z y"
  by (auto simp: operand_cells_def literal_operand_cell split: if_splits)

lemma node_post_temporary:
  assumes "hoare P m (\<lambda>x e1. x = Op_temporary \<and> stage F L t K Op (if cl then S else Suc S) (if cl then M else max M (Suc S)) False e1)"
    "P e1" "S \<le> M"
  shows "runs (node_post F L t K Op S M op cl e) (m e1)"
  by (rule runs_mono[OF assms(1)[unfolded hoare_def, rule_format, OF assms(2)]]) (use assms(3) in \<open>auto simp: result_size_def max_absorb1\<close>)

lemma unary_code_ok:
  assumes x: "operand_ok F x" and S: "frame_privates F \<le> S" "S \<le> M" "tail \<Longrightarrow> S = frame_privates F"
  shows "hoare (stage F L t K Op (result_size x False (Suc S)) (max (max M (Suc S)) (result_size x False (Suc S))) c)
      (unary_code a uop x tail cl)
      (\<lambda>x e1. x = Op_temporary \<and> stage F L t K Op (if cl then S else Suc S) (if cl then M else max M (Suc S)) False e1)"
proof (rule stage_hoare_raise[where ?L1.0 = "Suc S"])
  have cells: "y \<in> set (operand_cells x) \<Longrightarrow> operand_cell (max (max L (Suc S)) (max (max M (Suc S)) (Suc (Suc S)))) y" for y
    using operand_cells_ok[OF x] S(1,2) by (simp add: max_def)
  show "hoare (stage F (max L (Suc S)) t K Op (result_size x False (Suc S)) (max (max M (Suc S)) (result_size x False (Suc S))) c)
      (unary_code a uop x tail cl)
      (\<lambda>x e1. x = Op_temporary \<and> stage F L t K Op (if cl then S else Suc S) (if cl then M else max M (Suc S)) False e1)"
    unfolding unary_code_def
    by (insert S) (rule hoare_then rule_operand_push emit_rules | (simp add: cells; fail) | (auto simp: max_def; fail))+
qed

lemma binary_code_ok:
  assumes x: "operand_ok F x" "operand_ok F y" and S: "frame_privates F \<le> S" "S \<le> M" "tail \<Longrightarrow> S = frame_privates F"
  shows "hoare (stage F L t K Op (result_size y False (Suc (Suc S))) (max (max (max M (Suc S)) (Suc (Suc S))) (result_size y False (Suc (Suc S)))) c)
      (binary_code a bop x y tail cl)
      (\<lambda>x e1. x = Op_temporary \<and> stage F L t K Op (if cl then S else Suc S) (if cl then M else max M (Suc S)) False e1)"
proof (rule stage_hoare_raise[where ?L1.0 = "Suc S"])
  let ?z = "max (max L (Suc S)) (max (max (max M (Suc S)) (Suc (Suc S))) (Suc (Suc (Suc S))))"
  have "frame_privates F \<le> ?z" using S(1,2) by simp
  then have cells: "v \<in> set (operand_cells x) \<Longrightarrow> operand_cell ?z v" "v \<in> set (operand_cells y) \<Longrightarrow> operand_cell ?z v" for v
    using operand_cells_ok x by blast+
  show "hoare (stage F (max L (Suc S)) t K Op (result_size y False (Suc (Suc S)))
        (max (max (max M (Suc S)) (Suc (Suc S))) (result_size y False (Suc (Suc S)))) c)
      (binary_code a bop x y tail cl)
      (\<lambda>x e1. x = Op_temporary \<and> stage F L t K Op (if cl then S else Suc S) (if cl then M else max M (Suc S)) False e1)"
    unfolding binary_code_def
    by (insert S) (rule hoare_then rule_operand_push emit_rules | (auto simp: cells; fail) | (auto simp: max_def; fail))+
qed

lemma node_unary:
  assumes n: "node_ok F j r n"
  shows "node_ok F j r (emit_unary a uop n)"
  unfolding node_ok_def
proof (intro allI impI, elim conjE)
  fix tail op cl L t K Op S M c e
  assume a: "stage F L t K Op S M c e" "targets_ok F j r t K M" "frame_privates F \<le> S" "tail \<longrightarrow> S = frame_privates F"
  let ?Q = "node_post F L t K Op S M op cl e"
  have SM: "S \<le> M" using stageD(6)[OF a(1)] .
  have go: "runs ?Q ((case fold_unary uop (number_operand x) of
         Some res \<Rightarrow> e_then f_pop (emit_folded a (v_size (v_code e)) res tail op cl)
       | None \<Rightarrow> unary_code a uop x tail cl) e1)"
    if post: "node_post F L t K Op (Suc S) (max M (Suc S)) True False (pushed e) x e1" for x e1
  proof (cases "fold_unary uop (number_operand x)")
    case (Some res)
    then have "number_literal x" "plain_result res" using fold_unary_plain by blast+
    then show ?thesis using post Some folded_runs[OF _ a(1-3)] a(4) by (simp add: f_pop_pushed(1) del: runs_simps(5))
  next
    case None
    have "operand_ok F x" using post by simp
    then show ?thesis unfolding None option.case
      by (rule node_post_temporary[OF unary_code_ok[OF _ a(3) SM] conjunct1[OF post] SM]) (rule a(4)[rule_format])
  qed
  note st = node_okD[OF n stage_pushed[OF a(1)] targets_max[OF a(2)], of False False True]
  show "runs ?Q (emit_unary a uop n tail op cl e)"
    using runs_mono[OF st go] a(3) by (simp add: emit_unary_def f_push_pushed)
qed

lemma node_binary:
  assumes n: "node_ok F j r n" "node_ok F j r n1"
  shows "node_ok F j r (emit_binary a bop n n1)"
  unfolding node_ok_def
proof (intro allI impI, elim conjE)
  fix tail op cl L t K Op S M c e
  assume a: "stage F L t K Op S M c e" "targets_ok F j r t K M" "frame_privates F \<le> S" "tail \<longrightarrow> S = frame_privates F"
  let ?Q = "node_post F L t K Op S M op cl e"
  let ?M = "max (max M (Suc S)) (Suc (Suc S))"
  have SM: "S \<le> M" using stageD(6)[OF a(1)] .
  have go: "runs ?Q ((case fold_binary bop (number_operand x) (number_operand y) of
         Some res \<Rightarrow> e_then f_pop (e_then f_pop (emit_folded a (v_size (v_code e)) res tail op cl))
       | None \<Rightarrow> binary_code a bop x y tail cl) e2)"
    if x: "operand_ok F x" "number_literal x \<longrightarrow> e1 = pushed (pushed e)"
      and post: "node_post F L t K Op (Suc (Suc S)) ?M True False e1 y e2" for x y e1 e2
  proof (cases "fold_binary bop (number_operand x) (number_operand y)")
    case (Some res)
    then have "number_literal x" "number_literal y" "plain_result res" using fold_binary_plain by blast+
    then show ?thesis
      using x post Some folded_runs[OF _ a(1-3)] a(4) by (simp add: f_pop_pushed(2) del: runs_simps(5))
  next
    case None
    have "operand_ok F y" using post by simp
    then show ?thesis unfolding None option.case
      by (rule node_post_temporary[OF binary_code_ok[OF x(1) _ a(3) SM] conjunct1[OF post] SM]) (rule a(4)[rule_format])
  qed
  have second: "runs (\<lambda>_ e2. runs (\<lambda>y e3. runs ?Q ((case fold_binary bop (number_operand x) (number_operand y) of
         Some res \<Rightarrow> e_then f_pop (e_then f_pop (emit_folded a (v_size (v_code e)) res tail op cl))
       | None \<Rightarrow> binary_code a bop x y tail cl) e3)) (n1 False True False e2)) (e_when (x \<noteq> Op_temporary) f_push e1)"
    if post: "node_post F L t K Op (Suc S) (max M (Suc S)) True False (pushed e) x e1" for x e1
  proof -
    have "runs (\<lambda>_ e2. stage F L t K Op (Suc (Suc S)) ?M False e2) (e_when (x \<noteq> Op_temporary) f_push e1)"
      using rule_operand_push[of "Suc S" "max M (Suc S)" F L t K Op x False] post by (simp add: hoare_def)
    moreover have "runs (\<lambda>_ e2. number_literal x \<longrightarrow> e2 = pushed (pushed e)) (e_when (x \<noteq> Op_temporary) f_push e1)"
      using post by (auto simp: e_when_def e_skip_def f_push_pushed)
    ultimately have "runs (\<lambda>_ e2. stage F L t K Op (Suc (Suc S)) ?M False e2 \<and> (number_literal x \<longrightarrow> e2 = pushed (pushed e)))
        (e_when (x \<noteq> Op_temporary) f_push e1)"
      by (auto simp: runs_def split: sum.splits)
    then show ?thesis
    proof (rule runs_mono, elim conjE)
      fix e2 assume st: "stage F L t K Op (Suc (Suc S)) ?M False e2" and num: "number_literal x \<longrightarrow> e2 = pushed (pushed e)"
      show "runs (\<lambda>y e3. runs ?Q ((case fold_binary bop (number_operand x) (number_operand y) of
         Some res \<Rightarrow> e_then f_pop (e_then f_pop (emit_folded a (v_size (v_code e)) res tail op cl))
       | None \<Rightarrow> binary_code a bop x y tail cl) e3)) (n1 False True False e2)"
        using runs_mono[OF node_okD[OF n(2) st, of False False True] go[OF _ num]] post a(2,3) by simp
    qed
  qed
  note st = node_okD[OF n(1) stage_pushed[OF a(1)] targets_max[OF a(2)], of False False True]
  show "runs ?Q (emit_binary a bop n n1 tail op cl e)"
    using runs_mono[OF st second] a(3) by (simp add: emit_binary_def f_push_pushed)
qed

subsection \<open>Calls\<close>

definition target_ok :: "t_scope \<times> nat \<Rightarrow> bool \<Rightarrow> bool \<Rightarrow> unit emit \<Rightarrow> bool" where
  "target_ok F j r m \<longleftrightarrow> (\<forall>L t K Op S M c. targets_ok F j r t K M \<longrightarrow> frame_privates F \<le> S \<longrightarrow> S \<le> M \<longrightarrow>
     hoare (stage F L t K Op S M c) m (\<lambda>_. stage F L t K Op (Suc (Suc S)) (max M (Suc (Suc S))) False))"

lemma rule_stage_done:
  assumes "hoare P m (\<lambda>_. stage F L t K Op S M c)" "L \<le> max L1 M" "M1 \<le> M" "S \<le> M1" "c1 \<longrightarrow> c"
  shows "hoare P m (\<lambda>_. stage F L1 t K Op S M1 c1)"
  by (rule hoare_weaken[OF assms(1)]) (use assms(2-) in \<open>auto intro: stage_weaken\<close>)

lemma target_plain:
  assumes n: "node_ok F j r n"
  shows "target_ok F j r (emit_target n)"
  unfolding target_ok_def emit_target_def
  by (intro allI impI, rule stage_hoare_raise[where ?L1.0 = "Suc (Suc S)" for S], rule rule_stage_done)
    (rule hoare_then emit_rules n[THEN rule_child(1)] | simp; fail | auto simp: max_def; fail)+

lemma target_method:
  assumes n: "node_ok F j r n"
  shows "target_ok F j r (emit_method a n x)"
  unfolding target_ok_def emit_method_def
  by (intro allI impI, rule stage_hoare_raise[where ?L1.0 = "Suc (Suc S)" for S], rule rule_stage_done)
    (rule hoare_then emit_rules n[THEN rule_child(1)] | simp; fail | auto simp: max_def; fail)+

lemma target_bind:
  assumes n: "node_ok F j r n" "node_ok F j r n1"
  shows "target_ok F j r (emit_bind a n n1)"
  unfolding target_ok_def emit_bind_def
  by (intro allI impI, rule stage_hoare_raise[where ?L1.0 = "Suc (Suc S)" for S], rule rule_stage_done)
    (rule hoare_then emit_rules n[THEN rule_child(1)] | simp; fail | auto simp: max_def; fail)+

lemma rule_each:
  assumes "\<forall>n \<in> set ns. node_ok F j r n" "targets_ok F j r t K M" "frame_privates F \<le> S" "S \<le> M"
  shows "hoare (stage F L t K Op S M c) (emit_each ns) (\<lambda>_. stage F L t K Op (S + length ns) (max M (S + length ns)) False)"
  using assms
proof (induction ns arbitrary: S M c)
  case Nil
  then show ?case by (auto simp: max_absorb1 intro!: rule_stage_done[OF rule_skip])
next
  case (Cons n ns)
  have n: "node_ok F j r n" using Cons.prems by simp
  have "hoare (stage F L t K Op (Suc S) (max M (Suc S)) False) (emit_each ns)
      (\<lambda>_. stage F L t K Op (Suc S + length ns) (max (max M (Suc S)) (Suc S + length ns)) False)"
    using Cons by (intro Cons.IH) simp_all
  moreover have "max (max M (Suc S)) (Suc S + length ns) = max M (S + length (n # ns))" by (simp add: max_def)
  ultimately show ?case
    using hoare_then[OF rule_child(1)[OF n Cons.prems(2,3)]] by simp
qed

lemma rule_pops: "hoare (stage F L t K Op (S + n) M c) (f_pops n) (\<lambda>_. stage F L t K Op S M c)"
  by (induction n) (auto intro: rule_skip hoare_then[OF rule_pop])

lemma rule_expands:
  "hoare (stage F L t K Op S M True) (emit_expands n i es) (\<lambda>_. stage F L t K Op S M True)"
proof (induction n i es rule: emit_expands.induct)
  case (2 n i a index es)
  then show ?case by (auto intro!: hoare_keep rule_at rule_cells)
qed (auto intro!: rule_cells)

lemma call_instruction_labels [simp]: "label_operands (call_instruction get b tail) = {}"
  by (auto simp: call_instruction_def split: option.split if_splits)

lemma rule_call_index:
  assumes "\<forall>(u, v) \<in> set_option get. variable_ok (frame_privates F) v" "frame_privates F \<le> M"
  shows "hoare (stage F L t K Op S M True)
    (case get of None \<Rightarrow> e_skip | Some (u, v) \<Rightarrow> e_index v (\<lambda>index. e_cells [if v_shared v then C_entry index else C_slot index]))
    (\<lambda>_. stage F L t K Op S M True)"
  using assms by (auto simp: rule_skip e_index_def variable_ok_def split: option.splits intro!: rule_cells)

lemma node_call:
  assumes get: "\<forall>(u, v) \<in> set_option get. variable_ok (frame_privates F) v" and tg: "target_ok F j r m"
    and ns: "\<forall>n \<in> set ns. node_ok F j r n"
  shows "node_ok F j r (emit_call a get m ns es)"
proof (rule node_okI)
  fix tail op cl L t K Op S M c
  assume *: "targets_ok F j r t K M" "frame_privates F \<le> S" "tail \<Longrightarrow> S = frame_privates F" "S \<le> M"
  let ?M = "max M (Suc (Suc S))"
  have first: "hoare (stage F (max L (Suc S)) t K Op S M c) (case get of None \<Rightarrow> m | Some _ \<Rightarrow> e_then f_push f_push)
      (\<lambda>_. stage F (max L (Suc S)) t K Op (Suc (Suc S)) ?M False)"
  proof (cases get)
    case None
    then show ?thesis using tg * by (simp add: target_ok_def)
  next
    case (Some p)
    then show ?thesis by (auto intro!: rule_stage_done[OF hoare_then[OF rule_push rule_push]] simp: max_def)
  qed
  have each: "hoare (stage F (max L (Suc S)) t K Op (Suc (Suc S)) ?M False) (emit_each ns)
      (\<lambda>_. stage F (max L (Suc S)) t K Op (Suc (Suc S) + length ns) (max ?M (Suc (Suc S) + length ns)) False)"
    using * by (intro rule_each[OF ns]) auto
  have index: "hoare (stage F (max L (Suc S)) t K Op S (max ?M (Suc (Suc S) + length ns)) True)
      (case get of None \<Rightarrow> e_skip | Some (u, v) \<Rightarrow> e_index v (\<lambda>index. e_cells [if v_shared v then C_entry index else C_slot index]))
      (\<lambda>_. stage F (max L (Suc S)) t K Op S (max ?M (Suc (Suc S) + length ns)) True)"
    using * by (intro rule_call_index[OF get]) simp
  have expands: "hoare (stage F L1 t K Op S M1 True) (e_when (es \<noteq> []) (emit_expands n i es)) (\<lambda>_. stage F L1 t K Op S M1 True)" for L1 M1 n i
    by (simp add: e_when_def rule_skip rule_expands)
  show "hoare (stage F L t K Op S M c) (emit_call a get m ns es tail op cl)
      (\<lambda>x e. x = Op_temporary \<and> stage F L t K Op (if cl then S else Suc S) (if cl then M else max M (Suc S)) False e)"
    unfolding emit_call_def
    by (insert *, rule rule_raise)
      (rule hoare_then[OF first] hoare_then[OF each] hoare_then[OF index] hoare_then rule_pops expands emit_rules
        | simp; fail | auto simp: max_def; fail)+
qed

subsection \<open>Blocks\<close>

lemma node_nodes:
  assumes "\<forall>n \<in> set ns. node_ok F j r n"
  shows "node_ok F j r (emit_nodes ns)"
proof (rule node_okI)
  fix tail op cl L t K Op S M c
  assume *: "targets_ok F j r t K M" "frame_privates F \<le> S" "tail \<Longrightarrow> S = frame_privates F" "S \<le> M"
  show "hoare (stage F L t K Op S M c) (emit_nodes ns tail op cl)
      (\<lambda>x e. x = Op_temporary \<and> stage F L t K Op (if cl then S else Suc S) (if cl then M else max M (Suc S)) False e)"
    using assms
  proof (induction ns arbitrary: c)
    case Nil
    have "hoare (stage F L t K Op S M c) (e_then f_emit_null (e_return Op_temporary))
        (\<lambda>x e. x = Op_temporary \<and> stage F L t K Op (Suc S) (max M (Suc S)) False e)"
      by (rule rule_raise) (rule hoare_then emit_rules | simp; fail)+
    then show ?case using *(4) by (auto simp: e_when_def intro!: hoare_keep rule_skip rule_return_finish)
  next
    case (Cons n ns)
    have n: "node_ok F j r n" using Cons.prems by simp
    have "hoare (stage F L t K Op S M c) (e_then (n tail False cl) (e_return Op_temporary))
        (\<lambda>x e. x = Op_temporary \<and> stage F L t K Op (if cl then S else Suc S) (if cl then M else max M (Suc S)) False e)"
      by (rule hoare_then[OF node_hoare[OF n *(1-3)] rule_finish]) (use *(4) in auto)
    moreover have "hoare (stage F L t K Op S M c) (e_then (n False False True) (emit_nodes ns tail op cl))
        (\<lambda>x e. x = Op_temporary \<and> stage F L t K Op (if cl then S else Suc S) (if cl then M else max M (Suc S)) False e)"
      using Cons by (intro hoare_then[OF rule_child(2)[OF n *(1,2)]]) auto
    ultimately show ?case by simp
  qed
qed

subsection \<open>Control flow\<close>

lemma rule_condition:
  assumes n: "\<forall>n \<in> set_option co. node_ok F j r n" and "targets_ok F j r t K M" "frame_privates F \<le> S" "S \<le> M" "l \<in> K"
  shows "hoare (stage F L t K Op S M c) (emit_condition co l) (\<lambda>_. stage F L t K Op S M False)"
proof (cases co)
  case None
  then show ?thesis using assms by (auto simp: emit_condition_def intro!: rule_stage_done[OF rule_skip])
next
  case (Some n)
  then have n: "node_ok F j r n" using assms by simp
  show ?thesis unfolding emit_condition_def Some option.case
    by (insert assms(2-), rule rule_stage_done) (rule hoare_then emit_rules n[THEN rule_child(1)] | simp; fail | auto simp: max_def; fail)+
qed

lemma rule_optional:
  assumes n: "\<forall>n \<in> set_option no. node_ok F j r n" and "targets_ok F j r t K M" "frame_privates F \<le> S" "S \<le> M"
  shows "hoare (stage F L t K Op S M c) (emit_optional no) (\<lambda>_. stage F L t K Op S M False)"
proof (cases no)
  case None
  then show ?thesis using assms by (auto simp: emit_optional_def intro!: rule_stage_done[OF rule_skip])
next
  case (Some n)
  then have "node_ok F j r n" using assms by simp
  from rule_child(2)[OF this assms(2,3)] show ?thesis
    by (auto simp: emit_optional_def Some intro: hoare_then rule_skip)
qed

text \<open>The rules for joins in terms of \<open>junction_ok\<close>.\<close>

lemma rule_junction:
  assumes "junction_ok F j"
  shows "frame_privates F \<le> M \<Longrightarrow> hoare (stage F L t K Op S M c) (f_join j) (\<lambda>_. stage F L t K Op S M c)"
    "hoare (stage F L t K Op S M c) (f_merge j) (\<lambda>_. stage F L t K Op S M c)"
  using assms rule_join rule_merge by (auto simp: junction_ok_def)

lemma node_if:
  assumes J: "junction_ok F J" and co: "\<forall>n \<in> set_option co. node_ok F j r n" and n: "node_ok F j r n" "node_ok F j r n1"
  shows "node_ok F j r (emit_if J co n n1)"
  unfolding emit_if_def
proof (rule node_okI, rule rule_f_label, rule hoare_then[OF rule_condition[OF co]], goal_cases)
  case (5 tail op cl L t K Op S M c l0)
  note * = this
  let ?S = "if cl then S else Suc S"
  let ?M = "if cl then M else max M (Suc S)"
  note steps = n(1)[THEN node_hoare, of t "insert l0 K" M S tail] n(2)[THEN node_hoare, of t _ ?M S tail] rule_junction[OF J]
  show ?case
  proof (rule hoare_state)
    fix e assume st: "stage F L t (insert l0 K) (insert l0 Op) S M False e"
    have restore: "hoare (stage F L t K1 Op1 S1 ?M c1) (e_modify (\<lambda>e1. e1\<lparr>v_emit_privates := v_emit_privates e, v_stack := v_stack e\<rparr>))
        (\<lambda>_. stage F L t K1 Op1 S ?M c1)" for K1 Op1 S1 c1
      using rule_restore[OF stageD(3)[OF st], of "v_stack e" ?M] stageD(5)[OF st] *(4) by auto
    show "hoare (stage F L t (insert l0 K) (insert l0 Op) S M False)
       (e_then (n tail False cl) (e_then (f_join J) (e_bind f_label (\<lambda>l1. e_then (e_jump l1) (e_then (t_emit_f_target l0)
         (e_then (e_modify (\<lambda>e1. e1\<lparr>v_emit_privates := v_emit_privates e, v_stack := v_stack e\<rparr>))
         (e_then (n1 tail False cl) (e_then (f_join J) (e_then (t_emit_f_target l1) (e_then (f_merge J) (e_return Op_temporary)))))))))))
       (\<lambda>x e. x = Op_temporary \<and> stage F L t K Op ?S ?M False e)"
      by (insert *) (rule hoare_then restore steps emit_rules | (auto intro: targets_mono; fail))+
  qed
qed auto

lemma loop_targets_ok:
  assumes "targets_ok F j r (v_targets e) K M" "l \<in> K" "l1 \<in> K" "junction_ok F J" "junction_ok F J1"
    "frame_privates F \<le> v_stack e" "v_stack e \<le> M" "tail \<Longrightarrow> v_stack e = frame_privates F"
  shows "targets_ok F True r (loop_targets e l J tail cl l1 J1) K M"
  using assms by (auto simp: targets_ok_def jump_ok_def result_ok_def loop_targets_def)

lemma rule_with_targets:
  assumes "hoare (stage F L t1 K Op S M c) m (\<lambda>_. stage F L t1 K Op S1 M1 c1)"
  shows "hoare (stage F L t K Op S M c) (with_targets t1 m) (\<lambda>_. stage F L t K Op S1 M1 c1)"
  unfolding with_targets_def
  by (rule hoare_state, rule hoare_then[OF rule_set_targets], rule hoare_then[OF assms]) (use rule_set_targets in \<open>auto simp: stageD(4)\<close>)

lemma rule_loop_body:
  assumes n: "node_ok F True r n" and t: "targets_ok F j r t K M" "l \<in> K" "l1 \<in> K" "junction_ok F J" "junction_ok F J1"
    "frame_privates F \<le> S" "S \<le> M" "tail \<Longrightarrow> S = frame_privates F"
  shows "hoare (stage F L t K Op S M c) (e_state (\<lambda>e. with_targets (loop_targets e l J tail cl l1 J1) (e_then (n False False True) e_skip)))
    (\<lambda>_. stage F L t K Op S M False)"
proof (rule hoare_state, rule rule_with_targets)
  fix e assume st: "stage F L t K Op S M c e"
  have "targets_ok F True r (loop_targets e l J tail cl l1 J1) K M"
    using t by (intro loop_targets_ok[where j = j]) (simp_all add: stageD(4,5)[OF st])
  from hoare_then[OF rule_child(2)[OF n this t(6)] rule_skip]
  show "hoare (stage F L (loop_targets e l J tail cl l1 J1) K Op S M c) (e_then (n False False True) e_skip)
     (\<lambda>_. stage F L (loop_targets e l J tail cl l1 J1) K Op S M False)" .
qed

lemma when_simps: "e_when True m = m" "e_when False m = e_skip"
  by (simp_all add: e_when_def)

lemma rule_loop_null:
  assumes "S \<le> M"
  shows "hoare (stage F L t K Op S M c) (e_when (\<not> cl) f_emit_null)
     (\<lambda>_. stage F L t K Op (if cl then S else Suc S) (if cl then M else max M (Suc S)) False)"
proof (cases cl)
  case True
  then show ?thesis using assms by (auto simp: e_when_def intro: rule_stage_done[OF rule_skip])
next
  case False
  have "hoare (stage F L t K Op S M c) f_emit_null (\<lambda>_. stage F L t K Op (Suc S) (max M (Suc S)) False)"
    by (rule rule_raise, rule rule_stage_done[OF rule_emit_null]) auto
  then show ?thesis using False by (simp add: e_when_def)
qed

lemma node_while:
  assumes J: "junction_ok F J" "junction_ok F J1" and co: "\<forall>n \<in> set_option co. node_ok F j r n" and n: "node_ok F True r n"
  shows "node_ok F j r (emit_while J J1 co n)"
  unfolding emit_while_def
  by (rule node_okI)
    (rule hoare_then rule_junction[OF J(1)] rule_junction[OF J(2)] rule_condition[OF co] rule_loop_body[OF n, where j = j] rule_loop_null emit_rules
      | (auto simp: J intro: targets_mono; fail))+

lemma node_for:
  assumes J: "junction_ok F J" "junction_ok F J1" "junction_ok F J2"
    and co: "\<forall>n \<in> set_option no. node_ok F j r n" "\<forall>n \<in> set_option co. node_ok F j r n" "\<forall>n \<in> set_option so. node_ok F j r n"
    and n: "node_ok F True r n"
  shows "node_ok F j r (emit_for J J1 J2 no co so n)"
proof -
  note steps = rule_junction[OF J(1)] rule_junction[OF J(3)] rule_optional[OF co(1)] rule_condition[OF co(2)] rule_optional[OF co(3)]
    rule_loop_body[OF n, where j = j] rule_loop_null
  show ?thesis
  proof (cases so)
    case None
    have "e_bind (if so = None then e_return l else f_label) k = k l" for l and k :: "nat \<Rightarrow> t_operand emit"
      using None by (intro ext) (simp add: e_bind_def e_return_def bind_result_def)
    then show ?thesis
      unfolding emit_for_def None
      by (simp add: when_simps) (rule node_okI, (rule hoare_then steps emit_rules | (auto simp: J intro: targets_mono; fail))+)
  next
    case (Some s)
    have eq: "(so = None) = False" "(so \<noteq> None) = True" using Some by simp_all
    show ?thesis
      unfolding emit_for_def eq(1) if_False not_False_eq_True when_simps
      by (rule node_okI, (rule hoare_then steps emit_rules | (auto simp: J intro: targets_mono; fail))+)
  qed
qed

subsection \<open>Jumps\<close>

lemma rule_targets:
  assumes "\<And>e. stage F L t K Op S M c e \<Longrightarrow> v_targets e = t \<Longrightarrow> v_stack e = S \<Longrightarrow> hoare (stage F L t K Op S M c) (h e) Q"
  shows "hoare (stage F L t K Op S M c) (e_state h) Q"
  by (rule hoare_state) (use assms stageD(4,5) in blast)

lemma node_break:
  assumes n: "node_ok F j r n" and j
  shows "node_ok F j r (emit_break n)"
  unfolding emit_break_def Let_def
proof (rule node_okI, rule rule_targets)
  fix tail op cl L t K Op S M c e
  assume *: "targets_ok F j r t K M" "frame_privates F \<le> S" "S \<le> M" and e: "v_targets e = t" "v_stack e = S"
  obtain l J where t: "v_break t = Some l" "l \<in> K" "v_break_junction t = Some J" "junction_ok F J"
      "frame_privates F \<le> v_break_stack t" "v_break_stack t \<le> M" "v_break_is_tail t \<Longrightarrow> v_break_stack t = frame_privates F"
    using *(1) \<open>j\<close> by (auto simp: targets_ok_def jump_ok_def result_ok_def)
  show "hoare (stage F L t K Op S M c)
     (e_then (set_stack (v_break_stack (v_targets e))) (e_then (n (v_break_is_tail (v_targets e)) False (v_break_must_clear (v_targets e)))
       (e_then (set_stack (v_stack e)) (e_then (e_when (\<not> cl) f_push) (e_then (e_null (v_break_junction (v_targets e)) f_join)
       (e_then (e_null (v_break (v_targets e)) e_jump) (e_return Op_temporary)))))))
     (\<lambda>x e. x = Op_temporary \<and> stage F L t K Op (if cl then S else Suc S) (if cl then M else max M (Suc S)) False e)"
    unfolding e t(1,3) e_null_def option.case
    by (insert * t) (rule hoare_then rule_set_stack node_hoare[OF n] rule_junction[OF t(4)] emit_rules | (auto; fail) | (auto simp: max_def; fail))+
qed

lemma node_continue:
  assumes j
  shows "node_ok F j r (emit_continue a)"
proof -
  have jump: "hoare (stage F L t K Op S M c) (e_state (\<lambda>e. e_then (e_null (v_continue (v_targets e)) e_jump) (e_return Op_temporary))) Q"
    if t: "targets_ok F j r t K M" and k: "\<And>l. l \<in> K \<Longrightarrow> hoare (stage F L t K Op S M c) (e_then (e_jump l) (e_return Op_temporary)) Q" for L t K Op S M c Q
  proof (rule rule_targets)
    fix e assume e: "v_targets e = t"
    obtain l where "v_continue t = Some l" "l \<in> K" using t assms by (auto simp: targets_ok_def jump_ok_def)
    then show "hoare (stage F L t K Op S M c) (e_then (e_null (v_continue (v_targets e)) e_jump) (e_return Op_temporary)) Q"
      using k by (simp add: e e_null_def)
  qed
  show ?thesis unfolding emit_continue_def
    by (rule node_okI) (rule hoare_then[OF rule_when_push] hoare_then jump emit_rules | (auto; fail) | (auto simp: max_def; fail))+
qed

lemma node_return:
  assumes n: "node_ok F j r n" and r
  shows "node_ok F j r (emit_return n)"
  unfolding emit_return_def Let_def
proof (rule node_okI, rule rule_targets)
  fix tail op cl L t K Op S M c e
  assume *: "targets_ok F j r t K M" "frame_privates F \<le> S" "S \<le> M" and e: "v_targets e = t" "v_stack e = S"
  obtain l J where t: "v_return t = Some l" "l \<in> K" "v_return_junction t = Some J" "junction_ok F J"
      "frame_privates F \<le> v_return_stack t" "v_return_stack t \<le> M" "v_return_is_tail t \<Longrightarrow> v_return_stack t = frame_privates F"
    using *(1) \<open>r\<close> by (auto simp: targets_ok_def jump_ok_def result_ok_def)
  have jump: "hoare (stage F L t K Op (Suc (v_return_stack t)) (max M (Suc (v_return_stack t))) c1)
      (if v_return_is_tail t then e_then (assert_tail True 1) (e_slot 1 (\<lambda>slot. e_instruction I_RETURN [slot]))
       else e_then (f_join J) (e_jump l)) (\<lambda>_. stage F L t K Op (Suc (v_return_stack t)) (max M (Suc (v_return_stack t))) True)" for c1
    by (insert t *, cases "v_return_is_tail t"; simp only: if_True if_False)
      (rule hoare_then rule_junction[OF t(4)] emit_rules | (auto; fail))+
  show "hoare (stage F L t K Op S M c)
     (e_then (set_stack (v_return_stack (v_targets e))) (e_then (n (v_return_is_tail (v_targets e)) False False)
       (e_then (if v_return_is_tail (v_targets e) then e_then (assert_tail True 1) (e_slot 1 (\<lambda>slot. e_instruction I_RETURN [slot]))
          else e_then (e_null (v_return_junction (v_targets e)) f_join) (e_null (v_return (v_targets e)) e_jump))
       (e_then (set_stack (v_stack e)) (e_then (e_when (\<not> cl) f_push) (e_return Op_temporary))))))
     (\<lambda>x e. x = Op_temporary \<and> stage F L t K Op (if cl then S else Suc S) (if cl then M else max M (Suc S)) False e)"
    unfolding e t(1,3) e_null_def option.case
    by (insert * t) (rule hoare_then rule_set_stack node_hoare[OF n, where cl = False, simplified] jump emit_rules | (auto; fail) | (auto simp: max_def; fail))+
qed

subsection \<open>Exceptions\<close>

lemma rule_finally: "hoare (stage F L t K Op S M c) (e_finally x) (\<lambda>_. stage F L t K Op S M True)"
  unfolding e_finally_def by (rule rule_instruction) auto

lemma rule_when_pop:
  "hoare (stage F L t K Op (if cl then S else Suc S) M c) (e_when (\<not> cl) f_pop) (\<lambda>_. stage F L t K Op S M c)"
  by (simp add: e_when_def rule_skip rule_pop)

lemma catch_variable:
  assumes "catch_ok (frame_privates F) k found"
  obtains v i where "found = Some v" "v_index v = Some i" "v_shared v \<or> i < frame_privates F"
  using assms by (auto simp: catch_ok_def split: option.splits)

lemma rule_emit_catch:
  assumes n: "node_ok F j r n" "node_ok F j r b" and v: "catch_ok (frame_privates F) (snd F) found"
    and t: "targets_ok F j r t K M" "frame_privates F \<le> S" "S \<le> M"
  shows "hoare (stage F L t K Op (if cl then S else Suc S) M c) (emit_catch cl n found b)
    (\<lambda>_. stage F L t K Op (if cl then S else Suc S) (max M (Suc S)) False)"
proof -
  obtain w i where w: "found = Some w" "v_index w = Some i" "v_shared w \<or> i < frame_privates F" using v by (rule catch_variable)
  have cell: "operand_cell (max L (max M (Suc S))) (if v_shared w then C_not_entry i else C_slot i)" using w(3) t by auto
  show ?thesis
    unfolding emit_catch_def w(1) e_null_def e_index_def option.case w(2)
    apply (rule hoare_then[OF rule_when_pop])
    apply (rule hoare_then[OF rule_child(1)[OF n(1) t(1,2)]])
    apply (rule rule_f_label)
    apply (rule hoare_then[OF rule_pop])
    apply (rule hoare_then[OF rule_catch], simp, rule cell)
    apply (rule hoare_then[OF node_hoare[OF n(2)]])
       apply (use t in auto)[3]
    apply (rule hoare_then[OF rule_finally])
    apply (rule hoare_weaken[OF rule_target[OF insertI1]], assumption)
    apply (erule stage_weaken)
    using t by (auto simp: max_def)
qed

lemma rule_catches:
  assumes "\<forall>(n, found, b) \<in> set cs. node_ok F j r n \<and> catch_ok (frame_privates F) (snd F) found \<and> node_ok F j r b"
    and t: "targets_ok F j r t K M" "frame_privates F \<le> S" "S \<le> M" "(if cl then S else Suc S) \<le> M"
  shows "hoare (stage F L t K Op (if cl then S else Suc S) M c) (emit_catches cl cs)
    (\<lambda>_. stage F L t K Op (if cl then S else Suc S) (if cs = [] then M else max M (Suc S)) False)"
  using assms
proof (induction cs arbitrary: M c)
  case Nil
  then show ?case by (auto intro!: rule_stage_done[OF rule_skip])
next
  case (Cons p cs)
  obtain n found b where p: "p = (n, found, b)" by (cases p)
  then have n: "node_ok F j r n" "node_ok F j r b" "catch_ok (frame_privates F) (snd F) found" using Cons.prems by auto
  have "hoare (stage F L t K Op (if cl then S else Suc S) (max M (Suc S)) False) (emit_catches cl cs)
      (\<lambda>_. stage F L t K Op (if cl then S else Suc S) (if cs = [] then max M (Suc S) else max (max M (Suc S)) (Suc S)) False)"
    using Cons.prems by (intro Cons.IH) auto
  then have "hoare (stage F L t K Op (if cl then S else Suc S) (max M (Suc S)) False) (emit_catches cl cs)
      (\<lambda>_. stage F L t K Op (if cl then S else Suc S) (max M (Suc S)) False)"
    by (simp split: if_splits)
  then show ?case
    unfolding p emit_catches.simps if_not_P[OF list.distinct(2)] by (rule hoare_then[OF rule_emit_catch[OF n Cons.prems(2-4)]])
qed

lemma try_targets_ok:
  assumes "targets_ok F j r t K M" "K \<subseteq> K1" "b \<in> K1" "k \<in> K1" "l \<in> K1" "junction_ok F J" "frame_privates F \<le> S" "S \<le> M"
  shows "targets_ok F j r (try_targets t S J b k l) K1 M"
  using assms by (auto simp: targets_ok_def jump_ok_def result_ok_def try_targets_def)

lemma hoare_ex: "(\<And>x. hoare (P x) m Q) \<Longrightarrow> hoare (\<lambda>e. \<exists>x. P x e) m Q"
  by (auto simp: hoare_def)

lemma hoare_conj: "(b \<Longrightarrow> hoare P m Q) \<Longrightarrow> hoare (\<lambda>e. b \<and> P e) m Q"
  by (auto simp: hoare_def)

lemma rule_try_body:
  assumes J: "junction_ok F J" and n: "node_ok F j r n"
    and cs: "\<forall>(n, found, b) \<in> set cs. node_ok F j r n \<and> catch_ok (frame_privates F) (snd F) found \<and> node_ok F j r b"
    and t: "targets_ok F j r t K M" "frame_privates F \<le> S" "S \<le> M" "l \<in> K"
  shows "hoare (stage F L t K Op S M c) (emit_try_body J S l n cs cl)
    (\<lambda>_ e. \<exists>t1. stage F L t1 K (Op - {l}) (if cl then S else Suc S) (if cl \<and> cs = [] then M else max M (Suc S)) True e)"
  unfolding emit_try_body_def
proof (rule rule_targets, rule rule_f_label, rule rule_f_label, rule rule_f_label, rule hoare_then[OF rule_set_targets])
  fix e l1 l2 l3
  assume e: "v_targets e = t" and l: "l1 \<notin> Op" "l2 \<notin> insert l1 Op" "l3 \<notin> insert l2 (insert l1 Op)"
  let ?t = "try_targets (v_targets e) S J l1 l2 l3"
  let ?K = "insert l3 (insert l2 (insert l1 K))"
  have tt: "targets_ok F j r ?t ?K M" unfolding e by (rule try_targets_ok[OF t(1)]) (use J t in auto)
  show "hoare (stage F L ?t ?K (insert l3 (insert l2 (insert l1 Op))) S M c)
     (e_then (n False False cl) (e_then (e_finally c_try__STEP) (e_then (t_emit_f_target l) (e_then (emit_catches cl cs)
       (e_then (e_finally c_try__THROW) (e_then (t_emit_f_target l1) (e_then (e_finally c_try__BREAK) (e_then (t_emit_f_target l2)
       (e_then (e_finally c_try__CONTINUE) (e_then (t_emit_f_target l3) (e_finally c_try__RETURN)))))))))))
     (\<lambda>_ e. \<exists>t1. stage F L t1 K (Op - {l}) (if cl then S else Suc S) (if cl \<and> cs = [] then M else max M (Suc S)) True e)"
    apply (rule hoare_then[OF node_hoare[OF n tt t(2)]], simp)
    apply (rule hoare_then[OF rule_finally])
    apply (rule hoare_then[OF rule_target], simp add: t)
    apply (rule hoare_then[OF rule_catches[OF cs]])
        apply (use tt t in auto)[4]
    apply (rule hoare_then[OF rule_finally])
    apply (rule hoare_then[OF rule_target], simp)
    apply (rule hoare_then[OF rule_finally])
    apply (rule hoare_then[OF rule_target], simp)
    apply (rule hoare_then[OF rule_finally])
    apply (rule hoare_then[OF rule_target], simp)
    apply (rule hoare_weaken[OF rule_finally], assumption)
    apply (rule exI[of _ ?t], erule stage_weaken)
    using l t by (auto simp: max_def)
qed

text \<open>The operands of \<open>YRT\<close> and the joins behind it.\<close>

definition yrt_post :: "t_scope \<times> nat \<Rightarrow> nat \<Rightarrow> t_targets \<Rightarrow> nat set \<Rightarrow> nat set \<Rightarrow> nat \<Rightarrow> nat \<Rightarrow> nat option \<Rightarrow> nat option \<Rightarrow> t_emit \<Rightarrow> bool" where
  "yrt_post F L t K Op S M lo a e \<longleftrightarrow> ((a \<noteq> None \<longrightarrow> lo \<noteq> None) \<and> set_option a \<inter> Op = {}) \<and>
     stage F L t (set_option a \<union> K) (set_option a \<union> Op) S M True e"

lemma rule_needs_join:
  assumes "junction_ok F J" "\<And>b. hoare (stage F L t K Op S M c) (f b) Q"
  shows "hoare (stage F L t K Op S M c) (needs_join 0 J f) Q"
proof -
  have "hoare (stage F L t K Op S M c) (needs_join i J f) Q" if "i + length J \<le> frame_privates F - snd F" for i
    using that
  proof (induction J arbitrary: i)
    case (Cons x xs)
    then have "i < frame_privates F - snd F" "Suc i + length xs \<le> frame_privates F - snd F" by simp_all
    then show ?case using Cons.IH assms(2) by (auto intro!: rule_private)
  qed (simp add: assms(2))
  then show ?thesis using assms(1) by (simp add: junction_ok_def)
qed

lemma rule_yrt_operand:
  assumes "jump_ok F K lo Jo"
  shows "hoare (stage F L t K Op S M True) (yrt_operand s lo Jo s1) (yrt_post F L t K Op S M lo)"
proof (cases lo)
  case None
  have "hoare (stage F L t K Op S M True) (e_then (e_cells [C_size 0]) (e_return None)) (\<lambda>x e. x = None \<and> stage F L t K Op S M True e)"
    by (intro hoare_keep rule_cells rule_return) simp
  then show ?thesis unfolding yrt_operand_def None by (auto simp: yrt_post_def elim!: hoare_weaken)
next
  case (Some l)
  then obtain J where J: "Jo = Some J" "junction_ok F J" "l \<in> K" using assms by (auto simp: jump_ok_def)
  have "hoare (stage F L t K Op S M True) yrt_jump (yrt_post F L t K Op S M lo)"
    unfolding yrt_jump_def
  proof (rule rule_f_label)
    fix l assume "l \<notin> Op"
    have "hoare (stage F L t (insert l K) (insert l Op) S M True) (e_then (e_label l) (e_return (Some l)))
        (\<lambda>x e. x = Some l \<and> stage F L t (insert l K) (insert l Op) S M True e)"
      by (intro hoare_keep rule_label rule_return) simp
    then show "hoare (stage F L t (insert l K) (insert l Op) S M True) (e_then (e_label l) (e_return (Some l))) (yrt_post F L t K Op S M lo)"
      by (rule hoare_weaken) (use \<open>l \<notin> Op\<close> Some in \<open>auto simp: yrt_post_def\<close>)
  qed
  moreover have "hoare (stage F L t K Op S M True) (e_then (e_label l) (e_return None)) (\<lambda>x e. x = None \<and> stage F L t K Op S M True e)"
    using J by (intro hoare_keep rule_label rule_return)
  then have "hoare (stage F L t K Op S M True) (e_then (e_label l) (e_return None)) (yrt_post F L t K Op S M lo)"
    by (rule hoare_weaken) (auto simp: yrt_post_def)
  ultimately show ?thesis
    unfolding yrt_operand_def Some option.case e_null_def J(1) by (auto intro: rule_needs_join[OF J(2)])
qed

lemma rule_yrt_join:
  assumes "jump_ok F K lo Jo" "a \<noteq> None \<longrightarrow> lo \<noteq> None" "set_option a \<subseteq> K" "s < max L M" "frame_privates F \<le> M"
  shows "hoare (stage F L t K Op S M c) (yrt_join s a lo Jo s1) (\<lambda>_. stage F L t K (Op - set_option a) S M False)"
proof (cases a)
  case None
  then show ?thesis unfolding yrt_join_def by (auto intro!: hoare_weaken[OF rule_skip] intro: stage_weaken dest: stageD(6))
next
  case (Some l)
  then obtain l1 J where J: "lo = Some l1" "l1 \<in> K" "Jo = Some J" "junction_ok F J" using assms by (auto simp: jump_ok_def)
  have get: "hoare (stage F L t K Op1 S M False) (e_when (s1 < s) (e_instruction I_STACK_GET [C_slot s1, C_slot s])) (\<lambda>_. stage F L t K Op1 S M False)" for Op1
    unfolding e_when_def using assms(4) by (auto intro!: rule_skip hoare_weaken[OF rule_instruction] intro: stage_weaken dest: stageD(6))
  show ?thesis
    unfolding yrt_join_def Some option.case e_null_def J(1,3)
    apply (rule hoare_then[OF rule_target], use assms(3) Some in simp)
    apply (rule hoare_keep[OF get])
    apply (rule hoare_keep[OF rule_junction(1)[OF J(4) assms(5)]])
    apply (rule hoare_weaken[OF rule_jump[OF J(2)]], assumption)
    by (auto intro: stage_weaken dest: stageD(6))
qed

definition step_post :: "t_scope \<times> nat \<Rightarrow> nat \<Rightarrow> t_targets \<Rightarrow> nat set \<Rightarrow> nat set \<Rightarrow> nat \<Rightarrow> nat \<Rightarrow> nat option \<Rightarrow> t_emit \<Rightarrow> bool" where
  "step_post F L t K Op S M a e \<longleftrightarrow> set_option a \<inter> Op = {} \<and> stage F L t (set_option a \<union> K) (set_option a \<union> Op) S M False e"

lemma rule_yrt_step:
  assumes "S \<le> M"
  shows "hoare (stage F L t K Op S M c)
    (if b then e_return None else e_bind f_label (\<lambda>step. e_then (e_jump step) (e_return (Some step)))) (step_post F L t K Op S M)"
proof -
  have "hoare (stage F L t K Op S M c) (e_return None) (step_post F L t K Op S M)"
    by (rule hoare_weaken[OF rule_return]) (use assms in \<open>auto simp: step_post_def intro: stage_weaken\<close>)
  moreover have "hoare (stage F L t K Op S M c) (e_bind f_label (\<lambda>step. e_then (e_jump step) (e_return (Some step)))) (step_post F L t K Op S M)"
  proof (rule rule_f_label, rule hoare_then[OF rule_jump[OF insertI1]], rule hoare_weaken[OF rule_return])
    show "l \<notin> Op \<Longrightarrow> x = Some l \<and> stage F L t (insert l K) (insert l Op) S M True e \<Longrightarrow> step_post F L t K Op S M x e" for l x e
      using assms by (auto simp: step_post_def intro: stage_weaken)
  qed
  ultimately show ?thesis by simp
qed

lemma rule_step_target:
  "S \<le> M \<Longrightarrow> set_option a \<subseteq> K \<Longrightarrow> hoare (stage F L t K Op S M c) (case a of None \<Rightarrow> e_skip | Some l \<Rightarrow> t_emit_f_target l)
     (\<lambda>_. stage F L t K (Op - set_option a) S M False)"
  by (cases a) (auto intro: rule_target intro!: rule_stage_done[OF rule_skip])

lemma hoare_yrt_post:
  "((a \<noteq> None \<longrightarrow> lo \<noteq> None) \<and> set_option a \<inter> Op = {} \<Longrightarrow> hoare (stage F L t (set_option a \<union> K) (set_option a \<union> Op) S M True) m Q) \<Longrightarrow>
   hoare (yrt_post F L t K Op S M lo a) m Q"
  unfolding yrt_post_def by (rule hoare_conj)

lemma hoare_step_post:
  "(set_option a \<inter> Op = {} \<Longrightarrow> hoare (stage F L t (set_option a \<union> K) (set_option a \<union> Op) S M False) m Q) \<Longrightarrow>
   hoare (step_post F L t K Op S M a) m Q"
  unfolding step_post_def by (rule hoare_conj)

lemma jump_mono: "jump_ok F K l J \<Longrightarrow> K \<subseteq> K1 \<Longrightarrow> jump_ok F K1 l J"
  by (auto simp: jump_ok_def)

lemma rule_yrt:
  assumes t: "targets_ok F j r t K M" and s: "s < max L M" "frame_privates F \<le> M" "S \<le> M"
  shows "hoare (stage F L t1 K Op S M c) (emit_yrt s t) (\<lambda>_. stage F L t1 K Op S M False)"
proof -
  have jumps: "jump_ok F K (v_break t) (v_break_junction t)" "jump_ok F K (v_continue t) (v_continue_junction t)"
      "jump_ok F K (v_return t) (v_return_junction t)" using t by (auto simp: targets_ok_def)
  note operand = rule_yrt_operand[OF jump_mono[OF jumps(1)]] rule_yrt_operand[OF jump_mono[OF jumps(2)]] rule_yrt_operand[OF jump_mono[OF jumps(3)]]
  note join = rule_yrt_join[OF jump_mono[OF jumps(1)]] rule_yrt_join[OF jump_mono[OF jumps(2)]] rule_yrt_join[OF jump_mono[OF jumps(3)]]
  show ?thesis
    unfolding emit_yrt_def Let_def
    apply (rule hoare_then[OF rule_instruction], simp, simp)
    apply (rule hoare_bind[OF operand(1)], blast, rule hoare_yrt_post)
    apply (rule hoare_bind[OF operand(2)], blast, rule hoare_yrt_post)
    apply (rule hoare_bind[OF operand(3)], blast, rule hoare_yrt_post)
    apply (rule hoare_bind[OF rule_yrt_step[OF s(3)]], rule hoare_step_post)
    apply (rule hoare_then[OF join(1)], blast, blast, blast, rule s, rule s)
    apply (rule hoare_then[OF join(2)], blast, blast, blast, rule s, rule s)
    apply (rule hoare_then[OF join(3)], blast, blast, blast, rule s, rule s)
    apply (rule hoare_weaken[OF rule_step_target[OF s(3) Un_upper1]], assumption)
    apply (erule stage_weaken, simp, simp, rule s(3), blast)
     apply (elim conjE, fast)
    by simp
qed

lemma no_targets_ok: "targets_ok F False False no_targets K M"
  by (simp add: targets_ok_def jump_ok_def result_ok_def no_targets_def)

lemma rule_when_push_pop:
  "hoare (stage F L t K Op S M c) (e_when cl f_push) (\<lambda>_. stage F L t K Op (if cl then Suc S else S) (if cl then max M (Suc S) else M) c)"
  "hoare (stage F L t K Op (if cl then Suc S else S) M c) (e_when cl f_pop) (\<lambda>_. stage F L t K Op S M c)"
  by (simp_all add: e_when_def rule_skip rule_push rule_pop)

lemma rule_final:
  assumes n: "\<forall>n \<in> set_option f. node_ok F False False n" and S: "frame_privates F \<le> S" "S \<le> M" "(if cl then S else Suc S) \<le> M"
    and f: "f = None \<Longrightarrow> Suc S \<le> M"
  shows "hoare (stage F L t K Op (if cl then S else Suc S) M c)
    (case f of None \<Rightarrow> e_skip
      | Some n \<Rightarrow> e_then (set_targets no_targets) (e_then (e_when cl f_push) (e_then (n False False True) (e_when cl f_pop))))
    (\<lambda>_ e. \<exists>t1. stage F L t1 K Op (if cl then S else Suc S) (max M (Suc S)) False e)"
proof (cases f)
  case None
  then show ?thesis
    using f S(3) by (auto intro!: hoare_weaken[OF rule_skip] exI[of _ t] intro: stage_weaken)
next
  case (Some m)
  then have m: "node_ok F False False m" using n by simp
  have "hoare (stage F L t K Op (if cl then S else Suc S) M c)
      (e_then (set_targets no_targets) (e_then (e_when cl f_push) (e_then (m False False True) (e_when cl f_pop))))
      (\<lambda>_. stage F L no_targets K Op (if cl then S else Suc S) (max M (Suc S)) False)"
    apply (rule hoare_then[OF rule_set_targets])
    apply (rule hoare_then[OF rule_when_push_pop(1)])
    apply (rule hoare_then[OF rule_child(2)[OF m no_targets_ok]])
    subgoal using S by auto
    apply (rule rule_stage_done[OF rule_when_push_pop(2)])
    using S by (auto simp: max_def)
  then show ?thesis unfolding Some option.case by (rule hoare_weaken) blast+
qed

lemma node_try:
  assumes J: "junction_ok F J" "junction_ok F J1" and n: "node_ok F j r n"
    and cs: "\<forall>(n, found, b) \<in> set cs. node_ok F j r n \<and> catch_ok (frame_privates F) (snd F) found \<and> node_ok F j r b"
    and f: "\<forall>n \<in> set_option f. node_ok F False False n" "cs \<noteq> [] \<or> f \<noteq> None"
  shows "node_ok F j r (emit_try J J1 n cs f)"
  unfolding emit_try_def
proof (rule node_okI, rule rule_raise, goal_cases)
  case (1 tail op cl L t K Op S M c)
  note * = this
  let ?S = "if cl then S else Suc S"
  let ?M = "if cl \<and> cs = [] then M else max M (Suc S)"
  show ?case
    apply (rule hoare_keep[OF rule_junction(1)[OF J(1)]])
    subgoal using * by simp
    apply (rule hoare_keep[OF rule_junction(2)[OF J(1)]])
    apply (rule rule_f_label, rule rule_f_label, rule rule_targets)
    apply (simp only:)
    apply (rule hoare_then[OF rule_try], simp, simp, simp)
    apply (rule hoare_then[OF rule_try_body[OF J(2) n cs]])
    subgoal using * by (auto intro: targets_mono)
    subgoal using * by simp
    subgoal using * by simp
    subgoal by simp
    apply (rule hoare_ex)
    apply (rule hoare_then[OF rule_target], simp)
    apply (rule hoare_then[OF rule_final[OF f(1)]])
    subgoal using * by simp
    subgoal using * by (simp add: max_def)
    subgoal using * by (simp add: max_def)
    subgoal using f(2) by (auto simp: max_def)
    apply (rule hoare_ex)
    apply (rule hoare_then[OF rule_yrt[where j = j and r = r]])
    subgoal using * by (auto intro: targets_mono simp: max_def)
    subgoal by simp
    subgoal using * by (auto simp: max_def)
    subgoal using * by (auto simp: max_def)
    apply (rule hoare_then[OF rule_set_targets])
    apply (rule rule_finish)
    using * by (auto simp: max_def)
qed

section \<open>Functions\<close>

lemma length_fold_update [simp]: "length (fold (\<lambda>i cs. cs[i := x]) ps cs) = length cs"
  by (induction ps arbitrary: cs) auto

lemma nth_fold_update:
  "k < length cs \<Longrightarrow> fold (\<lambda>i cs. cs[i := x]) ps cs ! k = (if k \<in> set ps then x else cs ! k)"
  by (induction ps arbitrary: cs) (auto simp: nth_list_update)

lemma resolve_labels_ok:
  assumes "\<forall>b \<in> set bs. \<exists>t. v_target b = Some t \<and> t < length cs"
  shows "\<exists>cs1. resolve_labels bs cs = Inr cs1 \<and> length cs1 = length cs \<and>
    (\<forall>k < length cs. if k \<in> positions bs then \<exists>b \<in> set bs. \<exists>t. v_target b = Some t \<and> cs1 ! k = C_address t else cs1 ! k = cs ! k)"
  using assms
proof (induction bs arbitrary: cs)
  case Nil
  then show ?case by (simp add: positions_def)
next
  case (Cons b bs)
  then obtain t where t: "v_target b = Some t" "t < length cs" by auto
  let ?cs = "fold (\<lambda>i cs. cs[i := C_address t]) (v_positions b) cs"
  obtain cs1 where cs1: "resolve_labels bs ?cs = Inr cs1" "length cs1 = length ?cs"
      "\<forall>k < length ?cs. if k \<in> positions bs then \<exists>b \<in> set bs. \<exists>t. v_target b = Some t \<and> cs1 ! k = C_address t else cs1 ! k = ?cs ! k"
    using Cons.IH[of ?cs] Cons.prems by auto
  have "positions (b # bs) = set (v_positions b) \<union> positions bs" by (simp add: positions_def)
  then have cell: "if k \<in> positions (b # bs) then \<exists>b \<in> set (b # bs). \<exists>t. v_target b = Some t \<and> cs1 ! k = C_address t else cs1 ! k = cs ! k"
    if "k < length cs" for k
    using cs1(3) t(1) that by (cases "k \<in> positions bs"; cases "k \<in> set (v_positions b)") (auto simp: nth_fold_update)
  show ?case by (intro exI[of _ cs1] conjI allI impI) (use cs1(1,2) t in simp, use cs1(2) in simp, rule cell)
qed

lemma resolved_code_fits:
  assumes ok: "cells_ok z bs (v_instructions c)" and size: "v_code_privates c \<le> v_size c"
    and tg: "\<forall>b \<in> set bs. \<exists>t. v_target b = Some t \<and> t < length (v_instructions c)"
    and r: "resolve_labels bs (v_instructions c) = Inr cs"
  shows "code_fits z (c\<lparr>v_instructions := cs\<rparr>)"
proof -
  let ?cs = "v_instructions c"
  have len: "length cs = length ?cs"
    and cells: "\<And>k. k < length ?cs \<Longrightarrow> if k \<in> positions bs then \<exists>b \<in> set bs. \<exists>t. v_target b = Some t \<and> cs ! k = C_address t else cs ! k = ?cs ! k"
    using resolve_labels_ok[OF tg] r by auto
  have pos: "k < length ?cs \<and> \<not> is_instruction (?cs ! k)" if "k \<in> positions bs" for k
    using that ok by (auto simp: positions_def cells_ok_def label_ok_def)
  have addr: "t < length cs \<and> is_instruction (cs ! t)" if "b \<in> set bs" "v_target b = Some t" for b t
  proof -
    have "t < length ?cs" "is_instruction (?cs ! t)" using that tg ok by (fastforce simp: cells_ok_def label_ok_def)+
    then show ?thesis using cells[of t] pos[of t] len by (auto split: if_splits)
  qed
  have "cell_fits z cs k" if k: "k < length cs" for k
  proof (cases "k \<in> positions bs")
    case True
    then obtain b t where "b \<in> set bs" "v_target b = Some t" "cs ! k = C_address t" using cells[of k] k len by auto
    then show ?thesis using addr by simp
  next
    case False
    then have eq: "cs ! k = ?cs ! k" using cells[of k] k len by simp
    have "cell_ok z (?cs ! k)" using ok k len by (simp add: cells_ok_def)
    moreover have "k + d < length cs \<and> (\<exists>t. cs ! (k + d) = C_address t)" if "?cs ! k = C_instruction i" "d \<in> label_operands i" for i d
    proof -
      have "k + d \<in> positions bs" using ok k len that by (auto simp: cells_ok_def)
      then show ?thesis using pos[of "k + d"] cells[of "k + d"] len by auto
    qed
    ultimately show ?thesis by (auto simp: eq split: t_cell.split)
  qed
  then show ?thesis using size by (simp add: code_fits_def del: cell_fits.simps)
qed

lemma rule_resolve:
  "hoare (stage F L t K {} S M True) f_resolve
    (\<lambda>_ e. code_fits (max L (v_size (v_code e))) (v_code e) \<and> M \<le> v_size (v_code e) \<and> (\<forall>c \<in> snd ` set (v_codes e). code_ok c))"
proof (rule hoareI)
  fix e assume st: "stage F L t K {} S M True e"
  have "v_target b \<noteq> None" if "b \<in> set (v_labels e)" for b
    using st that by (auto simp: stage_def open_labels_def in_set_conv_nth)
  moreover have "t < length (v_instructions (v_code e))" if "b \<in> set (v_labels e)" "v_target b = Some t" for b t
    using st that by (auto simp: stage_def settled_def f_last_def)
  ultimately have tg: "\<forall>b \<in> set (v_labels e). \<exists>t. v_target b = Some t \<and> t < length (v_instructions (v_code e))" by blast
  then obtain cs where cs: "resolve_labels (v_labels e) (v_instructions (v_code e)) = Inr cs" using resolve_labels_ok by blast
  have "code_fits (max L (v_size (v_code e))) ((v_code e)\<lparr>v_instructions := cs\<rparr>)"
    using st by (intro resolved_code_fits[OF _ _ tg cs]) (auto simp: stage_def)
  then show "runs (\<lambda>_ e. code_fits (max L (v_size (v_code e))) (v_code e) \<and> M \<le> v_size (v_code e) \<and> (\<forall>c \<in> snd ` set (v_codes e). code_ok c)) (f_resolve e)"
    using st by (simp add: f_resolve_def cs bind_result_def update_code_def stage_def)
qed

lemma rule_self_shared:
  assumes "S < max L M" "S \<le> M"
  shows "hoare (stage F L t K Op S M c) (emit_self_shared sc) (\<lambda>_. stage F L t K Op S M False)"
  unfolding emit_self_shared_def e_when_def
  using assms by (auto intro!: rule_slot0 hoare_then[OF rule_instruction] rule_stage_done[OF rule_instruction] rule_stage_done[OF rule_skip])

lemma rule_parameters:
  assumes "scope_ok sc k" "i + n \<le> k" "k \<le> M" "S < max L M" "S \<le> M"
  shows "hoare (stage F L t K Op S M c) (emit_parameters sc i n) (\<lambda>_. stage F L t K Op S M False)"
  using assms(2)
proof (induction n arbitrary: i c)
  case 0
  then show ?case using assms(5) by (auto intro!: rule_stage_done[OF rule_skip])
next
  case (Suc n)
  have i: "i < length (v_privates sc)" using Suc.prems assms(1) by (simp add: scope_ok_def)
  then have "v_privates sc ! i \<in> set (take k (v_privates sc))" using Suc.prems by (auto simp: in_set_conv_nth intro!: exI[of _ i])
  then obtain v x where v: "map_of (v_variables sc) (v_privates sc ! i) = Some v" "v_index v = Some x"
    using assms(1) by (fastforce simp: scope_ok_def split: option.splits)
  have "hoare (stage F L t K Op S M c) (e_slot 0 (\<lambda>slot. e_then (e_instruction I_STACK_GET [slot, C_slot i]) (e_instruction I_SCOPE_PUT0 [slot, C_entry x])))
      (\<lambda>_. stage F L t K Op S M False)"
    using Suc.prems assms by (auto intro!: rule_slot0 hoare_then[OF rule_instruction] rule_stage_done[OF rule_instruction])
  then show ?case
    using Suc i v assms(5)
    by (auto simp: e_null_def e_index_def intro!: hoare_then[where R = "\<lambda>_. stage F L t K Op S M False"] rule_stage_done[OF rule_skip] split: if_splits)
qed

lemma lambda_targets_ok:
  "l \<in> K \<Longrightarrow> junction_ok F J \<Longrightarrow> frame_privates F \<le> M \<Longrightarrow> targets_ok F False True (lambda_targets (frame_privates F) l J) K M"
  by (simp add: targets_ok_def jump_ok_def result_ok_def lambda_targets_def)

lemma rule_function:
  assumes sc: "scope_ok sc k" and J: "junction_ok (sc, k) J" and n: "node_ok (sc, k) False True n"
    and P: "P = v_privates_size sc"
  shows "hoare (stage (sc, k) L t {} {} P P c) (emit_function sc k J n)
    (\<lambda>_ e. code_fits (max (max L (Suc P)) (v_size (v_code e))) (v_code e) \<and> Suc P \<le> v_size (v_code e) \<and> (\<forall>c \<in> snd ` set (v_codes e). code_ok c))"
proof -
  have k: "k \<le> P" using sc P by (simp add: scope_ok_def)
  have check: "hoare (stage (sc, k) L1 t1 K Op P M c1) (e_assert (\<lambda>e. v_stack e = v_privates_size sc)) (\<lambda>_. stage (sc, k) L1 t1 K Op P M c1)"
    for L1 t1 K Op M c1
    unfolding e_assert_def by (auto simp: P intro!: rule_targets rule_skip)
  show ?thesis
    unfolding emit_function_def
    apply (rule rule_raise, rule rule_f_label)
    apply (rule hoare_then, rule rule_targets, simp only:, rule rule_set_targets)
    apply (rule hoare_then[OF rule_self_shared], simp, simp)
    apply (rule hoare_then[OF rule_parameters[OF sc]], simp, rule k, simp, simp)
    apply (rule hoare_then[OF node_hoare[OF n, where cl = False, simplified]])
    subgoal unfolding P by (rule lambda_targets_ok[of _ _ "(sc, k)", simplified]) (auto simp: J)
    subgoal by (simp add: P)
    subgoal by (simp add: P)
    apply (rule hoare_then[OF rule_pop])
    apply (rule hoare_then[OF rule_target], simp)
    apply (rule hoare_keep[OF check])
    apply (rule hoare_then[OF rule_slot0[OF rule_instruction]], simp, simp)
    apply (simp only: Diff_cancel)
    by (rule hoare_weaken[OF rule_resolve], assumption, auto)
qed

lemma code_fits_variables [simp]: "code_fits z (c\<lparr>v_code_variables := x\<rparr>) = code_fits z c"
  by (simp add: code_fits_def del: cell_fits.simps)

lemma f_safe_points_code:
  "code_fits z (v_code (f_safe_points ss i e)) = code_fits z (v_code e)" "v_size (v_code (f_safe_points ss i e)) = v_size (v_code e)"
  "v_codes (f_safe_points ss i e) = v_codes e"
  by (simp_all add: f_safe_points_def update_code_def split: option.split)

lemma enter_stage:
  assumes "stage F L t K Op S M c e" "scope_ok sc k"
  shows "stage (sc, k) 0 t {} {} (v_privates_size sc) (v_privates_size sc) False (enter_function sc k (f_code sc va k d) e)"
  using assms by (simp add: stage_def enter_function_def f_code_def t_code_new_def cells_ok_def positions_def open_labels_def)

lemma leave_stage:
  assumes "stage F L t K Op S M c e" "code_ok (v_code e1)" "\<forall>c \<in> snd ` set (v_codes e1). code_ok c"
  shows "stage F L t K Op S M c (leave_function ss i e e1)"
proof -
  have "code_ok (v_code (f_safe_points ss i (e1\<lparr>v_next_code := v_next_code e\<rparr>)))"
    using assms(2) by (simp add: code_ok_def f_safe_points_code)
  then show ?thesis
    using assms(1,3) by (auto simp: stage_def leave_function_def Let_def open_labels_def settled_def f_last_def)
qed

lemma rule_lambda_code:
  assumes sc: "scope_ok (ss ! i) k" and J: "junction_ok (ss ! i, k) J" and n: "node_ok (ss ! i, k) False True n"
  shows "hoare (stage F L t K Op S M c) (emit_lambda_code ss i va k d J n) (\<lambda>_. stage F L t K Op S M c)"
proof (rule hoareI)
  fix e assume st: "stage F L t K Op S M c e"
  let ?e = "enter_function (ss ! i) k (f_code (ss ! i) va k d) e"
  let ?P = "v_privates_size (ss ! i)"
  have "runs (\<lambda>_ e. code_fits (max (max 0 (Suc ?P)) (v_size (v_code e))) (v_code e) \<and> Suc ?P \<le> v_size (v_code e) \<and>
      (\<forall>c \<in> snd ` set (v_codes e). code_ok c)) (emit_function (ss ! i) k J n ?e)"
    using rule_function[OF sc J n refl] enter_stage[OF st sc] unfolding hoare_def by blast
  moreover have "k \<le> ?P" using sc by (simp add: scope_ok_def)
  ultimately show "runs (\<lambda>_. stage F L t K Op S M c) (emit_lambda_code ss i va k d J n e)"
    by (auto simp: emit_lambda_code_def runs_def bind_result_def max_absorb2 code_ok_def intro!: leave_stage[OF st] split: sum.splits)
qed

lemma node_lambda:
  assumes sc: "scope_ok (ss ! i) k" and J: "junction_ok (ss ! i, k) J" and n: "node_ok (ss ! i, k) False True n"
    and ds: "\<forall>d \<in> set ds. node_ok F j r d"
  shows "node_ok F j r (emit_lambda ss a i va k ds J n)"
proof (rule node_okI)
  fix tail op cl L t K Op S M c
  assume *: "targets_ok F j r t K M" "frame_privates F \<le> S" "S \<le> M"
  have make: "hoare (stage F (max L (Suc S)) t K Op S M c)
      (if va \<or> ds \<noteq> [] then e_then (emit_each ds) (e_then (f_pops (length ds)) (e_slot 0 (\<lambda>slot. e_instruction I_ADVANCED_LAMBDA [slot, C_code x])))
       else e_slot 0 (\<lambda>slot. e_instruction I_LAMBDA [slot, C_code x])) (\<lambda>_. stage F (max L (Suc S)) t K Op S M True)" for x
  proof -
    have "hoare (stage F (max L (Suc S)) t K Op S M c)
        (e_then (emit_each ds) (e_then (f_pops (length ds)) (e_slot 0 (\<lambda>slot. e_instruction I_ADVANCED_LAMBDA [slot, C_code x]))))
        (\<lambda>_. stage F (max L (Suc S)) t K Op S M True)"
      using * by (intro rule_stage_done[OF hoare_then[OF rule_each[OF ds] hoare_then[OF rule_pops rule_slot0[OF rule_instruction]]]]) auto
    moreover have "hoare (stage F (max L (Suc S)) t K Op S M c) (e_slot 0 (\<lambda>slot. e_instruction I_LAMBDA [slot, C_code x]))
        (\<lambda>_. stage F (max L (Suc S)) t K Op S M True)"
      by (intro rule_slot0 rule_instruction) auto
    ultimately show ?thesis by simp
  qed
  show "hoare (stage F L t K Op S M c) (emit_lambda ss a i va k ds J n tail op cl)
      (\<lambda>x e. x = Op_temporary \<and> stage F L t K Op (if cl then S else Suc S) (if cl then M else max M (Suc S)) False e)"
    unfolding emit_lambda_def
    by (insert *, rule rule_raise, rule hoare_bind[OF rule_lambda_code[OF sc J n]])
      (rule hoare_then[OF make] hoare_then emit_rules | simp; fail | auto simp: max_def; fail)+
qed

section \<open>The whole tree\<close>

lemma direct_call_ok:
  "well_scoped ss z k j r t \<Longrightarrow> \<forall>(u, v) \<in> set_option (direct_call ss t es). variable_ok z v"
  by (cases t) (auto simp: direct_call_def split: if_splits option.splits prod.splits)

lemma list_emit_ok:
  assumes "\<And>c. c < length fs \<Longrightarrow> node_ok F j r (fst ((fs ! c) J ((i + c) # p)))"
  shows "\<forall>n \<in> set (list_emit fs J p i). node_ok F j r n"
  using assms
proof (induction fs arbitrary: i)
  case (Cons f fs)
  have "node_ok F j r (fst (f J (i # p)))" using Cons.prems[of 0] by simp
  moreover have "\<forall>n \<in> set (list_emit fs J p (Suc i)). node_ok F j r n"
    using Cons.prems[of "Suc c" for c] by (intro Cons.IH) simp
  ultimately show ?case by (simp add: child_emit_def)
qed simp

lemma catches_emit_ok:
  assumes "\<And>c. c < length cs \<Longrightarrow> case cs ! c of (e, v, b) \<Rightarrow> node_ok F j r (fst (e J ((2 + 2 * (i + c)) # p))) \<and>
      catch_ok z k (variable_at ss v) \<and> node_ok F j r (fst (b J ((3 + 2 * (i + c)) # p)))"
  shows "\<forall>(n, found, b) \<in> set (catches_emit ss cs J p i). node_ok F j r n \<and> catch_ok z k found \<and> node_ok F j r b"
  using assms
proof (induction cs arbitrary: i)
  case (Cons x cs)
  obtain e v b where x: "x = (e, v, b)" by (cases x)
  have "\<forall>(n, found, b) \<in> set (catches_emit ss cs J p (Suc i)). node_ok F j r n \<and> catch_ok z k found \<and> node_ok F j r b"
    using Cons.prems[of "Suc c" for c] by (intro Cons.IH) simp
  then show ?case using Cons.prems[of 0] by (auto simp: x child_emit_def)
qed simp

lemma catches_emit_empty: "catches_emit ss cs J p i = [] \<longleftrightarrow> cs = []"
  by (cases cs) auto

definition emitter_ok :: "t_scope \<times> nat \<Rightarrow> bool \<Rightarrow> bool \<Rightarrow> emitter \<Rightarrow> bool" where
  "emitter_ok F j r f \<longleftrightarrow> node_ok F j r (fst f) \<and> target_ok F j r (snd f)"

lemma emitter_plain: "node_ok F j r n \<Longrightarrow> emitter_ok F j r (plain n)"
  by (simp add: emitter_ok_def plain_def target_plain)

lemma emitter_child: "emitter_ok F j r (f J p) \<Longrightarrow> node_ok F j r (child_emit f J p)"
  by (simp add: emitter_ok_def child_emit_def)

lemma option_emit_ok:
  "(\<And>f. fo = Some f \<Longrightarrow> emitter_ok F j r (f J p)) \<Longrightarrow> \<forall>n \<in> set_option (option_emit fo J p). node_ok F j r n"
  by (cases fo) (auto simp: option_emit_def emitter_child)

text \<open>What holds of the targets with more of them allowed.\<close>

lemma privates_ok: "\<forall>b. length (v_block_privates (J b)) \<le> frame_privates F - snd F \<Longrightarrow> junction_ok F (privates_of J p b)"
  by (simp add: junction_ok_def privates_of_def)

lemma f_emit_ok:
  "well_scoped ss z k j r n \<Longrightarrow> tables_ok ss script T \<Longrightarrow> node_at script p = Some n \<Longrightarrow>
   v_privates_size s = z \<Longrightarrow> function_ok (s, k) \<Longrightarrow> \<forall>b. length (v_block_privates (J b)) \<le> z - k \<Longrightarrow>
   emitter_ok (s, k) j r (f_emit ss T n J p)"
proof (induction ss z k j r n arbitrary: p s J rule: well_scoped.induct)
  case (1 ss z k j r ns)
  have "emitter_ok (s, k) j r (f_emit ss T (ns ! c) J (c # p))" if "c < length ns" for c
    using 1 that by (intro "1.IH") (auto simp: node_at_child)
  then show ?case by (auto simp: emitter_ok_def intro!: emitter_plain[unfolded emitter_ok_def] node_nodes list_emit_ok)
next
  case (2 ss z k j r a i va m ds b)
  have sc: "scope_ok (ss ! i) m" using 2 by simp
  have T: "\<forall>b. length (v_block_privates (T p b)) \<le> v_privates_size (ss ! i) - m"
    using 2 unfolding tables_ok_def by blast
  have "emitter_ok (ss ! i, m) False True (f_emit ss T b (T p) (0 # p))"
    using 2 sc T by (intro "2.IH"(2)[where s = "ss ! i"]) (auto simp: node_at_child function_ok_def scope_ok_def)
  moreover have "\<forall>d \<in> set (list_emit (map (f_emit ss T) ds) J p 1). node_ok (s, k) j r d"
    using 2 by (intro list_emit_ok) (auto simp: node_at_child emitter_ok_def)
  ultimately show ?case
    using sc privates_ok[of "T p" "(ss ! i, m)"] T by (auto intro!: emitter_plain node_lambda emitter_child)
next
  case (9 ss z k j r b cs f)
  note * = "9.prems"
  have b: "emitter_ok (s, k) j r (f_emit ss T b J (0 # p))" using * by (intro "9.IH"(1)) (auto simp: node_at_child)
  have c: "case map (map_prod (f_emit ss T) (map_prod id (f_emit ss T))) cs ! c of (e, v, d) \<Rightarrow>
      node_ok (s, k) j r (fst (e J ((2 + 2 * (0 + c)) # p))) \<and> catch_ok z k (variable_at ss v) \<and> node_ok (s, k) j r (fst (d J ((3 + 2 * (0 + c)) # p)))"
    if "c < length cs" for c
  proof -
    obtain e v d where cd: "cs ! c = (e, v, d)" by (cases "cs ! c")
    then have mem: "(e, v, d) \<in> set cs" using that by (metis nth_mem)
    then have ws: "well_scoped ss z k j r e" "catch_ok z k (variable_at ss v)" "well_scoped ss z k j r d" using *(1) by auto
    have at: "node_at script ((2 + 2 * c) # p) = Some e" "node_at script ((3 + 2 * c) # p) = Some d"
      using *(3) that cd by (simp_all add: node_at_child)
    show ?thesis
      using that cd ws(2) "9.IH"(2)[OF mem refl refl ws(1) *(2) at(1) *(4-6)] "9.IH"(3)[OF mem refl refl ws(3) *(2) at(2) *(4-6)]
      by (simp add: emitter_ok_def)
  qed
  have f: "\<forall>n \<in> set_option (option_emit (map_option (f_emit ss T) f) J (1 # p)). node_ok (s, k) False False n"
    using * "9.IH"(4)[of _ "1 # p" s J] by (intro option_emit_ok) (auto simp: node_at_child)
  have "node_ok (s, k) j r (emit_try (privates_of J p B_junction_try) (privates_of J p B_junction_finally) (child_emit (f_emit ss T b) J (0 # p))
      (catches_emit ss (map (map_prod (f_emit ss T) (map_prod id (f_emit ss T))) cs) J p 0) (option_emit (map_option (f_emit ss T) f) J (1 # p)))"
  proof (rule node_try)
    show "\<forall>(n, found, b) \<in> set (catches_emit ss (map (map_prod (f_emit ss T) (map_prod id (f_emit ss T))) cs) J p 0).
        node_ok (s, k) j r n \<and> catch_ok (frame_privates (s, k)) (snd (s, k)) found \<and> node_ok (s, k) j r b"
      by (rule catches_emit_ok) (use c *(4) in simp)
  qed (use * b f in \<open>auto simp: catches_emit_empty option_emit_def intro!: privates_ok emitter_child\<close>)
  then show ?case by (auto intro: emitter_plain)
next
  case (17 ss z k j r a u sc x)
  then show ?case by (auto intro!: emitter_plain node_symbol_get)
next
  case (18 ss z k j r a u v e)
  then obtain w where "variable_at ss v = Some w" "variable_ok z w" by (auto split: option.splits)
  moreover have "emitter_ok (s, k) j r (f_emit ss T e J (0 # p))" using 18 by (simp add: node_at_child)
  ultimately show ?case using "18.prems"(4,5) by (auto intro!: emitter_plain node_scope_put emitter_child)
next
  case (3 ss z k j r e x y)
  then show ?case by (auto simp: node_at_child intro!: emitter_plain node_if emitter_child option_emit_ok privates_ok)
next
  case (4 ss z k j r e b)
  then show ?case by (auto simp: node_at_child intro!: emitter_plain node_while emitter_child option_emit_ok privates_ok)
next
  case (5 ss z k j r i e f b)
  then show ?case by (auto simp: node_at_child intro!: emitter_plain node_for emitter_child option_emit_ok privates_ok)
next
  case (23 ss z k j r a t as es)
  have "emitter_ok (s, k) j r (f_emit ss T t J (0 # p))" using 23 by (simp add: node_at_child)
  moreover have "\<forall>d \<in> set (list_emit (map (f_emit ss T) as) J p 1). node_ok (s, k) j r d"
    using 23 by (intro list_emit_ok) (auto simp: node_at_child emitter_ok_def)
  ultimately show ?case using 23 direct_call_ok[of ss z k j r t es] by (auto simp: emitter_ok_def intro!: emitter_plain[unfolded emitter_ok_def] node_call)
next
  case (11 ss z k j r a t x)
  then have "emitter_ok (s, k) j r (f_emit ss T t J (0 # p))" by (simp add: node_at_child)
  then show ?case by (auto simp: emitter_ok_def child_emit_def intro!: node_object_get target_method)
next
  case (24 ss z k j r a t i)
  then have "emitter_ok (s, k) j r (f_emit ss T t J (0 # p))" "emitter_ok (s, k) j r (f_emit ss T i J (1 # p))" by (simp_all add: node_at_child)
  then show ?case by (auto simp: emitter_ok_def child_emit_def intro!: node_get_at target_bind)
qed (auto simp: node_at_child intro!: emitter_plain emitter_child node_break node_continue node_return node_throw node_object_get_indirect
    node_object_put node_object_put_indirect node_object_has node_object_has_indirect node_class node_super node_unary node_binary
    node_set_at node_self node_null node_literal node_preserve)


text \<open>The code of a module: the slot that its prologue uses is the first one after the variables.\<close>

definition module_frame :: "t_scope \<Rightarrow> t_code \<Rightarrow> nat" where
  "module_frame sc c = max (if v_self_shared sc then Suc (v_privates_size sc) else 0) (v_size c)"

lemma module_runs:
  assumes n: "node_ok (sc, 0) False False n" and sc: "scope_ok sc 0"
  shows "runs (\<lambda>_ e. code_fits (module_frame sc (v_code e)) (v_code e) \<and> (\<forall>c \<in> snd ` set (v_codes e). code_ok c))
    (emit_module sc n (t_emit_new sc sp))"
proof -
  let ?P = "v_privates_size sc"
  let ?L = "if v_self_shared sc then Suc ?P else 0"
  let ?t = "script_targets ?P"
  have start: "stage (sc, 0) ?L ?t {} {} ?P ?P False (t_emit_new sc sp)"
    by (simp add: stage_def t_emit_new_def t_code_new_def cells_ok_def positions_def open_labels_def)
  have t: "targets_ok (sc, 0) False False ?t {} ?P"
    by (simp add: targets_ok_def jump_ok_def result_ok_def script_targets_def no_targets_def)
  have self: "hoare (stage (sc, 0) ?L ?t {} {} ?P ?P False) (emit_self_shared sc) (\<lambda>_. stage (sc, 0) ?L ?t {} {} ?P ?P False)"
  proof (cases "v_self_shared sc")
    case True
    then show ?thesis by (intro rule_self_shared) simp_all
  next
    case False
    then show ?thesis by (simp add: emit_self_shared_def e_when_def rule_skip)
  qed
  have "hoare (stage (sc, 0) ?L ?t {} {} ?P ?P False) (emit_module sc n)
      (\<lambda>_ e. code_fits (max ?L (v_size (v_code e))) (v_code e) \<and> ?P \<le> v_size (v_code e) \<and> (\<forall>c \<in> snd ` set (v_codes e). code_ok c))"
    unfolding emit_module_def
    by (intro hoare_keep[OF self] hoare_then[OF rule_child(2)[OF n t]] hoare_then[OF rule_instruction] rule_resolve) simp_all
  with start have "runs (\<lambda>_ e. code_fits (max ?L (v_size (v_code e))) (v_code e) \<and> ?P \<le> v_size (v_code e) \<and> (\<forall>c \<in> snd ` set (v_codes e). code_ok c))
      (emit_module sc n (t_emit_new sc sp))" unfolding hoare_def by blast
  then show ?thesis by (rule runs_mono) (simp add: module_frame_def)
qed

lemma emit_script_ok:
  assumes ws: "well_scoped ss (v_privates_size (ss ! 0)) 0 False False script" and z: "int (v_privates_size (ss ! 0)) < 2 ^ 31"
  shows "\<exists>res. emit_script ss script sp = Some res \<and> (case res of
      Inl x \<Rightarrow> folding_error x
    | Inr (c, e) \<Rightarrow> code_fits (module_frame (ss ! 0) c) c \<and> (\<forall>c \<in> snd ` set (v_codes e). code_ok c))"
proof -
  obtain T where T: "analyze_script ss script = Some (Inr T)" "tables_ok ss script T"
    using analyze_script_total[OF ws] z by auto
  have "emitter_ok (ss ! 0, 0) False False (f_emit ss T script (T []) [0])"
    using T(2) z by (intro f_emit_ok[OF ws T(2)]) (auto simp: tables_ok_def function_ok_def)
  then have "node_ok (ss ! 0, 0) False False (child_emit (f_emit ss T script) (T []) [0])" by (rule emitter_child)
  from module_runs[OF this, of sp] z
  have "runs (\<lambda>_ e. code_fits (module_frame (ss ! 0) (v_code e)) (v_code e) \<and> (\<forall>c \<in> snd ` set (v_codes e). code_ok c))
      (emit_module (ss ! 0) (child_emit (f_emit ss T script) (T []) [0]) (t_emit_new (ss ! 0) sp))"
    by (simp add: scope_ok_def)
  then obtain res where res: "emit_module (ss ! 0) (child_emit (f_emit ss T script) (T []) [0]) (t_emit_new (ss ! 0) sp) = res"
    and ok: "runs (\<lambda>_ e. code_fits (module_frame (ss ! 0) (v_code e)) (v_code e) \<and> (\<forall>c \<in> snd ` set (v_codes e). code_ok c)) res" by blast
  show ?thesis
  proof (cases res)
    case (Inl x)
    then show ?thesis using ok by (simp add: emit_script_def T then_result_def res)
  next
    case (Inr y)
    then show ?thesis using ok by (cases y) (simp add: emit_script_def T then_result_def res Let_def f_safe_points_code module_frame_def)
  qed
qed

section \<open>Properties\<close>

text \<open>C39: the emission of a script whose tree is well scoped returns.  It fails only with an error of constant
  folding, an unsupported operation or a division or shift that C++ leaves undefined on two number literals:
  no assertion fails, no jump lacks a target, no index leaves the flags of the variables.  Otherwise all the
  code it makes is well formed: every slot lies in the frame of its code, every address is the place of an
  instruction, and every instruction that jumps has its addresses.  For the code of a module the slot that
  its prologue uses counts too.\<close>
theorem emit_code_ok:
  assumes "well_scoped ss (v_privates_size (ss ! 0)) 0 False False script" "int (v_privates_size (ss ! 0)) < 2 ^ 31"
  shows "\<exists>res. emit_script ss script sp = Some res \<and> (case res of
      Inl x \<Rightarrow> x \<in> {Thrown ''not supported.'', Undefined ''division'', Undefined ''shift''}
    | Inr (c, e) \<Rightarrow> code_fits (module_frame (ss ! 0) c) c \<and> (\<forall>d \<in> snd ` set (v_codes e). code_fits (v_size d) d))"
  using emit_script_ok[OF assms, of sp] unfolding folding_error_def code_ok_def .

theorem emit_code_ok_witness:
  "\<exists>c e. emit_script [f_classify [97] (privates_push [97] (add_variable [97] (t_scope_new None)))]
     (N_while None (N_if (Some (N_symbol_get (0, 1, 1) 0 (Some 0) [97])) (N_break (N_null (0, 1, 1)))
       (N_scope_put (0, 1, 1) 0 (0, [97]) (N_symbol_get (0, 1, 1) 0 (Some 0) [97])))) None = Some (Inr (c, e)) \<and>
     code_fits (v_size c) c"
proof -
  let ?ss = "[f_classify [97] (privates_push [97] (add_variable [97] (t_scope_new None)))]"
  let ?n = "N_while None (N_if (Some (N_symbol_get (0, 1, 1) 0 (Some 0) [97])) (N_break (N_null (0, 1, 1)))
       (N_scope_put (0, 1, 1) 0 (0, [97]) (N_symbol_get (0, 1, 1) 0 (Some 0) [97])))"
  have "well_scoped ?ss (v_privates_size (?ss ! 0)) 0 False False ?n \<and> int (v_privates_size (?ss ! 0)) < 2 ^ 31" by code_simp
  then obtain res where res: "emit_script ?ss ?n None = Some res" "case res of
      Inl x \<Rightarrow> x \<in> {Thrown ''not supported.'', Undefined ''division'', Undefined ''shift''}
    | Inr (c, e) \<Rightarrow> code_fits (module_frame (?ss ! 0) c) c \<and> (\<forall>d \<in> snd ` set (v_codes e). code_fits (v_size d) d)"
    using emit_code_ok[of ?ss ?n None] by blast
  have "map_option (map_sum id (\<lambda>_. ())) (emit_script ?ss ?n None) = Some (Inr ())" by code_simp
  then have "map_sum id (\<lambda>_. ()) res = Inr ()" unfolding res(1) by simp
  then obtain c e where ce: "res = Inr (c, e)" by (cases res) auto
  have "\<not> v_self_shared (?ss ! 0)" by code_simp
  then have "module_frame (?ss ! 0) c = v_size c" by (simp only: module_frame_def if_False max_0L)
  then show ?thesis using res unfolding ce by (intro exI[of _ c] exI[of _ e]) simp
qed


end
