(* ===== verification/Xm_Machine.thy ===== *)
theory Xm_Machine
  imports Xm_Emit Xm_List
begin

text \<open>
  The machine on which byte code runs (src/include/xemmai/fiber.h \<open>t_context\<close>, \<open>f_stack\<close>; lambda.h, method.h,
  tuple.h, scope.h; src/src/lambda.cc, fiber.cc, \<open>f_expand\<close> of code.cc): the stack of a fiber, the objects that
  the interpreter itself makes, and the calls of functions with expansion, default values and variable
  numbers of arguments.

  A step is a function of the state.  It may end with an exception (\<open>Raise\<close>, with the state at that point),
  with a step that C++ leaves undefined, or by running out of fuel.  What the interpreter asks of other types
  of objects (fields, operators, calls of native functions) is a \<open>t_world\<close>, an argument of all definitions:
  it sees the heap and the values handed over, not the stack of the caller.
\<close>

section \<open>Objects\<close>

text \<open>
  The objects that the interpreter makes and takes apart.  \<open>H_lambda\<close> is \<open>t_lambda\<close> with its scope and its code,
  \<open>t_lambda_shared\<close> when the code says so; \<open>H_advanced\<close> is \<open>t_advanced_lambda\<close> with the tuple of its default
  values, null when there are none.
\<close>

datatype t_heap_object =
    H_tuple "t_value list"
  | H_list t_list
  | H_method nat t_value
  | H_scope "t_value list" "nat option"
  | H_lambda "nat option" nat
  | H_advanced "nat option" nat "nat option"

record 'w t_heap =
  v_objects :: "nat \<Rightarrow> t_heap_object option"
  v_next_object :: nat
  v_others :: 'w

definition f_new_object :: "t_heap_object \<Rightarrow> 'w t_heap \<Rightarrow> nat \<times> 'w t_heap" where
  "f_new_object x h =
     (v_next_object h, h\<lparr>v_objects := (v_objects h)(v_next_object h \<mapsto> x), v_next_object := Suc (v_next_object h)\<rparr>)"

section \<open>State\<close>

text \<open>\<open>t_context\<close>; a code that shares no variable leaves \<open>v_scope\<close> indeterminate.  An address of the stack is
  the number of cells below it.\<close>

record t_context =
  v_pc :: nat
  v_base :: nat
  v_lambda :: nat
  v_previous :: nat
  v_context_scope :: "nat option"

text \<open>\<open>r_pc\<close> is the variable \<open>pc\<close> of the running \<open>t_code::f_loop\<close>, \<open>r_context\<close> its \<open>a_context\<close>, \<open>v_estack\<close> the stack
  of the fiber and \<open>v_stack_used\<close> its end, which \<open>f_stack\<close> reads.\<close>

record 'w t_state =
  r_pc :: nat
  r_context :: t_context
  v_estack :: "t_value list"
  v_stack_used :: nat
  v_heap :: "'w t_heap"

text \<open>An exception of the language is a value; \<open>f_rethrow\<close> pairs it with the place in the code.\<close>

datatype t_exception = X_value t_value | X_pair t_value nat

datatype ('w, 'a) outcome =
    Done 'a "'w t_state"
  | Raise t_exception "'w t_state"
  | Undef string
  | Timeout

type_synonym ('w, 'a) xm = "'w t_state \<Rightarrow> ('w, 'a) outcome"

definition x_return :: "'a \<Rightarrow> ('w, 'a) xm" where
  "x_return a s = Done a s"

definition x_undefined :: "string \<Rightarrow> ('w, 'a) xm" where
  "x_undefined msg s = Undef msg"

definition x_bind :: "('w, 'a) xm \<Rightarrow> ('a \<Rightarrow> ('w, 'b) xm) \<Rightarrow> ('w, 'b) xm" where
  "x_bind m f s = (case m s of Done a s1 \<Rightarrow> f a s1 | Raise x s1 \<Rightarrow> Raise x s1 | Undef msg \<Rightarrow> Undef msg | Timeout \<Rightarrow> Timeout)"

definition x_then :: "('w, 'a) xm \<Rightarrow> ('w, 'b) xm \<Rightarrow> ('w, 'b) xm" where
  "x_then m k = x_bind m (\<lambda>_. k)"

definition x_state :: "('w t_state \<Rightarrow> ('w, 'a) xm) \<Rightarrow> ('w, 'a) xm" where
  "x_state h s = h s s"

definition x_modify :: "('w t_state \<Rightarrow> 'w t_state) \<Rightarrow> ('w, unit) xm" where
  "x_modify f s = Done () (f s)"

definition x_raise :: "t_exception \<Rightarrow> ('w, 'a) xm" where
  "x_raise x s = Raise x s"

text \<open>\<open>catch\<close>.\<close>

definition x_catch :: "('w, 'a) xm \<Rightarrow> (t_exception \<Rightarrow> ('w, 'a) xm) \<Rightarrow> ('w, 'a) xm" where
  "x_catch m f s = (case m s of Raise x s1 \<Rightarrow> f x s1 | r \<Rightarrow> r)"

definition x_skip :: "('w, unit) xm" where
  "x_skip = x_return ()"

section \<open>Other objects\<close>

text \<open>
  The reply of an operation that is not modelled: a result, or the exception it throws, with the heap it
  leaves.  A callee either has its result or asks for another call in its place: the callee, the value of
  \<open>stack[1]\<close> and the arguments.
\<close>

datatype ('w, 'a) t_reply = Reply 'a "'w t_heap" | Reply_throw t_value "'w t_heap"

type_synonym t_tail = "t_value + t_value \<times> t_value \<times> t_value list"

datatype t_method_name = M_get_at | M_set_at | M_unary unop | M_binary binop

record 'w t_world =
  w_codes :: "nat \<Rightarrow> t_code option"
  w_store :: store
  w_symbol :: "symbol \<Rightarrow> t_value"
  w_literal :: "lit_object \<Rightarrow> t_value"
  w_throwable :: "xerror \<Rightarrow> 'w t_heap \<Rightarrow> t_value \<times> 'w t_heap"
  w_get :: "t_value \<Rightarrow> t_value \<Rightarrow> 'w t_heap \<Rightarrow> ('w, t_value) t_reply"
  w_put :: "t_value \<Rightarrow> t_value \<Rightarrow> t_value \<Rightarrow> 'w t_heap \<Rightarrow> ('w, unit) t_reply"
  w_has :: "t_value \<Rightarrow> t_value \<Rightarrow> 'w t_heap \<Rightarrow> ('w, bool) t_reply"
  w_bind :: "t_value \<Rightarrow> t_value \<Rightarrow> 'w t_heap \<Rightarrow> ('w, t_value \<times> t_value) t_reply"
  w_global_get :: "t_value \<Rightarrow> 'w t_heap \<Rightarrow> ('w, t_value) t_reply"
  w_bindable :: "nat \<Rightarrow> 'w t_heap \<Rightarrow> bool"
  w_type :: "t_value \<Rightarrow> 'w t_heap \<Rightarrow> t_value"
  w_super :: "t_value \<Rightarrow> 'w t_heap \<Rightarrow> t_value option"
  w_is :: "t_value \<Rightarrow> t_value \<Rightarrow> 'w t_heap \<Rightarrow> bool"
  w_is_class :: "t_value \<Rightarrow> 'w t_heap \<Rightarrow> bool"
  w_is_type :: "t_value \<Rightarrow> 'w t_heap \<Rightarrow> bool"
  w_fiber_exit :: t_value
  w_backtrace :: "t_value \<Rightarrow> nat \<Rightarrow> nat \<Rightarrow> 'w t_heap \<Rightarrow> 'w t_heap"
  w_size :: "t_value \<Rightarrow> 'w t_heap \<Rightarrow> ('w, t_value) t_reply"
  w_element :: "t_value \<Rightarrow> i64 \<Rightarrow> 'w t_heap \<Rightarrow> ('w, t_value) t_reply"
  w_method :: "t_method_name \<Rightarrow> nat \<Rightarrow> t_value list \<Rightarrow> 'w t_heap \<Rightarrow> ('w, t_tail) t_reply"
  w_call :: "nat \<Rightarrow> t_value \<Rightarrow> t_value list \<Rightarrow> 'w t_heap \<Rightarrow> ('w, t_tail) t_reply"

text \<open>An operation of the world; \<open>f_throw\<close> makes an object for the exception.\<close>

definition x_world :: "('w t_heap \<Rightarrow> ('w, 'a) t_reply) \<Rightarrow> ('w, 'a) xm" where
  "x_world f s = (case f (v_heap s) of
       Reply a h \<Rightarrow> Done a (s\<lparr>v_heap := h\<rparr>)
     | Reply_throw x h \<Rightarrow> Raise (X_value x) (s\<lparr>v_heap := h\<rparr>))"

definition x_result :: "'w t_world \<Rightarrow> 'a result \<Rightarrow> ('w, 'a) xm" where
  "x_result w r s = (case r of
       Inr a \<Rightarrow> Done a s
     | Inl (Undefined msg) \<Rightarrow> Undef msg
     | Inl e \<Rightarrow> (case w_throwable w e (v_heap s) of (x, h) \<Rightarrow> Raise (X_value x) (s\<lparr>v_heap := h\<rparr>)))"

definition x_new :: "t_heap_object \<Rightarrow> ('w, t_value) xm" where
  "x_new x s = (case f_new_object x (v_heap s) of (a, h) \<Rightarrow> Done (V_object a) (s\<lparr>v_heap := h\<rparr>))"

definition x_object :: "nat \<Rightarrow> ('w, t_heap_object option) xm" where
  "x_object a s = Done (v_objects (v_heap s) a) s"

section \<open>The stack\<close>

definition x_read :: "nat \<Rightarrow> ('w, t_value) xm" where
  "x_read a s = (if a < length (v_estack s) then Done (v_estack s ! a) s else Undef ''stack'')"

definition x_write :: "nat \<Rightarrow> t_value \<Rightarrow> ('w, unit) xm" where
  "x_write a v s = (if a < length (v_estack s) then Done () (s\<lparr>v_estack := (v_estack s)[a := v]\<rparr>) else Undef ''stack'')"

text \<open>\<open>std::copy\<close>, \<open>std::move\<close> and \<open>std::move_backward\<close> of \<open>n\<close> cells, which read a cell before they overwrite it as they
  are used here, and a run of values written to the stack.\<close>

definition put_cells :: "nat \<Rightarrow> t_value list \<Rightarrow> t_value list \<Rightarrow> t_value list" where
  "put_cells a vs xs = take a xs @ vs @ drop (a + length vs) xs"

definition x_cells :: "nat \<Rightarrow> nat \<Rightarrow> ('w, t_value list) xm" where
  "x_cells a n s = (if a + n \<le> length (v_estack s) then Done (take n (drop a (v_estack s))) s else Undef ''stack'')"

definition x_put_cells :: "nat \<Rightarrow> t_value list \<Rightarrow> ('w, unit) xm" where
  "x_put_cells a vs s =
     (if a + length vs \<le> length (v_estack s) then Done () (s\<lparr>v_estack := put_cells a vs (v_estack s)\<rparr>) else Undef ''stack'')"

definition x_move :: "nat \<Rightarrow> nat \<Rightarrow> nat \<Rightarrow> ('w, unit) xm" where
  "x_move from n to = x_bind (x_cells from n) (\<lambda>vs. x_put_cells to vs)"

definition set_stack_used :: "nat \<Rightarrow> ('w, unit) xm" where
  "set_stack_used a = x_modify (\<lambda>s. s\<lparr>v_stack_used := a\<rparr>)"

section \<open>Fetching operands\<close>

text \<open>\<open>*++pc\<close>, with the operand as the instruction reads it.\<close>

definition x_fetch :: "t_cell list \<Rightarrow> ('w, t_cell) xm" where
  "x_fetch cs s = (if Suc (r_pc s) < length cs then Done (cs ! Suc (r_pc s)) (s\<lparr>r_pc := Suc (r_pc s)\<rparr>) else Undef ''pc'')"

definition fetch_slot :: "t_cell list \<Rightarrow> ('w, nat) xm" where
  "fetch_slot cs = x_bind (x_fetch cs) (\<lambda>c. case c of C_slot i \<Rightarrow> x_state (\<lambda>s. x_return (v_base (r_context s) + i)) | _ \<Rightarrow> x_undefined ''slot'')"

definition fetch_size :: "t_cell list \<Rightarrow> ('w, nat) xm" where
  "fetch_size cs = x_bind (x_fetch cs) (\<lambda>c. case c of C_size n \<Rightarrow> x_return n | _ \<Rightarrow> x_undefined ''size'')"

definition fetch_entry :: "t_cell list \<Rightarrow> ('w, nat) xm" where
  "fetch_entry cs = x_bind (x_fetch cs) (\<lambda>c. case c of C_entry i \<Rightarrow> x_return i | _ \<Rightarrow> x_undefined ''entry'')"

definition fetch_integer :: "t_cell list \<Rightarrow> ('w, i64) xm" where
  "fetch_integer cs = x_bind (x_fetch cs) (\<lambda>c. case c of C_integer n \<Rightarrow> x_return n | _ \<Rightarrow> x_undefined ''integer'')"

definition fetch_float :: "t_cell list \<Rightarrow> ('w, float64) xm" where
  "fetch_float cs = x_bind (x_fetch cs) (\<lambda>c. case c of C_float x \<Rightarrow> x_return x | _ \<Rightarrow> x_undefined ''float'')"

definition fetch_symbol :: "'w t_world \<Rightarrow> t_cell list \<Rightarrow> ('w, t_value) xm" where
  "fetch_symbol w cs = x_bind (x_fetch cs) (\<lambda>c. case c of C_symbol x \<Rightarrow> x_return (w_symbol w x) | _ \<Rightarrow> x_undefined ''symbol'')"

fun literal_value :: "'w t_world \<Rightarrow> t_literal_value \<Rightarrow> t_value" where
  "literal_value w L_null = V_null"
| "literal_value w (L_bool b) = V_bool b"
| "literal_value w (L_object x) = w_literal w x"

definition fetch_value :: "'w t_world \<Rightarrow> t_cell list \<Rightarrow> ('w, t_value) xm" where
  "fetch_value w cs = x_bind (x_fetch cs) (\<lambda>c. case c of C_value v \<Rightarrow> x_return (literal_value w v) | _ \<Rightarrow> x_undefined ''value'')"

definition fetch_code :: "t_cell list \<Rightarrow> ('w, nat) xm" where
  "fetch_code cs = x_bind (x_fetch cs) (\<lambda>c. case c of C_code i \<Rightarrow> x_return i | _ \<Rightarrow> x_undefined ''code'')"

definition fetch_address :: "t_cell list \<Rightarrow> ('w, nat) xm" where
  "fetch_address cs = x_bind (x_fetch cs) (\<lambda>c. case c of C_address a \<Rightarrow> x_return a | _ \<Rightarrow> x_undefined ''address'')"

definition x_next :: "('w, unit) xm" where
  "x_next = x_modify (\<lambda>s. s\<lparr>r_pc := Suc (r_pc s)\<rparr>)"

definition set_pc :: "nat \<Rightarrow> ('w, unit) xm" where
  "set_pc a = x_modify (\<lambda>s. s\<lparr>r_pc := a\<rparr>)"

text \<open>\<open>a_context->v_pc = pc\<close>.\<close>

definition save_pc :: "('w, unit) xm" where
  "save_pc = x_modify (\<lambda>s. s\<lparr>r_context := (r_context s)\<lparr>v_pc := r_pc s\<rparr>\<rparr>)"

section \<open>Expansion of arguments\<close>

text \<open>\<open>for (size_t i = 0; i < m; ++i) *a_stack++ = get(i)\<close>.\<close>

fun expand_each :: "(nat \<Rightarrow> ('w, t_value) xm) \<Rightarrow> nat \<Rightarrow> nat \<Rightarrow> nat \<Rightarrow> ('w, unit) xm" where
  "expand_each get a i 0 = x_skip"
| "expand_each get a i (Suc m) = x_bind (get i) (\<lambda>v. x_then (x_write (a + i) v) (expand_each get a (Suc i) m))"

text \<open>The local function \<open>expand\<close>: \<open>a\<close> is \<open>a_stack\<close>, \<open>n\<close> what is left of \<open>a_n\<close>.\<close>

definition expand_one :: "nat \<Rightarrow> nat \<Rightarrow> nat \<Rightarrow> (nat \<Rightarrow> ('w, t_value) xm) \<Rightarrow> ('w, unit) xm" where
  "expand_one a n m get =
     (if 0 < m then
        x_then (x_state (\<lambda>s. if v_stack_used s < a + m + n then set_stack_used (a + m + n) else x_skip))
        (x_then (x_move (a + 1) n (a + m)) (expand_each get a 0 m))
      else x_move (a + 1) n a)"

text \<open>The number and the elements of the value to expand.\<close>

definition expand_source :: "'w t_world \<Rightarrow> t_value \<Rightarrow> ('w, nat \<times> (nat \<Rightarrow> ('w, t_value) xm)) xm" where
  "expand_source w x =
     (let others = x_bind (x_world (w_size w x)) (\<lambda>size. case intptr_as (w_store w) size of
            None \<Rightarrow> x_result w (f_throw_type_error ''size'')
          | Some m \<Rightarrow> x_return (unat m, \<lambda>i. x_world (w_element w x (of_nat i))))
      in case x of
        V_object p \<Rightarrow> x_bind (x_object p) (\<lambda>o1. case o1 of
            Some (H_tuple vs) \<Rightarrow> x_return (length vs, \<lambda>i. x_return (vs ! i))
          | Some (H_list l) \<Rightarrow> x_return (t_list_f_size l, \<lambda>i. x_return (t_list_cell l (t_list_f_at l i)))
          | _ \<Rightarrow> others)
      | _ \<Rightarrow> others)"

text \<open>
  The loop of \<open>f_expand\<close>.  \<open>k\<close> is \<open>n\<close>, the number of arguments so far.  Were an operand larger than what is
  left, \<open>a_n\<close> would wrap around and the next move leave the stack.
\<close>

fun expand_loop :: "'w t_world \<Rightarrow> t_cell list \<Rightarrow> nat \<Rightarrow> nat \<Rightarrow> nat \<Rightarrow> ('w, nat) xm" where
  "expand_loop w cs a n k =
     x_bind (fetch_size cs) (\<lambda>d.
       if n < d then x_undefined ''stack''
       else if n - d = 0 then x_return (k + d)
       else x_bind (x_read (a + d)) (\<lambda>x.
         x_bind (expand_source w x) (\<lambda>(m, get).
         x_then (expand_one (a + d) (n - d - 1) m get)
           (expand_loop w cs (a + d + m) (n - d - 1) (k + d + m)))))"

declare expand_loop.simps [simp del]

definition f_expand :: "'w t_world \<Rightarrow> t_cell list \<Rightarrow> nat \<Rightarrow> nat \<Rightarrow> ('w, nat) xm" where
  "f_expand w cs a_stack a_n = expand_loop w cs (a_stack + 2) a_n 0"


section \<open>Functions\<close>

text \<open>\<open>a_context->v_scope\<close>.\<close>

definition context_scope :: "('w, nat) xm" where
  "context_scope = x_state (\<lambda>s. case v_context_scope (r_context s) of None \<Rightarrow> x_undefined ''v_scope'' | Some a \<Rightarrow> x_return a)"

definition code_of :: "'w t_world \<Rightarrow> nat \<Rightarrow> (t_code \<Rightarrow> ('w, 'a) xm) \<Rightarrow> ('w, 'a) xm" where
  "code_of w i f = (case w_codes w i of None \<Rightarrow> x_undefined ''code'' | Some c \<Rightarrow> f c)"

text \<open>\<open>t_lambda::f_instantiate\<close>, with and without default values.\<close>

definition instantiate_lambda :: "nat \<Rightarrow> ('w, t_value) xm" where
  "instantiate_lambda code = x_bind context_scope (\<lambda>a_scope. x_new (H_lambda (Some a_scope) code))"

definition defaults_size :: "t_code \<Rightarrow> nat" where
  "defaults_size c = unat (of_nat (v_code_arguments c) - v_minimum c - (if v_code_variadic c then 1 else 0))"

definition instantiate_advanced :: "'w t_world \<Rightarrow> nat \<Rightarrow> nat \<Rightarrow> ('w, t_value) xm" where
  "instantiate_advanced w code a_stack =
     code_of w code (\<lambda>c.
     x_bind context_scope (\<lambda>a_scope.
     if 0 < defaults_size c then
       x_bind (x_cells a_stack (defaults_size c)) (\<lambda>vs.
       x_bind (x_new (H_tuple vs)) (\<lambda>t.
       x_new (H_advanced (Some a_scope) code (case t of V_object d \<Rightarrow> Some d | _ \<Rightarrow> None))))
     else x_new (H_advanced (Some a_scope) code None)))"

text \<open>The arguments of \<open>t_advanced_lambda\<close>: \<open>f__do_call\<close> up to \<open>f_call\<close>.\<close>

definition fill_defaults :: "t_code \<Rightarrow> t_value list \<Rightarrow> nat \<Rightarrow> nat \<Rightarrow> ('w, unit) xm" where
  "fill_defaults c ds a_stack a_n =
     (let i = a_n - unat (v_minimum c) in x_put_cells (a_stack + unat (v_minimum c) + 2 + i) (drop i ds))"

definition collect_rest :: "nat \<Rightarrow> nat \<Rightarrow> ('w, unit) xm" where
  "collect_rest a n = x_bind (x_cells a n) (\<lambda>vs. x_bind (x_new (H_tuple vs)) (\<lambda>t. x_write a t))"

definition advanced_arguments :: "'w t_world \<Rightarrow> t_code \<Rightarrow> nat option \<Rightarrow> nat \<Rightarrow> nat \<Rightarrow> ('w, unit) xm" where
  "advanced_arguments w c defaults a_stack a_n =
     (let arguments = (if v_code_variadic c then v_code_arguments c - 1 else v_code_arguments c) in
      if a_n < unat (v_minimum c) then x_result w (Inl (Thrown ''too few arguments.''))
      else if \<not> v_code_variadic c \<and> arguments < a_n then x_result w (Inl (Thrown ''too many arguments.''))
      else if a_n < arguments then
        (case defaults of
           None \<Rightarrow> x_undefined ''v_defaults''
         | Some d \<Rightarrow> x_bind (x_object d) (\<lambda>o1. case o1 of
               Some (H_tuple ds) \<Rightarrow>
                 x_then (fill_defaults c ds a_stack a_n)
                   (if v_code_variadic c then x_bind (x_new (H_tuple [])) (\<lambda>t. x_write (a_stack + v_code_arguments c + 1) t) else x_skip)
             | _ \<Rightarrow> x_undefined ''v_defaults''))
      else if v_code_variadic c then collect_rest (a_stack + arguments + 2) (a_n - arguments)
      else x_skip)"

section \<open>Calls\<close>

text \<open>The constructor of \<open>t_context\<close>, and \<open>t_lambda_shared::f_call\<close>, which adds a scope.\<close>

definition enter_context :: "t_code \<Rightarrow> nat \<Rightarrow> nat \<Rightarrow> ('w, unit) xm" where
  "enter_context c p a_stack =
     x_modify (\<lambda>s. s\<lparr>r_context := \<lparr>v_pc = 0, v_base = a_stack + 2, v_lambda = p, v_previous = v_stack_used s, v_context_scope = None\<rparr>,
       v_stack_used := a_stack + 2 + t_code.v_size c\<rparr>)"

definition enter_scope :: "t_code \<Rightarrow> nat option \<Rightarrow> ('w, unit) xm" where
  "enter_scope c a_outer =
     (if v_code_shared c
      then x_bind (x_new (H_scope (replicate (v_code_shareds c) V_null) a_outer)) (\<lambda>v. case v of
             V_object a \<Rightarrow> x_modify (\<lambda>s. s\<lparr>r_context := (r_context s)\<lparr>v_context_scope := Some a\<rparr>\<rparr>)
           | _ \<Rightarrow> x_undefined ''v_scope'')
      else x_skip)"

definition f_backtrace :: "'w t_world \<Rightarrow> t_value \<Rightarrow> nat \<Rightarrow> ('w, unit) xm" where
  "f_backtrace w a_value a_pc =
     x_modify (\<lambda>s. s\<lparr>v_heap := w_backtrace w a_value (v_lambda (r_context s)) a_pc (v_heap s)\<rparr>)"

text \<open>\<open>t_context::f_loop\<close>; \<open>loop\<close> is \<open>t_code::f_loop\<close>.  Its result \<open>None\<close> stands for \<open>size_t(-1)\<close>.\<close>

type_synonym 'w t_loop = "t_cell list \<Rightarrow> ('w, nat option) xm"

definition context_loop :: "'w t_world \<Rightarrow> 'w t_loop \<Rightarrow> t_cell list \<Rightarrow> ('w, nat option) xm" where
  "context_loop w loop cs =
     x_catch (loop cs) (\<lambda>x. case x of
         X_pair v a_pc \<Rightarrow>
           x_then (f_backtrace w v a_pc)
           (x_then (x_state (\<lambda>s. set_stack_used (v_previous (r_context s)))) (x_raise (X_value v)))
       | X_value v \<Rightarrow> x_raise x)"

text \<open>The context of the caller is on the C++ stack.\<close>

definition with_context :: "('w, 'a) xm \<Rightarrow> ('w, 'a) xm" where
  "with_context m =
     x_state (\<lambda>s. let restore = (\<lambda>s1. s1\<lparr>r_pc := r_pc s, r_context := r_context s\<rparr>) in
       x_catch (x_bind m (\<lambda>a. x_then (x_modify restore) (x_return a)))
         (\<lambda>x. x_then (x_modify restore) (x_raise x)))"

definition lambda_call :: "'w t_world \<Rightarrow> 'w t_loop \<Rightarrow> nat \<Rightarrow> nat option \<Rightarrow> t_code \<Rightarrow> nat \<Rightarrow> ('w, nat option) xm" where
  "lambda_call w loop p a_scope c a_stack =
     with_context
       (x_then (enter_context c p a_stack)
       (x_then (enter_scope c a_scope)
       (context_loop w loop (v_instructions c))))"

definition put_reply :: "nat \<Rightarrow> t_tail \<Rightarrow> ('w, nat option) xm" where
  "put_reply a_stack r = (case r of
       Inl v \<Rightarrow> x_then (x_write a_stack v) (x_return None)
     | Inr (callee, self, vs) \<Rightarrow> x_then (x_put_cells a_stack (callee # self # vs)) (x_return (Some (length vs))))"

definition other_call :: "'w t_world \<Rightarrow> nat \<Rightarrow> nat \<Rightarrow> nat \<Rightarrow> ('w, nat option) xm" where
  "other_call w p a_stack a_n =
     x_bind (x_read (a_stack + 1)) (\<lambda>self.
     x_bind (x_cells (a_stack + 2) a_n) (\<lambda>vs.
     x_bind (x_world (w_call w p self vs)) (put_reply a_stack)))"

text \<open>\<open>t_object::f_call_without_loop\<close>: \<open>f__do_call\<close> of functions, \<open>f_do_call\<close> of methods.  The depth of methods of
  methods is the fuel.\<close>

primrec call_without_loop :: "'w t_world \<Rightarrow> 'w t_loop \<Rightarrow> nat \<Rightarrow> nat \<Rightarrow> nat \<Rightarrow> nat \<Rightarrow> ('w, nat option) xm" where
  "call_without_loop w loop 0 p a_stack a_n = (\<lambda>s. Timeout)"
| "call_without_loop w loop (Suc k) p a_stack a_n =
     x_bind (x_object p) (\<lambda>o1. case o1 of
         Some (H_lambda a_scope code) \<Rightarrow> code_of w code (\<lambda>c.
           if a_n \<noteq> v_code_arguments c then x_result w (Inl (Thrown ''invalid number of arguments.''))
           else lambda_call w loop p a_scope c a_stack)
       | Some (H_advanced a_scope code defaults) \<Rightarrow> code_of w code (\<lambda>c.
           x_then (advanced_arguments w c defaults a_stack a_n) (lambda_call w loop p a_scope c a_stack))
       | Some (H_method f self) \<Rightarrow> x_then (x_write (a_stack + 1) self) (call_without_loop w loop k f a_stack a_n)
       | _ \<Rightarrow> other_call w p a_stack a_n)"

text \<open>\<open>xemmai::f_loop\<close> and \<open>t_value::f_call\<close>.\<close>

definition value_call_without_loop :: "'w t_world \<Rightarrow> 'w t_loop \<Rightarrow> nat \<Rightarrow> t_value \<Rightarrow> nat \<Rightarrow> nat \<Rightarrow> ('w, nat option) xm" where
  "value_call_without_loop w loop k v a_stack a_n =
     x_bind (x_result w (f_object_or_throw v)) (\<lambda>p. call_without_loop w loop k p a_stack a_n)"

primrec value_loop :: "'w t_world \<Rightarrow> 'w t_loop \<Rightarrow> nat \<Rightarrow> nat \<Rightarrow> nat \<Rightarrow> ('w, unit) xm" where
  "value_loop w loop 0 a_stack a_n = (\<lambda>s. Timeout)"
| "value_loop w loop (Suc k) a_stack a_n =
     x_bind (x_read a_stack) (\<lambda>v.
     x_bind (value_call_without_loop w loop (Suc k) v a_stack a_n) (\<lambda>r.
       case r of None \<Rightarrow> x_skip | Some n \<Rightarrow> value_loop w loop k a_stack n))"

definition finish_call :: "'w t_world \<Rightarrow> 'w t_loop \<Rightarrow> nat \<Rightarrow> nat \<Rightarrow> nat option \<Rightarrow> ('w, unit) xm" where
  "finish_call w loop k a_stack r = (case r of None \<Rightarrow> x_skip | Some n \<Rightarrow> value_loop w loop k a_stack n)"

definition value_call :: "'w t_world \<Rightarrow> 'w t_loop \<Rightarrow> nat \<Rightarrow> t_value \<Rightarrow> nat \<Rightarrow> nat \<Rightarrow> ('w, unit) xm" where
  "value_call w loop k v a_stack a_n =
     x_bind (value_call_without_loop w loop k v a_stack a_n) (finish_call w loop k a_stack)"

text \<open>\<open>t_context::f_tail\<close>: the callee and its arguments replace those of the running function.\<close>

definition f_tail :: "nat \<Rightarrow> nat \<Rightarrow> ('w, nat option) xm" where
  "f_tail a_stack a_n =
     x_state (\<lambda>s. let c = r_context s in
       x_then (x_move a_stack (a_n + 2) (v_base c - 2))
       (x_then (set_stack_used (max (v_previous c) (v_base c + a_n))) (x_return (Some a_n))))"

text \<open>The end of a function: \<open>base[-2] = a_x\<close> and \<open>label__RETURN_RESULT\<close>.\<close>

definition return_result :: "t_value \<Rightarrow> ('w, nat option) xm" where
  "return_result v =
     x_state (\<lambda>s. let c = r_context s in
       x_then (x_write (v_base c - 2) v) (x_then (set_stack_used (v_previous c)) (x_return None)))"

end
