(* ===== verification/Xm_Interp.thy ===== *)
theory Xm_Interp
  imports Xm_Machine
begin

text \<open>
  The interpreter (src/src/code.cc): \<open>t_code::f_loop\<close> with every instruction, \<open>f_try\<close>, \<open>f_rethrow\<close> and
  \<open>f_method_bind\<close>.  \<open>f_instruction\<close> is one turn of the loop, \<open>f_run\<close> the loop with fuel for its turns and for the
  calls below it, \<open>code_loop\<close> the function around the loop.

  The operands of an operator are read when they are fetched; the only cell that is written before their last
  use is \<open>stack[2]\<close>, the place of the second operand itself.  The caches that the instructions for fields carry
  belong to the look-up of fields; their cells are skipped.
\<close>

section \<open>Scopes\<close>

text \<open>\<open>a_context->v_lambda->f_as<t_lambda>().v_scope\<close> and \<open>f_outer\<close>.\<close>

definition lambda_scope :: "('w, nat) xm" where
  "lambda_scope = x_state (\<lambda>s. case v_objects (v_heap s) (v_lambda (r_context s)) of
       Some (H_lambda (Some a) _) \<Rightarrow> x_return a
     | Some (H_advanced (Some a) _ _) \<Rightarrow> x_return a
     | _ \<Rightarrow> x_undefined ''v_scope'')"

primrec outer_scope :: "nat \<Rightarrow> nat \<Rightarrow> ('w, nat) xm" where
  "outer_scope 0 a = x_return a"
| "outer_scope (Suc n) a = x_bind (x_object a) (\<lambda>o1. case o1 of
       Some (H_scope _ (Some b)) \<Rightarrow> outer_scope n b
     | _ \<Rightarrow> x_undefined ''v_outer'')"

definition scope_read :: "nat \<Rightarrow> nat \<Rightarrow> ('w, t_value) xm" where
  "scope_read a i = x_bind (x_object a) (\<lambda>o1. case o1 of
       Some (H_scope vs _) \<Rightarrow> if i < length vs then x_return (vs ! i) else x_undefined ''f_entries''
     | _ \<Rightarrow> x_undefined ''t_scope'')"

definition scope_write :: "nat \<Rightarrow> nat \<Rightarrow> t_value \<Rightarrow> ('w, unit) xm" where
  "scope_write a i v = x_bind (x_object a) (\<lambda>o1. case o1 of
       Some (H_scope vs b) \<Rightarrow>
         if i < length vs
         then x_modify (\<lambda>s. s\<lparr>v_heap := (v_heap s)\<lparr>v_objects := (v_objects (v_heap s))(a \<mapsto> H_scope (vs[i := v]) b)\<rparr>\<rparr>)
         else x_undefined ''f_entries''
     | _ \<Rightarrow> x_undefined ''t_scope'')"

text \<open>The scope that is \<open>outer\<close> functions away: 0 is that of the running function.\<close>

definition scope_at :: "nat \<Rightarrow> ('w, nat) xm" where
  "scope_at n = (if n = 0 then context_scope else x_bind lambda_scope (outer_scope (n - 1)))"

section \<open>Methods of objects\<close>

text \<open>\<open>f_get_at\<close> of functions and of tuples; everything else is an operation of the world.\<close>

definition tuple_get_at :: "'w t_world \<Rightarrow> t_value list \<Rightarrow> t_value \<Rightarrow> t_value result" where
  "tuple_get_at w vs index = (case intptr_as (w_store w) index of
       None \<Rightarrow> f_throw_type_error ''index''
     | Some i \<Rightarrow> if length vs \<le> unat i then f_throw_out_of_range else Inr (vs ! unat i))"

definition reply_result :: "'w t_world \<Rightarrow> 'a result \<Rightarrow> 'w t_heap \<Rightarrow> ('w, 'a) t_reply" where
  "reply_result w r h = (case r of
       Inr a \<Rightarrow> Reply a h
     | Inl e \<Rightarrow> (case w_throwable w e h of (x, h1) \<Rightarrow> Reply_throw x h1))"

definition bound_method :: "nat \<Rightarrow> t_value \<Rightarrow> 'w t_heap \<Rightarrow> ('w, t_tail) t_reply" where
  "bound_method p self h = (case f_new_object (H_method p self) h of (a, h1) \<Rightarrow> Reply (Inl (V_object a)) h1)"

definition object_method :: "'w t_world \<Rightarrow> t_method_name \<Rightarrow> nat \<Rightarrow> t_value list \<Rightarrow> 'w t_heap \<Rightarrow> ('w, t_tail) t_reply" where
  "object_method w m p vs h =
     (case (m, vs, v_objects h p) of
        (M_get_at, [index], Some (H_lambda _ _)) \<Rightarrow> bound_method p index h
      | (M_get_at, [index], Some (H_advanced _ _ _)) \<Rightarrow> bound_method p index h
      | (M_get_at, [index], Some (H_tuple xs)) \<Rightarrow> reply_result w (map_sum id Inl (tuple_get_at w xs index)) h
      | _ \<Rightarrow> w_method w m p vs h)"

text \<open>\<open>t_context::f_call\<close> and \<open>t_context::f_tail\<close> on a method; \<open>vs\<close> are its arguments, from \<open>stack[2]\<close> on.\<close>

definition method_call :: "'w t_world \<Rightarrow> 'w t_loop \<Rightarrow> nat \<Rightarrow> t_method_name \<Rightarrow> nat \<Rightarrow> nat \<Rightarrow> t_value list \<Rightarrow> ('w, unit) xm" where
  "method_call w loop k m p stack vs =
     x_then save_pc
     (x_bind (x_world (object_method w m p vs)) (\<lambda>r.
      x_bind (put_reply stack r) (finish_call w loop k stack)))"

definition method_tail :: "'w t_world \<Rightarrow> t_method_name \<Rightarrow> nat \<Rightarrow> nat \<Rightarrow> t_value list \<Rightarrow> ('w, nat option) xm" where
  "method_tail w m p stack vs =
     x_then save_pc
     (x_bind (x_world (object_method w m p vs)) (\<lambda>r.
      x_bind (put_reply stack r) (\<lambda>n. case n of
          Some n1 \<Rightarrow> f_tail stack n1
        | None \<Rightarrow> x_bind (x_read stack) return_result)))"

section \<open>Turns of the loop\<close>

datatype t_turn = Continue | Exit "nat option"

definition x_continue :: "('w, 'a) xm \<Rightarrow> ('w, t_turn) xm" where
  "x_continue m = x_then m (x_return Continue)"

definition x_exit :: "('w, nat option) xm \<Rightarrow> ('w, t_turn) xm" where
  "x_exit m = x_bind m (\<lambda>r. x_return (Exit r))"

text \<open>Instructions that take \<open>stack\<close> and nothing else, or a cached symbol.\<close>

definition i_slot :: "t_cell list \<Rightarrow> (nat \<Rightarrow> ('w, 'a) xm) \<Rightarrow> ('w, t_turn) xm" where
  "i_slot cs f = x_bind (fetch_slot cs) (\<lambda>stack. x_then x_next (x_continue (f stack)))"

definition i_symbol :: "'w t_world \<Rightarrow> t_cell list \<Rightarrow> (nat \<Rightarrow> t_value \<Rightarrow> ('w, 'a) xm) \<Rightarrow> ('w, t_turn) xm" where
  "i_symbol w cs f = x_bind (fetch_slot cs) (\<lambda>stack. x_bind (fetch_symbol w cs) (\<lambda>key.
     x_then (fetch_size cs) (x_then x_next (x_continue (f stack key)))))"

definition i_indirect :: "t_cell list \<Rightarrow> (nat \<Rightarrow> ('w, 'a) xm) \<Rightarrow> ('w, t_turn) xm" where
  "i_indirect cs f = x_bind (fetch_slot cs) (\<lambda>stack. x_then (fetch_size cs) (x_then x_next (x_continue (f stack))))"

definition put_field :: "'w t_world \<Rightarrow> nat \<Rightarrow> t_value \<Rightarrow> nat \<Rightarrow> ('w, unit) xm" where
  "put_field w stack key i =
     x_bind (x_read stack) (\<lambda>top. x_bind (x_read (stack + i)) (\<lambda>v.
     x_bind (x_result w (f_object_or_throw top)) (\<lambda>_.
     x_then (x_world (w_put w top key v)) (x_write stack v))))"

definition get_field :: "'w t_world \<Rightarrow> nat \<Rightarrow> t_value \<Rightarrow> ('w, unit) xm" where
  "get_field w stack key =
     x_bind (x_read stack) (\<lambda>top. x_bind (x_world (w_get w top key)) (x_write stack))"

definition has_field :: "'w t_world \<Rightarrow> nat \<Rightarrow> t_value \<Rightarrow> ('w, unit) xm" where
  "has_field w stack key =
     x_bind (x_read stack) (\<lambda>top. case top of
         V_object _ \<Rightarrow> x_bind (x_world (w_has w top key)) (\<lambda>b. x_write stack (V_bool b))
       | _ \<Rightarrow> x_write stack V_false)"

definition i_method_get :: "'w t_world \<Rightarrow> nat \<Rightarrow> t_value \<Rightarrow> ('w, unit) xm" where
  "i_method_get w stack key =
     x_bind (x_read stack) (\<lambda>top. x_bind (x_world (w_bind w top key)) (\<lambda>(f, self).
     x_then (x_write stack f) (x_write (stack + 1) self)))"

text \<open>\<open>f_method_bind\<close>.\<close>

definition f_method_bind :: "'w t_world \<Rightarrow> 'w t_loop \<Rightarrow> nat \<Rightarrow> nat \<Rightarrow> nat \<Rightarrow> ('w, unit) xm" where
  "f_method_bind w loop k p stack =
     x_bind (x_read (stack + 1)) (\<lambda>index.
     x_then (x_write (stack + 2) index)
     (x_bind (x_world (object_method w M_get_at p [index])) (\<lambda>r.
      x_bind (put_reply stack r) (\<lambda>n.
      x_then (finish_call w loop k stack n) (x_write (stack + 1) V_null)))))"

definition i_method_bind :: "'w t_world \<Rightarrow> 'w t_loop \<Rightarrow> nat \<Rightarrow> nat \<Rightarrow> ('w, unit) xm" where
  "i_method_bind w loop k stack =
     x_bind (x_read stack) (\<lambda>v. x_bind (x_result w (f_object_or_throw v)) (\<lambda>p.
     x_state (\<lambda>s. if w_bindable w p (v_heap s) then x_skip else f_method_bind w loop k p stack)))"

definition i_super :: "'w t_world \<Rightarrow> nat \<Rightarrow> ('w, unit) xm" where
  "i_super w stack =
     x_bind (x_read stack) (\<lambda>top. x_state (\<lambda>s.
       if \<not> w_is_class w top (v_heap s) then x_result w (Inl (Thrown ''not class.''))
       else case w_super w top (v_heap s) of
         Some v \<Rightarrow> x_write stack v
       | None \<Rightarrow> x_then (x_write stack V_null) (x_result w (Inl (Thrown ''no more super class.'')))))"

definition i_class :: "'w t_world \<Rightarrow> nat \<Rightarrow> ('w, unit) xm" where
  "i_class w stack = x_bind (x_read stack) (\<lambda>top. x_state (\<lambda>s. x_write stack (w_type w top (v_heap s))))"

definition i_self :: "nat \<Rightarrow> ('w, unit) xm" where
  "i_self stack = x_state (\<lambda>s. x_bind (x_read (v_base (r_context s) - 1)) (x_write stack))"

text \<open>\<open>SCOPE_GET0\<close> to \<open>SCOPE_GET2\<close> and \<open>SCOPE_PUT0\<close>; \<open>SCOPE_GET\<close> and \<open>SCOPE_PUT\<close> have the number of functions as an operand.\<close>

definition i_scope_get :: "t_cell list \<Rightarrow> nat \<Rightarrow> ('w, t_turn) xm" where
  "i_scope_get cs n =
     x_bind (fetch_slot cs) (\<lambda>stack. x_bind (fetch_entry cs) (\<lambda>index. x_then x_next
       (x_continue (x_bind (scope_at n) (\<lambda>a. x_bind (scope_read a index) (x_write stack))))))"

definition i_scope_get_outer :: "t_cell list \<Rightarrow> ('w, t_turn) xm" where
  "i_scope_get_outer cs =
     x_bind (fetch_slot cs) (\<lambda>stack. x_bind (fetch_size cs) (\<lambda>n. x_bind (fetch_entry cs) (\<lambda>index. x_then x_next
       (if n < 3 then x_undefined ''assertion''
        else x_continue (x_bind (scope_at n) (\<lambda>a. x_bind (scope_read a index) (x_write stack)))))))"

definition i_scope_put0 :: "t_cell list \<Rightarrow> ('w, t_turn) xm" where
  "i_scope_put0 cs =
     x_bind (fetch_slot cs) (\<lambda>stack. x_bind (fetch_entry cs) (\<lambda>index. x_then x_next
       (x_continue (x_bind (scope_at 0) (\<lambda>a. x_bind (x_read stack) (scope_write a index))))))"

definition i_scope_put :: "t_cell list \<Rightarrow> ('w, t_turn) xm" where
  "i_scope_put cs =
     x_bind (fetch_slot cs) (\<lambda>stack. x_bind (fetch_size cs) (\<lambda>n. x_bind (fetch_entry cs) (\<lambda>index. x_then x_next
       (if n < 1 then x_undefined ''assertion''
        else x_continue (x_bind (scope_at n) (\<lambda>a. x_bind (x_read stack) (scope_write a index)))))))"

section \<open>Operators\<close>

text \<open>The operands by their encoding; \<open>i\<close> is 1 for the first and 2 for the second.\<close>

fun fetch_operand :: "'w t_world \<Rightarrow> t_cell list \<Rightarrow> nat \<Rightarrow> nat \<Rightarrow> t_encoding \<Rightarrow> ('w, rt_operand) xm" where
  "fetch_operand w cs stack i E_I = x_bind (fetch_integer cs) (\<lambda>n. x_return (R_INTEGER n))"
| "fetch_operand w cs stack i E_F = x_bind (fetch_float cs) (\<lambda>x. x_return (R_FLOAT x))"
| "fetch_operand w cs stack i E_L = x_bind (fetch_value w cs) (\<lambda>v. x_return (R_LITERAL v))"
| "fetch_operand w cs stack i E_V = x_bind (fetch_slot cs) (\<lambda>a. x_bind (x_read a) (\<lambda>v. x_return (R_VARIABLE v)))"
| "fetch_operand w cs stack i E_T = x_bind (x_read (stack + i)) (\<lambda>v. x_return (R_TEMPORARY v))"

text \<open>\<open>PRIMITIVE_CALL\<close> and \<open>OBJECT_CALL\<close>, in their two variants.\<close>

definition operator_action :: "'w t_world \<Rightarrow> 'w t_loop \<Rightarrow> nat \<Rightarrow> bool \<Rightarrow> t_method_name \<Rightarrow> nat \<Rightarrow> t_value \<Rightarrow> t_value list \<Rightarrow> ('w, unit) xm \<Rightarrow> action \<Rightarrow> ('w, t_turn) xm" where
  "operator_action w loop k tail m stack a0 vs prepare x = (case x of
       Primitive v \<Rightarrow> if tail then x_exit (return_result v) else x_continue (x_write stack v)
     | Object_call \<Rightarrow> (case a0 of
           V_object p \<Rightarrow> x_then prepare
             (if tail then x_exit (method_tail w m p stack vs) else x_continue (method_call w loop k m p stack vs))
         | _ \<Rightarrow> x_undefined ''object''))"

definition i_unary :: "'w t_world \<Rightarrow> 'w t_loop \<Rightarrow> nat \<Rightarrow> t_cell list \<Rightarrow> unop \<Rightarrow> t_encoding \<Rightarrow> bool \<Rightarrow> ('w, t_turn) xm" where
  "i_unary w loop k cs op e tail =
     x_bind (fetch_slot cs) (\<lambda>stack. x_bind (fetch_operand w cs stack 1 e) (\<lambda>a0. x_then x_next
       (x_bind (x_result w (unary op (rt_value a0)))
         (operator_action w loop k tail (M_unary op) stack (rt_value a0) [] x_skip))))"

definition i_binary :: "'w t_world \<Rightarrow> 'w t_loop \<Rightarrow> nat \<Rightarrow> t_cell list \<Rightarrow> binop \<Rightarrow> t_encoding \<Rightarrow> t_encoding \<Rightarrow> bool \<Rightarrow> ('w, t_turn) xm" where
  "i_binary w loop k cs op e0 e1 tail =
     x_bind (fetch_slot cs) (\<lambda>stack. x_bind (fetch_operand w cs stack 1 e0) (\<lambda>a0. x_bind (fetch_operand w cs stack 2 e1) (\<lambda>a1. x_then x_next
       (if is_number a0 \<and> is_number a1 then x_undefined ''label''
        else x_bind (x_result w (select (w_store w) op a0 a1))
         (operator_action w loop k tail (M_binary op) stack (rt_value a0) [rt_value a1]
           (if e1 = E_T then x_skip else x_write (stack + 2) (rt_value a1)))))))"

text \<open>\<open>GET_AT\<close> and \<open>SET_AT\<close>, with \<open>n\<close> arguments.\<close>

definition i_at :: "'w t_world \<Rightarrow> 'w t_loop \<Rightarrow> nat \<Rightarrow> t_cell list \<Rightarrow> t_method_name \<Rightarrow> nat \<Rightarrow> bool \<Rightarrow> ('w, t_turn) xm" where
  "i_at w loop k cs m n tail =
     x_bind (fetch_slot cs) (\<lambda>stack. x_then x_next
       (x_bind (x_read (stack + 1)) (\<lambda>a0. x_bind (x_cells (stack + 2) n) (\<lambda>vs.
        x_bind (x_result w (object_or_throw a0)) (operator_action w loop k tail m stack a0 vs x_skip)))))"

section \<open>Calls\<close>

definition call_at :: "'w t_world \<Rightarrow> 'w t_loop \<Rightarrow> nat \<Rightarrow> bool \<Rightarrow> nat \<Rightarrow> nat \<Rightarrow> ('w, t_turn) xm" where
  "call_at w loop k tail stack n =
     (if tail then x_exit (f_tail stack n)
      else x_then x_next (x_then save_pc (x_continue (x_bind (x_read stack) (\<lambda>v. value_call w loop k v stack n)))))"

definition i_call :: "'w t_world \<Rightarrow> 'w t_loop \<Rightarrow> nat \<Rightarrow> t_cell list \<Rightarrow> bool \<Rightarrow> ('w, t_turn) xm" where
  "i_call w loop k cs tail =
     x_bind (fetch_slot cs) (\<lambda>stack. x_bind (fetch_size cs) (\<lambda>n. call_at w loop k tail stack n))"

definition i_call_with_expansion :: "'w t_world \<Rightarrow> 'w t_loop \<Rightarrow> nat \<Rightarrow> t_cell list \<Rightarrow> bool \<Rightarrow> ('w, t_turn) xm" where
  "i_call_with_expansion w loop k cs tail =
     x_bind (fetch_slot cs) (\<lambda>stack. x_bind (fetch_size cs) (\<lambda>n. x_bind (f_expand w cs stack n) (\<lambda>n. call_at w loop k tail stack n)))"

text \<open>A callee that is read from a variable: on the stack, or in a scope.\<close>

definition call_variable :: "'w t_world \<Rightarrow> 'w t_loop \<Rightarrow> nat \<Rightarrow> bool \<Rightarrow> nat \<Rightarrow> nat \<Rightarrow> ('w, t_value) xm \<Rightarrow> ('w, t_turn) xm" where
  "call_variable w loop k tail stack n get =
     (if tail then
        x_bind get (\<lambda>v. x_then (x_write stack v) (x_then (x_write (stack + 1) V_null) (x_exit (f_tail stack n))))
      else x_then x_next (x_then save_pc (x_then (x_write (stack + 1) V_null)
        (x_continue (x_bind get (\<lambda>v. value_call w loop k v stack n))))))"

definition i_stack_call :: "'w t_world \<Rightarrow> 'w t_loop \<Rightarrow> nat \<Rightarrow> t_cell list \<Rightarrow> bool \<Rightarrow> ('w, t_turn) xm" where
  "i_stack_call w loop k cs tail =
     x_bind (fetch_slot cs) (\<lambda>stack. x_bind (fetch_slot cs) (\<lambda>a. x_bind (fetch_size cs) (\<lambda>n.
       call_variable w loop k tail stack n (x_read a))))"

definition i_scope_call :: "'w t_world \<Rightarrow> 'w t_loop \<Rightarrow> nat \<Rightarrow> t_cell list \<Rightarrow> nat \<Rightarrow> bool \<Rightarrow> ('w, t_turn) xm" where
  "i_scope_call w loop k cs outer tail =
     x_bind (fetch_slot cs) (\<lambda>stack. x_bind (fetch_entry cs) (\<lambda>index. x_bind (fetch_size cs) (\<lambda>n.
       call_variable w loop k tail stack n (x_bind (scope_at outer) (\<lambda>a. scope_read a index)))))"

section \<open>Exceptions\<close>

text \<open>\<open>t_code::f_rethrow\<close>.\<close>

definition f_rethrow :: "'w t_world \<Rightarrow> nat \<Rightarrow> t_exception \<Rightarrow> ('w, 'a) xm" where
  "f_rethrow w a_pc x = (case x of
       X_value v \<Rightarrow> x_raise (X_pair v a_pc)
     | X_pair _ _ \<Rightarrow> (\<lambda>s. case w_throwable w (Thrown ''<unknown>.'') (v_heap s) of (v, h) \<Rightarrow> Raise (X_pair v a_pc) (s\<lparr>v_heap := h\<rparr>)))"

text \<open>\<open>pc\<close> of \<open>f_try\<close> is \<open>a_context->v_pc\<close>.\<close>

definition context_pc :: "(nat \<Rightarrow> ('w, 'a) xm) \<Rightarrow> ('w, 'a) xm" where
  "context_pc f = x_state (\<lambda>s. f (v_pc (r_context s)))"

definition set_context_pc :: "nat \<Rightarrow> ('w, unit) xm" where
  "set_context_pc a = x_modify (\<lambda>s. s\<lparr>r_context := (r_context s)\<lparr>v_pc := a\<rparr>\<rparr>)"

definition context_cell :: "t_cell list \<Rightarrow> ('w, t_cell) xm" where
  "context_cell cs = context_pc (\<lambda>a. if a < length cs then x_return (cs ! a) else x_undefined ''pc'')"

definition context_next :: "('w, unit) xm" where
  "context_next = context_pc (\<lambda>a. set_context_pc (Suc a))"

definition context_fetch :: "t_cell list \<Rightarrow> ('w, t_cell) xm" where
  "context_fetch cs = x_then context_next (context_cell cs)"

definition cell_address :: "t_cell \<Rightarrow> ('w, nat) xm" where
  "cell_address c = (case c of C_address a \<Rightarrow> x_return a | _ \<Rightarrow> x_undefined ''address'')"

fun try_code :: "t_try_exit \<Rightarrow> nat" where
  "try_code c_try__CATCH = 0"
| "try_code c_try__STEP = 1"
| "try_code c_try__BREAK = 2"
| "try_code c_try__CONTINUE = 3"
| "try_code c_try__RETURN = 4"
| "try_code c_try__THROW = 5"

text \<open>The variable of a \<open>catch\<close> is on the stack, or in the scope when the operand is a complement.\<close>

definition put_caught :: "t_cell \<Rightarrow> t_value \<Rightarrow> ('w, unit) xm" where
  "put_caught c thrown = (case c of
       C_slot i \<Rightarrow> x_state (\<lambda>s. x_write (v_base (r_context s) + i) thrown)
     | C_not_entry i \<Rightarrow> x_bind context_scope (\<lambda>a. scope_write a i thrown)
     | _ \<Rightarrow> x_undefined ''index'')"

definition catch_match :: "'w t_world \<Rightarrow> t_cell list \<Rightarrow> nat \<Rightarrow> t_value \<Rightarrow> nat \<Rightarrow> ('w, unit) xm" where
  "catch_match w cs stack thrown place =
     x_then context_next
     (x_bind (x_read stack) (\<lambda>t. x_state (\<lambda>s.
       if \<not> w_is_type w t (v_heap s) then x_result w (f_throw_type_error ''type'')
       else if \<not> f_equal thrown (w_fiber_exit w) \<and> w_is w thrown t (v_heap s) then
         x_bind (context_fetch cs) (\<lambda>index.
         x_then context_next
         (x_then (f_backtrace w thrown place) (put_caught index thrown)))
       else x_bind (context_cell cs) (\<lambda>c. x_bind (cell_address c) set_context_pc))))"

text \<open>\<open>finally\<close> on the way of an exception.\<close>

definition finally_raise :: "'w t_loop \<Rightarrow> t_cell list \<Rightarrow> nat \<Rightarrow> t_exception \<Rightarrow> ('w, 'a) xm" where
  "finally_raise loop cs finally0 x = x_then (set_context_pc finally0) (x_then (loop cs) (x_raise x))"

text \<open>One turn of the loop over the catches: \<open>Some\<close> with the code that leaves it.\<close>

definition catch_turn :: "'w t_world \<Rightarrow> 'w t_loop \<Rightarrow> t_cell list \<Rightarrow> nat \<Rightarrow> nat \<Rightarrow> t_value \<Rightarrow> nat \<Rightarrow> ('w, nat option option) xm" where
  "catch_turn w loop cs stack finally0 thrown place =
     x_catch
       (x_bind (loop cs) (\<lambda>try0.
          if try0 \<noteq> Some (try_code c_try__CATCH) then x_return (Some try0)
          else x_then
            (x_catch (catch_match w cs stack thrown place) (\<lambda>x. context_pc (\<lambda>a. f_rethrow w a x)))
            (x_return None)))
       (finally_raise loop cs finally0)"

primrec catch_turns :: "'w t_world \<Rightarrow> 'w t_loop \<Rightarrow> nat \<Rightarrow> t_cell list \<Rightarrow> nat \<Rightarrow> nat \<Rightarrow> t_value \<Rightarrow> nat \<Rightarrow> ('w, nat option) xm" where
  "catch_turns w loop 0 cs stack finally0 thrown place = (\<lambda>s. Timeout)"
| "catch_turns w loop (Suc k) cs stack finally0 thrown place =
     x_bind (catch_turn w loop cs stack finally0 thrown place) (\<lambda>r. case r of
         Some try0 \<Rightarrow> x_return try0
       | None \<Rightarrow> catch_turns w loop k cs stack finally0 thrown place)"

text \<open>\<open>catch (const std::pair<t_rvalue, void**>& pair)\<close>; what \<open>f_loop\<close> throws is always a pair.\<close>

definition try_handler :: "'w t_world \<Rightarrow> 'w t_loop \<Rightarrow> nat \<Rightarrow> t_cell list \<Rightarrow> nat \<Rightarrow> nat \<Rightarrow> nat \<Rightarrow> t_exception \<Rightarrow> ('w, nat option) xm" where
  "try_handler w loop k cs stack catch0 finally0 x = (case x of
       X_pair thrown place \<Rightarrow>
         x_then (set_context_pc catch0)
         (x_bind (catch_turns w loop k cs stack finally0 thrown place) (\<lambda>try0.
           if try0 = Some (try_code c_try__THROW) then finally_raise loop cs finally0 x
           else x_return try0))
     | X_value _ \<Rightarrow> x_raise x)"

text \<open>The end of \<open>f_try\<close>, after \<open>YRT\<close>: a target that is null is not jumped to.\<close>

definition try_exit :: "t_cell list \<Rightarrow> nat option \<Rightarrow> ('w, unit) xm" where
  "try_exit cs try0 =
     x_bind (context_fetch cs) (\<lambda>break0. x_bind (context_fetch cs) (\<lambda>continue0. x_bind (context_fetch cs) (\<lambda>return0.
       if try0 = Some (try_code c_try__BREAK) then x_bind (cell_address break0) set_context_pc
       else if try0 = Some (try_code c_try__CONTINUE) then x_bind (cell_address continue0) set_context_pc
       else if try0 = Some (try_code c_try__RETURN) then x_bind (cell_address return0) set_context_pc
       else context_next)))"

definition try_operands :: "t_cell list \<Rightarrow> ('w, nat \<times> nat \<times> nat) xm" where
  "try_operands cs =
     x_bind (context_fetch cs) (\<lambda>c0. x_bind (context_fetch cs) (\<lambda>c1. x_bind (context_fetch cs) (\<lambda>c2.
       case (c0, c1, c2) of
         (C_slot i, C_address catch0, C_address finally0) \<Rightarrow>
           x_then context_next (x_state (\<lambda>s. x_return (v_base (r_context s) + i, catch0, finally0)))
       | _ \<Rightarrow> x_undefined ''TRY'')))"

definition f_try :: "'w t_world \<Rightarrow> 'w t_loop \<Rightarrow> nat \<Rightarrow> t_cell list \<Rightarrow> ('w, unit) xm" where
  "f_try w loop k cs =
     x_bind (try_operands cs) (\<lambda>(stack, catch0, finally0).
     x_bind (x_catch (loop cs) (try_handler w loop k cs stack catch0 finally0)) (\<lambda>try0.
     x_then (set_context_pc finally0)
     (x_then (loop cs) (try_exit cs try0))))"

section \<open>The loop\<close>

definition i_jump :: "t_cell list \<Rightarrow> ('w, t_turn) xm" where
  "i_jump cs = x_bind (fetch_address cs) (\<lambda>a. x_continue (set_pc a))"

definition i_branch :: "t_cell list \<Rightarrow> ('w, t_turn) xm" where
  "i_branch cs = x_bind (fetch_slot cs) (\<lambda>stack. x_bind (fetch_address cs) (\<lambda>a. x_bind (x_read stack) (\<lambda>v.
     x_continue (if f_boolean v then x_next else set_pc a))))"

definition i_try :: "'w t_world \<Rightarrow> 'w t_loop \<Rightarrow> nat \<Rightarrow> t_cell list \<Rightarrow> ('w, t_turn) xm" where
  "i_try w loop k cs =
     x_then save_pc (x_then (f_try w loop k cs) (x_continue (x_state (\<lambda>s. set_pc (v_pc (r_context s))))))"

definition i_finally :: "t_cell list \<Rightarrow> ('w, t_turn) xm" where
  "i_finally cs = x_bind (x_fetch cs) (\<lambda>c. x_then save_pc (case c of
     C_try x \<Rightarrow> x_return (Exit (Some (try_code x))) | _ \<Rightarrow> x_undefined ''t_try''))"

definition i_stack_get :: "t_cell list \<Rightarrow> ('w, t_turn) xm" where
  "i_stack_get cs = x_bind (fetch_slot cs) (\<lambda>stack. x_bind (fetch_slot cs) (\<lambda>a. x_then x_next
     (x_continue (x_bind (x_read a) (x_write stack)))))"

definition i_stack_put :: "t_cell list \<Rightarrow> ('w, t_turn) xm" where
  "i_stack_put cs = x_bind (fetch_slot cs) (\<lambda>stack. x_bind (fetch_slot cs) (\<lambda>a. x_then x_next
     (x_continue (x_bind (x_read stack) (x_write a)))))"

definition i_constant :: "t_cell list \<Rightarrow> ('w, t_value) xm \<Rightarrow> ('w, t_turn) xm" where
  "i_constant cs get = x_bind (fetch_slot cs) (\<lambda>stack. x_bind get (\<lambda>v. x_then x_next (x_continue (x_write stack v))))"

definition i_lambda :: "t_cell list \<Rightarrow> (nat \<Rightarrow> nat \<Rightarrow> ('w, t_value) xm) \<Rightarrow> ('w, t_turn) xm" where
  "i_lambda cs f = x_bind (fetch_slot cs) (\<lambda>stack. x_bind (fetch_code cs) (\<lambda>code. x_then x_next
     (x_continue (x_bind (f code stack) (x_write stack)))))"

definition i_indirect_key :: "t_cell list \<Rightarrow> (nat \<Rightarrow> t_value \<Rightarrow> ('w, unit) xm) \<Rightarrow> ('w, t_turn) xm" where
  "i_indirect_key cs f = i_indirect cs (\<lambda>stack. x_bind (x_read (stack + 1)) (f stack))"

definition i_throw :: "nat \<Rightarrow> ('w, unit) xm" where
  "i_throw stack = x_bind (x_read stack) (\<lambda>v. x_raise (X_value v))"

text \<open>The debugger: a safe point only notes where it is.\<close>

definition i_debug :: "('w, t_turn) xm" where
  "i_debug = x_then x_next (x_then save_pc (x_return Continue))"

fun f_instruction :: "'w t_world \<Rightarrow> 'w t_loop \<Rightarrow> nat \<Rightarrow> t_cell list \<Rightarrow> t_instruction \<Rightarrow> ('w, t_turn) xm" where
  "f_instruction w loop k cs I_JUMP = i_jump cs"
| "f_instruction w loop k cs I_BRANCH = i_branch cs"
| "f_instruction w loop k cs I_TRY = i_try w loop k cs"
| "f_instruction w loop k cs I_CATCH = x_then save_pc (x_return (Exit (Some (try_code c_try__CATCH))))"
| "f_instruction w loop k cs I_FINALLY = i_finally cs"
| "f_instruction w loop k cs I_YRT = x_then save_pc (x_return (Exit (Some 0)))"
| "f_instruction w loop k cs I_THROW = i_slot cs i_throw"
| "f_instruction w loop k cs I_OBJECT_GET = i_symbol w cs (get_field w)"
| "f_instruction w loop k cs I_OBJECT_GET_INDIRECT = i_indirect_key cs (get_field w)"
| "f_instruction w loop k cs I_OBJECT_PUT = i_symbol w cs (\<lambda>stack key. put_field w stack key 1)"
| "f_instruction w loop k cs I_OBJECT_PUT_INDIRECT = i_indirect_key cs (\<lambda>stack key. put_field w stack key 2)"
| "f_instruction w loop k cs I_OBJECT_HAS = i_symbol w cs (has_field w)"
| "f_instruction w loop k cs I_OBJECT_HAS_INDIRECT = i_indirect_key cs (has_field w)"
| "f_instruction w loop k cs I_METHOD_GET = i_symbol w cs (i_method_get w)"
| "f_instruction w loop k cs I_METHOD_BIND = i_slot cs (i_method_bind w loop k)"
| "f_instruction w loop k cs I_GLOBAL_GET = i_symbol w cs (\<lambda>stack key. x_bind (x_world (w_global_get w key)) (x_write stack))"
| "f_instruction w loop k cs I_STACK_GET = i_stack_get cs"
| "f_instruction w loop k cs I_STACK_PUT = i_stack_put cs"
| "f_instruction w loop k cs I_SCOPE_GET0 = i_scope_get cs 0"
| "f_instruction w loop k cs I_SCOPE_GET1 = i_scope_get cs 1"
| "f_instruction w loop k cs I_SCOPE_GET2 = i_scope_get cs 2"
| "f_instruction w loop k cs I_SCOPE_GET = i_scope_get_outer cs"
| "f_instruction w loop k cs I_SCOPE_PUT0 = i_scope_put0 cs"
| "f_instruction w loop k cs I_SCOPE_PUT = i_scope_put cs"
| "f_instruction w loop k cs I_LAMBDA = i_lambda cs (\<lambda>code _. instantiate_lambda code)"
| "f_instruction w loop k cs I_ADVANCED_LAMBDA = i_lambda cs (instantiate_advanced w)"
| "f_instruction w loop k cs I_SELF = i_slot cs i_self"
| "f_instruction w loop k cs I_CLASS = i_slot cs (i_class w)"
| "f_instruction w loop k cs I_SUPER = i_slot cs (i_super w)"
| "f_instruction w loop k cs I_NUL = i_slot cs (\<lambda>stack. x_write stack V_null)"
| "f_instruction w loop k cs I_INTEGER = i_constant cs (x_bind (fetch_integer cs) (\<lambda>n. x_return (V_integer n)))"
| "f_instruction w loop k cs I_FLOAT = i_constant cs (x_bind (fetch_float cs) (\<lambda>x. x_return (V_float x)))"
| "f_instruction w loop k cs I_INSTANCE = i_constant cs (fetch_value w cs)"
| "f_instruction w loop k cs I_RETURN_NUL = x_exit (return_result V_null)"
| "f_instruction w loop k cs I_RETURN_INTEGER = x_exit (x_bind (fetch_integer cs) (\<lambda>n. return_result (V_integer n)))"
| "f_instruction w loop k cs I_RETURN_FLOAT = x_exit (x_bind (fetch_float cs) (\<lambda>x. return_result (V_float x)))"
| "f_instruction w loop k cs I_RETURN_INSTANCE = x_exit (x_bind (fetch_value w cs) return_result)"
| "f_instruction w loop k cs I_RETURN = x_exit (x_bind (fetch_slot cs) (\<lambda>a. x_bind (x_read a) return_result))"
| "f_instruction w loop k cs (I_CALL tail) = i_call w loop k cs tail"
| "f_instruction w loop k cs (I_CALL_WITH_EXPANSION tail) = i_call_with_expansion w loop k cs tail"
| "f_instruction w loop k cs (I_STACK_CALL tail) = i_stack_call w loop k cs tail"
| "f_instruction w loop k cs (I_SCOPE_CALL0 tail) = i_scope_call w loop k cs 0 tail"
| "f_instruction w loop k cs (I_SCOPE_CALL1 tail) = i_scope_call w loop k cs 1 tail"
| "f_instruction w loop k cs (I_SCOPE_CALL2 tail) = i_scope_call w loop k cs 2 tail"
| "f_instruction w loop k cs (I_GET_AT tail) = i_at w loop k cs M_get_at 1 tail"
| "f_instruction w loop k cs (I_SET_AT tail) = i_at w loop k cs M_set_at 2 tail"
| "f_instruction w loop k cs (I_UNARY op e tail) = i_unary w loop k cs op e tail"
| "f_instruction w loop k cs (I_BINARY op e0 e1 tail) = i_binary w loop k cs op e0 e1 tail"
| "f_instruction w loop k cs I_SAFE_POINT = i_debug"
| "f_instruction w loop k cs I_BREAK_POINT = i_debug"

text \<open>\<open>goto **pc\<close>.\<close>

definition x_instruction :: "t_cell list \<Rightarrow> ('w, t_instruction) xm" where
  "x_instruction cs s = (if r_pc s < length cs
     then (case cs ! r_pc s of C_instruction i \<Rightarrow> Done i s | _ \<Rightarrow> Undef ''instruction'') else Undef ''pc'')"

text \<open>The \<open>try\<close> around the loop of \<open>f_loop\<close>.\<close>

definition code_loop :: "'w t_world \<Rightarrow> 'w t_loop \<Rightarrow> 'w t_loop" where
  "code_loop w turns cs =
     x_then (x_state (\<lambda>s. set_pc (v_pc (r_context s))))
     (x_catch (turns cs) (\<lambda>x. case x of
         X_pair _ _ \<Rightarrow> x_raise x
       | X_value _ \<Rightarrow> x_state (\<lambda>s. f_rethrow w (r_pc s) x)))"

primrec f_run :: "'w t_world \<Rightarrow> nat \<Rightarrow> 'w t_loop" where
  "f_run w 0 cs = (\<lambda>s. Timeout)"
| "f_run w (Suc k) cs =
     x_bind (x_instruction cs) (\<lambda>i.
     x_bind (f_instruction w (code_loop w (f_run w k)) k cs i) (\<lambda>r. case r of
         Continue \<Rightarrow> f_run w k cs
       | Exit n \<Rightarrow> x_return n))"

definition t_code_f_loop :: "'w t_world \<Rightarrow> nat \<Rightarrow> 'w t_loop" where
  "t_code_f_loop w k = code_loop w (f_run w k)"

end
