(* ===== verification/Xm_Call_Correct.thy ===== *)
theory Xm_Call_Correct
  imports Xm_Machine
begin

text \<open>
  Calls of functions: the number and the order of the arguments after expansion, default values and the
  collection of what is left for a variadic function.  The lemmas in \<open>xm_eval\<close> evaluate a sequence of steps of the
  machine whose single outcomes are known.
\<close>

named_theorems xm_eval "evaluation of steps of the machine"

lemma x_bind_cases [xm_eval]:
  "m s = Done a s1 \<Longrightarrow> x_bind m f s = f a s1"
  "m s = Raise x s1 \<Longrightarrow> x_bind m f s = Raise x s1"
  by (simp_all add: x_bind_def)

lemma x_then_cases [xm_eval]:
  "m s = Done a s1 \<Longrightarrow> x_then m k s = k s1"
  "m s = Raise x s1 \<Longrightarrow> x_then m k s = Raise x s1"
  by (simp_all add: x_then_def x_bind_def)

lemma x_return_Done [simp]: "x_return = Done"
  by (simp add: fun_eq_iff x_return_def)

lemma x_basic [simp, xm_eval]:
  "x_skip s = Done () s" "x_modify f s = Done () (f s)" "x_state h s = h s s"
  "x_raise x s = Raise x s" "x_undefined msg s = Undef msg"
  "set_stack_used n s = Done () (s\<lparr>v_stack_used := n\<rparr>)"
  by (simp_all add: x_skip_def x_modify_def x_state_def x_raise_def x_undefined_def set_stack_used_def)

lemma x_bind_simps [simp]:
  "x_bind (Done a) f = f a" "x_then (Done a) k = k" "x_then x_skip k = k"
  by (simp_all add: x_bind_def x_then_def x_skip_def fun_eq_iff)

lemma x_stack [xm_eval]:
  "a < length (v_estack s) \<Longrightarrow> x_read a s = Done (v_estack s ! a) s"
  "a < length (v_estack s) \<Longrightarrow> x_write a v s = Done () (s\<lparr>v_estack := (v_estack s)[a := v]\<rparr>)"
  "a + n \<le> length (v_estack s) \<Longrightarrow> x_cells a n s = Done (take n (drop a (v_estack s))) s"
  "a + length vs \<le> length (v_estack s) \<Longrightarrow> x_put_cells a vs s = Done () (s\<lparr>v_estack := put_cells a vs (v_estack s)\<rparr>)"
  by (simp_all add: x_read_def x_write_def x_cells_def x_put_cells_def)

lemma x_fetch_eval [xm_eval]:
  "Suc (r_pc s) < length cs \<Longrightarrow> x_fetch cs s = Done (cs ! Suc (r_pc s)) (s\<lparr>r_pc := Suc (r_pc s)\<rparr>)"
  by (simp add: x_fetch_def)

section \<open>Runs of cells\<close>

lemma length_put_cells [simp]: "a + length vs \<le> length xs \<Longrightarrow> length (put_cells a vs xs) = length xs"
  by (simp add: put_cells_def)

lemma take_put_cells [simp]: "b \<le> a \<Longrightarrow> a \<le> length xs \<Longrightarrow> take b (put_cells a vs xs) = take b xs"
  by (simp add: put_cells_def min_def)

lemma put_cells_split: "length xs = a \<Longrightarrow> length vs = length ys \<Longrightarrow> put_cells a vs (xs @ ys @ zs) = xs @ vs @ zs"
  by (simp add: put_cells_def)

lemma nth_put_cells:
  "i < length xs \<Longrightarrow> a + length vs \<le> length xs \<Longrightarrow>
   put_cells a vs xs ! i = (if a \<le> i \<and> i < a + length vs then vs ! (i - a) else xs ! i)"
  by (auto simp: put_cells_def nth_append min_def)

lemma list_update_put_cells: "a < length xs \<Longrightarrow> xs[a := v] = put_cells a [v] xs"
  by (simp add: put_cells_def upd_conv_take_nth_drop)

lemma put_cells_put_cells: "a + length us \<le> length xs \<Longrightarrow> put_cells (a + length us) vs (put_cells a us xs) = put_cells a (us @ vs) xs"
  by (cases us) (simp_all add: put_cells_def min_def ac_simps)

section \<open>Expansion\<close>

text \<open>The elements of a tuple or a list.\<close>

definition object_contents :: "'w t_heap \<Rightarrow> nat \<Rightarrow> t_value list \<Rightarrow> bool" where
  "object_contents h p xs \<longleftrightarrow> v_objects h p = Some (H_tuple xs) \<or> (\<exists>l. v_objects h p = Some (H_list l) \<and> list_rep l xs)"

lemma list_rep_cell: "list_rep l xs \<Longrightarrow> i < length xs \<Longrightarrow> t_list_cell l (t_list_f_at l i) = xs ! i"
  by (cases "v_tuple l") (force simp: t_list_cell_def t_list_f_at_def list_rep_def ring_def wrap_def Let_def add.commute)+

lemma expand_source_contents:
  assumes "object_contents (v_heap s) p xs"
  obtains get where "expand_source w (V_object p) s = Done (length xs, get) s" "\<forall>i < length xs. get i = x_return (xs ! i)"
  using assms unfolding object_contents_def
proof (elim disjE exE conjE)
  assume "v_objects (v_heap s) p = Some (H_tuple xs)"
  then show ?thesis
    by (intro that[of "\<lambda>i. x_return (xs ! i)"]) (simp_all add: expand_source_def x_bind_def x_object_def Let_def)
next
  fix l assume "v_objects (v_heap s) p = Some (H_list l)" "list_rep l xs"
  then show ?thesis
    by (intro that[of "\<lambda>i. x_return (t_list_cell l (t_list_f_at l i))"])
      (simp_all add: expand_source_def x_bind_def x_object_def Let_def list_rep_cell list_rep_size)
qed

lemma expand_each_values:
  assumes "\<And>j. j < i + m \<Longrightarrow> get j = x_return (xs ! j)" "i + m \<le> length xs" "a + i + m \<le> length (v_estack s)"
  shows "expand_each get a i m s = Done () (s\<lparr>v_estack := put_cells (a + i) (take m (drop i xs)) (v_estack s)\<rparr>)"
  using assms
proof (induction m arbitrary: i s)
  case 0
  show ?case by (simp add: put_cells_def)
next
  case (Suc m)
  have "expand_each get a i (Suc m) s = expand_each get a (Suc i) m (s\<lparr>v_estack := (v_estack s)[a + i := xs ! i]\<rparr>)"
    using Suc.prems by (simp add: x_then_cases(1)[OF x_stack(2)])
  also have "\<dots> = Done () (s\<lparr>v_estack := put_cells (Suc (a + i)) (take m (drop (Suc i) xs)) ((v_estack s)[a + i := xs ! i])\<rparr>)"
    using Suc.prems by (subst Suc.IH) simp_all
  also have "put_cells (Suc (a + i)) (take m (drop (Suc i) xs)) ((v_estack s)[a + i := xs ! i]) =
      put_cells (a + i) (take (Suc m) (drop i xs)) (v_estack s)"
    using Suc.prems put_cells_put_cells[of "a + i" "[xs ! i]" "v_estack s" "take m (drop (Suc i) xs)"]
    by (simp add: list_update_put_cells Cons_nth_drop_Suc[symmetric])
  finally show ?case .
qed

text \<open>One expansion on a stack that is written out: \<open>ys\<close> below, \<open>x\<close> the value to expand, \<open>us\<close> the arguments left,
  \<open>zs\<close> free cells.\<close>

definition raise_used :: "nat \<Rightarrow> 'w t_state \<Rightarrow> 'w t_state" where
  "raise_used n s = s\<lparr>v_stack_used := max (v_stack_used s) n\<rparr>"

lemma expand_one_values:
  fixes s :: "'a t_state"
  assumes st: "v_estack s = ys @ x # us @ zs" and get: "\<forall>i < length xs. get i = x_return (xs ! i)"
    and room: "length ys + length xs + length us \<le> length (v_estack s)"
  obtains zs1 where "length zs1 + length xs = length zs + 1"
    "expand_one (length ys) (length us) (length xs) get s =
       Done () ((if xs = [] then s else raise_used (length ys + length xs + length us) s)\<lparr>v_estack := ys @ xs @ us @ zs1\<rparr>)"
proof (cases "xs = []")
  case True
  have "x_move (Suc (length ys)) (length us) (length ys) s = Done () (s\<lparr>v_estack := put_cells (length ys) us (ys @ x # us @ zs)\<rparr>)"
    unfolding x_move_def by (subst x_bind_cases(1)[OF x_stack(3)]) (simp_all add: st x_stack)
  moreover have "put_cells (length ys) us (ys @ x # us @ zs) = ys @ us @ last (x # us) # zs"
  proof -
    have "x # us @ zs = butlast (x # us) @ last (x # us) # zs"
      by (simp only: append_Cons[symmetric]) (metis append.assoc append_Cons append_Nil append_butlast_last_id list.distinct(1))
    then show ?thesis
      using put_cells_split[of ys "length ys" us "butlast (x # us)" "last (x # us) # zs"] by (simp only: length_butlast list.size diff_Suc_1')
  qed
  ultimately show ?thesis
    by (intro that[of "last (x # us) # zs"]) (simp_all add: True expand_one_def)
next
  case False
  let ?m = "length xs"
  let ?s = "raise_used (length ys + ?m + length us) s"
  define u where "u = x_state (\<lambda>s :: 'a t_state. if v_stack_used s < length ys + ?m + length us then set_stack_used (length ys + ?m + length us) else x_skip)"
  have used: "u s = Done () ?s" by (simp add: u_def raise_used_def max_def)
  have len: "?m - 1 \<le> length zs" using room by (simp add: st)
  define t where "t = put_cells (length ys + ?m) us (v_estack s)"
  have mv: "x_move (Suc (length ys)) (length us) (length ys + ?m) ?s = Done () (?s\<lparr>v_estack := t\<rparr>)"
    unfolding x_move_def using room by (subst x_bind_cases(1)[OF x_stack(3)]) (simp_all add: st x_stack raise_used_def t_def)
  define zs1 where "zs1 = drop (?m - 1) zs"
  have "expand_each get (length ys) 0 ?m (?s\<lparr>v_estack := t\<rparr>) = Done () (?s\<lparr>v_estack := put_cells (length ys) xs t\<rparr>)"
    using room by (subst expand_each_values[where xs = xs]) (simp_all add: get t_def)
  moreover have "put_cells (length ys) xs t = ys @ xs @ us @ zs1"
  proof -
    have "drop (length ys + ?m) t = us @ zs1"
      using False len by (cases xs) (simp_all add: t_def st put_cells_def zs1_def)
    moreover have "take (length ys) t = ys" by (simp add: t_def st put_cells_def)
    ultimately show ?thesis by (simp add: put_cells_def)
  qed
  moreover have "expand_one (length ys) (length us) ?m get s = expand_each get (length ys) 0 ?m (?s\<lparr>v_estack := t\<rparr>)"
    using False by (simp add: expand_one_def u_def[symmetric] x_then_cases(1)[of u, OF used] x_then_cases(1)[of "x_move _ _ _", OF mv])
  moreover have "length zs1 + ?m = length zs + 1" using len False by (cases xs) (simp_all add: zs1_def)
  ultimately show ?thesis using False by (intro that[of zs1]) simp_all
qed


text \<open>
  The arguments of a call as they are written: runs of plain arguments, each followed by one that is expanded,
  and a last run.  The operands give the lengths of the runs.
\<close>

type_synonym expansion = "(t_value list \<times> nat \<times> t_value list) list"

definition written :: "expansion \<Rightarrow> t_value list \<Rightarrow> t_value list" where
  "written es us = concat (map (\<lambda>(vs, p, xs). vs @ [V_object p]) es) @ us"

definition flattened :: "expansion \<Rightarrow> t_value list \<Rightarrow> t_value list" where
  "flattened es us = concat (map (\<lambda>(vs, p, xs). vs @ xs) es) @ us"

definition run_cells :: "expansion \<Rightarrow> t_value list \<Rightarrow> t_cell list" where
  "run_cells es us = map (\<lambda>(vs, p, xs). C_size (length vs)) es @ [C_size (length us)]"

lemma expansion_Cons [simp]:
  "written ((vs, p, xs) # es) us = vs @ V_object p # written es us"
  "flattened ((vs, p, xs) # es) us = vs @ xs @ flattened es us"
  "run_cells ((vs, p, xs) # es) us = C_size (length vs) # run_cells es us"
  by (simp_all add: written_def flattened_def run_cells_def)

lemma expansion_Nil [simp]:
  "written [] us = us" "flattened [] us = us" "run_cells [] us = [C_size (length us)]"
  by (simp_all add: written_def flattened_def run_cells_def)

lemma fetch_size_eval:
  assumes "drop (Suc (r_pc s)) cs = C_size n # ds"
  shows "fetch_size cs s = Done n (s\<lparr>r_pc := Suc (r_pc s)\<rparr>)"
proof -
  have "Suc (r_pc s) < length cs" "cs ! Suc (r_pc s) = C_size n"
    using assms by (metis drop_all list.distinct(1) not_less, metis assms hd_drop_conv_nth list.distinct(1) list.sel(1) drop_all not_less)
  then show ?thesis by (simp add: fetch_size_def x_bind_cases(1)[OF x_fetch_eval])
qed

lemma expand_loop_values:
  fixes s :: "'w t_state"
  assumes "v_estack s = ys @ written es us @ zs" "\<forall>(vs, p, xs) \<in> set es. object_contents (v_heap s) p xs"
    "length ys + length (flattened es us) + length es \<le> length (v_estack s)"
    "drop (Suc (r_pc s)) cs = run_cells es us @ ds"
    "length ys + length (written es us) \<le> v_stack_used s"
  obtains zs1 n where
    "expand_loop w cs (length ys) (length (written es us)) k s =
       Done (k + length (flattened es us)) (s\<lparr>r_pc := r_pc s + length es + 1, v_estack := ys @ flattened es us @ zs1, v_stack_used := n\<rparr>)"
    "v_stack_used s \<le> n" "length ys + length (flattened es us) \<le> n" "length (ys @ flattened es us @ zs1) = length (v_estack s)"
  using assms
proof (induction es arbitrary: ys zs s k thesis)
  case Nil
  have "expand_loop w cs (length ys) (length us) k s = Done (k + length us) (s\<lparr>r_pc := Suc (r_pc s)\<rparr>)"
    using Nil.prems(5) by (subst expand_loop.simps) (simp add: x_bind_cases(1)[OF fetch_size_eval])
  then show ?case using Nil.prems by (intro Nil.prems(1)[of "v_stack_used s" zs]) simp_all
next
  case (Cons e es)
  obtain vs p xs where e: "e = (vs, p, xs)" by (cases e) auto
  let ?n = "length (written es us)"
  define s1 where "s1 = s\<lparr>r_pc := Suc (r_pc s)\<rparr>"
  have st: "v_estack s1 = (ys @ vs) @ V_object p # written es us @ zs" using Cons.prems(2) by (simp add: s1_def e)
  have dr: "drop (Suc (r_pc s)) cs = C_size (length vs) # run_cells es us @ ds" using Cons.prems(5) by (simp add: e)
  have "object_contents (v_heap s1) p xs" using Cons.prems(3) by (simp add: s1_def e)
  then obtain get where src: "expand_source w (V_object p) s1 = Done (length xs, get) s1"
      and get: "\<forall>i < length xs. get i = x_return (xs ! i)"
    by (rule expand_source_contents[where w = w])
  have wr: "?n \<le> length (flattened es us) + length es" by (induction es) auto
  have room: "length (ys @ vs) + length xs + ?n \<le> length (v_estack s1)" using Cons.prems(4) wr by (simp add: e s1_def)
  obtain zs1 where zs1: "length zs1 + length xs = length zs + 1"
    and one: "expand_one (length (ys @ vs)) ?n (length xs) get s1 =
       Done () ((if xs = [] then s1 else raise_used (length (ys @ vs) + length xs + ?n) s1)\<lparr>v_estack := (ys @ vs) @ xs @ written es us @ zs1\<rparr>)"
    by (rule expand_one_values[OF st get room])
  define s2 where "s2 = (if xs = [] then s1 else raise_used (length (ys @ vs) + length xs + ?n) s1)\<lparr>v_estack := (ys @ vs) @ xs @ written es us @ zs1\<rparr>"
  have one1: "expand_one (length ys + length vs) ?n (length xs) get s1 = Done () s2" using one by (simp add: s2_def)
  have s2: "v_estack s2 = (ys @ vs @ xs) @ written es us @ zs1" "v_heap s2 = v_heap s" "r_pc s2 = Suc (r_pc s)"
    "v_stack_used s \<le> v_stack_used s2" "length (ys @ vs @ xs) + ?n \<le> v_stack_used s2"
    using Cons.prems(6) by (simp_all add: s2_def s1_def raise_used_def e le_max_iff_disj)
  have len: "length (v_estack s2) = length (v_estack s)" using Cons.prems(2) zs1 by (simp add: s2 e)
  have step: "expand_loop w cs (length ys) (length (written (e # es) us)) k s =
      expand_loop w cs (length (ys @ vs @ xs)) ?n (k + length vs + length xs) s2"
    using st
    by (subst expand_loop.simps)
      (simp add: e x_bind_cases(1)[of "fetch_size cs", OF fetch_size_eval[OF dr]] s1_def[symmetric] x_bind_cases(1)[OF x_stack(1)]
        x_bind_cases(1)[of "expand_source w _", OF src] x_then_cases(1)[of "expand_one _ _ _ _", OF one1] nth_append add.assoc)
  have tail: "drop (Suc (r_pc s2)) cs = run_cells es us @ ds"
    using arg_cong[OF dr, of "drop 1"] by (simp add: s2)
  obtain zs2 n where fin: "expand_loop w cs (length (ys @ vs @ xs)) ?n (k + length vs + length xs) s2 =
       Done (k + length vs + length xs + length (flattened es us))
         (s2\<lparr>r_pc := r_pc s2 + length es + 1, v_estack := (ys @ vs @ xs) @ flattened es us @ zs2, v_stack_used := n\<rparr>)"
    "v_stack_used s2 \<le> n" "length (ys @ vs @ xs) + length (flattened es us) \<le> n"
    "length ((ys @ vs @ xs) @ flattened es us @ zs2) = length (v_estack s2)"
    by (rule Cons.IH[where s = s2 and ys = "ys @ vs @ xs" and zs = zs1 and k = "k + length vs + length xs"]) (use Cons.prems s2 tail len in \<open>auto simp: e\<close>)
  have eq: "s2\<lparr>r_pc := r_pc s2 + length es + 1, v_estack := (ys @ vs @ xs) @ flattened es us @ zs2, v_stack_used := n\<rparr> =
      s\<lparr>r_pc := r_pc s + length (e # es) + 1, v_estack := ys @ flattened (e # es) us @ zs2, v_stack_used := n\<rparr>"
    by (simp add: s2_def s1_def raise_used_def e)
  show ?case
  proof (rule Cons.prems(1)[of n zs2])
    show "expand_loop w cs (length ys) (length (written (e # es) us)) k s = Done (k + length (flattened (e # es) us))
        (s\<lparr>r_pc := r_pc s + length (e # es) + 1, v_estack := ys @ flattened (e # es) us @ zs2, v_stack_used := n\<rparr>)"
      unfolding step using fin(1) unfolding eq by (simp add: e add.assoc)
  qed (use fin s2 len in \<open>simp_all add: e\<close>)
qed


section \<open>Arguments of a function\<close>

text \<open>The number of default values that \<open>f_instantiate\<close> computes is the one \<open>t_lambda::f_code\<close> was given.\<close>

definition code_fixed :: "bool \<Rightarrow> nat \<Rightarrow> nat" where
  "code_fixed a_variadic a_arguments = (if a_variadic then a_arguments - 1 else a_arguments)"

lemma f_code_simps [simp]:
  "v_code_arguments (f_code sc va k d) = k" "v_code_variadic (f_code sc va k d) = va" "v_code_shared (f_code sc va k d) = v_scope_shared sc"
  "v_code_shareds (f_code sc va k d) = v_shareds sc"
  by (simp_all add: f_code_def t_code_new_def)

lemma unat_of_nat_small: "n < 2 ^ 64 \<Longrightarrow> unat (of_nat n :: i64) = n"
  by (simp add: unsigned_of_nat take_bit_eq_mod)

lemma f_code_minimum:
  assumes "d + of_bool va \<le> k" "k < 2 ^ 64"
  shows "unat (v_minimum (f_code sc va k d)) = k - d - of_bool va" "defaults_size (f_code sc va k d) = d"
proof -
  have eq: "v_minimum (f_code sc va k d) = of_nat (k - d - of_bool va)"
    using assms by (cases va) (simp_all add: f_code_def t_code_new_def of_nat_diff)
  show m: "unat (v_minimum (f_code sc va k d)) = k - d - of_bool va"
    using assms unfolding eq by (intro unat_of_nat_small) simp
  have "of_nat k - v_minimum (f_code sc va k d) - (if va then 1 else 0) = (of_nat d :: i64)"
    using assms by (cases va) (simp_all add: f_code_def t_code_new_def)
  then show "defaults_size (f_code sc va k d) = d"
    using assms by (simp add: defaults_size_def unat_of_nat_small)
qed

text \<open>What the parameters of a function get: the arguments, completed by default values, and for the last
  parameter of a variadic function a tuple of the others.\<close>

definition parameters :: "bool \<Rightarrow> nat \<Rightarrow> t_value list \<Rightarrow> t_value list \<Rightarrow> t_value list" where
  "parameters va k ds vs =
     (let n = code_fixed va k in take n vs @ drop (length vs - (n - length ds)) ds)"

definition has_defaults :: "'w t_heap \<Rightarrow> nat option \<Rightarrow> t_value list \<Rightarrow> bool" where
  "has_defaults h defaults ds \<longleftrightarrow>
     (case defaults of None \<Rightarrow> ds = [] | Some d \<Rightarrow> v_objects h d = Some (H_tuple ds))"

text \<open>A machine with the arguments \<open>vs\<close> of a call at \<open>a_stack\<close> and room for the parameters.\<close>

definition calls :: "'w t_state \<Rightarrow> nat \<Rightarrow> t_value list \<Rightarrow> nat \<Rightarrow> bool" where
  "calls s a_stack vs k \<longleftrightarrow>
     a_stack + 2 + max (length vs) k \<le> length (v_estack s) \<and> take (length vs) (drop (a_stack + 2) (v_estack s)) = vs"


lemma x_object_eval [xm_eval]: "x_object p s = Done (v_objects (v_heap s) p) s"
  by (simp add: x_object_def)

lemma x_new_eval [xm_eval]:
  "x_new x s = Done (V_object (v_next_object (v_heap s))) (s\<lparr>v_heap := snd (f_new_object x (v_heap s))\<rparr>)"
  by (simp add: x_new_def f_new_object_def)

lemma f_new_object_lookup:
  "v_objects (snd (f_new_object x h)) p = (if p = v_next_object h then Some x else v_objects h p)"
  by (simp add: f_new_object_def)

text \<open>A cell that gets a new tuple.\<close>

lemma new_tuple_write:
  assumes "a < length (v_estack s)"
  shows "x_bind (x_new (H_tuple vs)) (\<lambda>t. x_write a t) s =
    Done () (s\<lparr>v_heap := snd (f_new_object (H_tuple vs) (v_heap s)), v_estack := (v_estack s)[a := V_object (v_next_object (v_heap s))]\<rparr>)"
  using assms by (simp add: x_bind_def x_new_eval x_stack)

lemma take_drop_update:
  "take n (drop a (xs[b := v])) = take n (drop a xs)" if "a + n \<le> b"
  using that by (simp add: drop_update_swap)

lemma fill_defaults_eval:
  assumes "unat (v_minimum c) \<le> length vs" "length vs \<le> unat (v_minimum c) + length ds"
    "calls s a vs (unat (v_minimum c) + length ds)"
  shows "\<exists>st. fill_defaults c ds a (length vs) s = Done () (s\<lparr>v_estack := st\<rparr>) \<and> length st = length (v_estack s) \<and> take (a + 2) st = take (a + 2) (v_estack s) \<and>
    take (unat (v_minimum c) + length ds) (drop (a + 2) st) = vs @ drop (length vs - unat (v_minimum c)) ds"
proof -
  let ?m = "unat (v_minimum c)" and ?i = "length vs - unat (v_minimum c)"
  let ?st = "put_cells (a + 2 + length vs) (drop ?i ds) (v_estack s)"
  have room: "a + 2 + length vs + length (drop ?i ds) \<le> length (v_estack s)" using assms by (simp add: calls_def)
  have "fill_defaults c ds a (length vs) s = Done () (s\<lparr>v_estack := ?st\<rparr>)"
    using assms room x_stack(4)[OF room] by (simp add: fill_defaults_def Let_def add.commute add.left_commute)
  moreover have "take (?m + length ds) (drop (a + 2) ?st) = vs @ drop ?i ds"
    using assms room by (simp add: put_cells_def calls_def drop_take min_def)
  ultimately show ?thesis using room by (intro exI[of _ ?st]) (simp add: put_cells_def)
qed


text \<open>What a function finds when it starts: its parameters, for a variadic one a new tuple of the other
  arguments, and everything below the arguments as it was.\<close>

definition bound :: "bool \<Rightarrow> nat \<Rightarrow> t_value list \<Rightarrow> t_value list \<Rightarrow> nat \<Rightarrow> 'w t_state \<Rightarrow> 'w t_state \<Rightarrow> bool" where
  "bound va k ds vs a s s1 \<longleftrightarrow>
     take (code_fixed va k) (drop (a + 2) (v_estack s1)) = parameters va k ds vs \<and>
     take (a + 2) (v_estack s1) = take (a + 2) (v_estack s) \<and>
     (if va then v_estack s1 ! (a + 1 + k) = V_object (v_next_object (v_heap s)) \<and>
                 v_heap s1 = snd (f_new_object (H_tuple (drop (k - 1) vs)) (v_heap s))
      else v_heap s1 = v_heap s)"

lemma parameters_few: "length vs \<le> code_fixed va k \<Longrightarrow> parameters va k ds vs = vs @ drop (length vs - (code_fixed va k - length ds)) ds"
  by (simp add: parameters_def Let_def)

lemma parameters_many: "code_fixed va k \<le> length vs \<Longrightarrow> length ds \<le> code_fixed va k \<Longrightarrow> parameters va k ds vs = take (code_fixed va k) vs"
  by (simp add: parameters_def Let_def)

lemma arguments_few:
  assumes wf: "length ds + of_bool va \<le> k" "k < 2 ^ 64" and ds: "has_defaults (v_heap s) defaults ds" and st: "calls s a vs k"
    and n: "code_fixed va k - length ds \<le> length vs" "length vs < code_fixed va k"
  shows "\<exists>s1. advanced_arguments w (f_code sc va k (length ds)) defaults a (length vs) s = Done () s1 \<and> bound va k ds vs a s s1"
proof -
  let ?c = "f_code sc va k (length ds)"
  have fixed: "code_fixed va k = k - of_bool va" by (simp add: code_fixed_def)
  have m: "unat (v_minimum ?c) = code_fixed va k - length ds" using f_code_minimum(1)[OF wf] by (simp add: fixed)
  have sum: "unat (v_minimum ?c) + length ds = code_fixed va k" using wf by (simp add: m fixed)
  obtain d where d: "defaults = Some d" "v_objects (v_heap s) d = Some (H_tuple ds)"
    using ds n by (cases defaults) (auto simp: has_defaults_def)
  have cl: "calls s a vs (code_fixed va k)" using st by (auto simp: calls_def code_fixed_def max_def split: if_splits)
  obtain e where e: "fill_defaults ?c ds a (length vs) s = Done () (s\<lparr>v_estack := e\<rparr>)" "length e = length (v_estack s)"
      "take (a + 2) e = take (a + 2) (v_estack s)" "take (code_fixed va k) (drop (a + 2) e) = vs @ drop (length vs - unat (v_minimum ?c)) ds"
    using fill_defaults_eval[of ?c vs ds s a, unfolded sum, OF _ _ cl] n m by (metis less_imp_le)
  have fill: "advanced_arguments w ?c defaults a (length vs) s =
      (if va then x_bind (x_new (H_tuple [])) (\<lambda>t. x_write (a + k + 1) t) else x_skip) (s\<lparr>v_estack := e\<rparr>)"
    using n wf by (simp add: advanced_arguments_def m d Let_def x_bind_def x_object_eval x_then_def e(1) code_fixed_def[symmetric])
  show ?thesis
  proof (cases va)
    case True
    have room: "a + k + 1 < length e" using st True wf by (auto simp: calls_def e(2) max_def split: if_splits)
    have new: "x_bind (x_new (H_tuple [])) (\<lambda>t. x_write (a + k + 1) t) (s\<lparr>v_estack := e\<rparr>) =
        Done () (s\<lparr>v_heap := snd (f_new_object (H_tuple []) (v_heap s)), v_estack := e[a + k + 1 := V_object (v_next_object (v_heap s))]\<rparr>)"
      using new_tuple_write[of "a + k + 1" "s\<lparr>v_estack := e\<rparr>"] room by simp
    have "take (code_fixed va k) (drop (a + 2) (e[a + k + 1 := v])) = parameters va k ds vs" for v
    proof -
      have "a + 2 + code_fixed va k \<le> a + k + 1" using True wf by (simp add: code_fixed_def)
      then show ?thesis using e(4) by (simp only: take_drop_update parameters_few[OF less_imp_le[OF n(2)]] m)
    qed
    then show ?thesis
      unfolding fill if_P[OF True] new using True n room e(3) fixed wf by (simp add: bound_def add.commute[of a k])
  next
    case False
    show ?thesis
      unfolding fill if_not_P[OF False] using False e(3) e(4)[folded parameters_few[OF less_imp_le[OF n(2)], of ds, folded m]]
      by (simp add: bound_def)
  qed
qed

lemma arguments_many:
  assumes wf: "length ds + of_bool va \<le> k" "k < 2 ^ 64" and st: "calls s a vs k"
    and n: "code_fixed va k \<le> length vs" "\<not> va \<Longrightarrow> length vs \<le> k"
  shows "\<exists>s1. advanced_arguments w (f_code sc va k (length ds)) defaults a (length vs) s = Done () s1 \<and> bound va k ds vs a s s1"
proof -
  let ?c = "f_code sc va k (length ds)"
  have fixed: "code_fixed va k = k - of_bool va" "length ds \<le> code_fixed va k" using wf by (cases va; simp add: code_fixed_def)+
  have m: "unat (v_minimum ?c) \<le> length vs" using f_code_minimum(1)[OF wf] n fixed by simp
  have take: "take (code_fixed va k) (drop (a + 2) (v_estack s)) = take (code_fixed va k) vs"
    using st n(1) by (metis calls_def min.absorb1 take_take)
  show ?thesis
  proof (cases va)
    case True
    let ?j = "a + code_fixed va k + 2"
    have room: "?j < length (v_estack s)" "?j + (length vs - code_fixed va k) \<le> length (v_estack s)"
      using st n wf True by (auto simp: calls_def code_fixed_def max_def split: if_splits)
    have rest: "take (length vs - code_fixed va k) (drop ?j (v_estack s)) = drop (code_fixed va k) vs"
      using st drop_take[of "code_fixed va k" "length vs" "drop (a + 2) (v_estack s)"] by (simp add: calls_def ac_simps)
    have "advanced_arguments w ?c defaults a (length vs) s = collect_rest ?j (length vs - code_fixed va k) s"
      using n m True by (simp add: advanced_arguments_def Let_def code_fixed_def[symmetric] not_less[symmetric])
    also have "\<dots> = x_bind (x_new (H_tuple (drop (code_fixed va k) vs))) (\<lambda>t. x_write ?j t) s"
      unfolding collect_rest_def by (subst x_bind_cases(1)[of "x_cells _ _", OF x_stack(3)[OF room(2)]]) (simp only: rest)
    finally show ?thesis
      using True n room take fixed wf
      by (simp add: new_tuple_write bound_def parameters_many take_drop_update)
  next
    case False
    then show ?thesis using n m take fixed
      by (simp add: advanced_arguments_def bound_def parameters_many)
  qed
qed

text \<open>C0: a call of a function with default values or a variable number of arguments fails with too few or too
  many arguments and otherwise binds every parameter: arguments first, then default values, the arguments
  that are left in a new tuple for the last parameter of a variadic function.\<close>

theorem lambda_arguments:
  assumes "length ds + of_bool va \<le> k" "k < 2 ^ 64" "has_defaults (v_heap s) defaults ds" "calls s a vs k"
  shows "(if length vs < code_fixed va k - length ds
          then advanced_arguments w (f_code sc va k (length ds)) defaults a (length vs) s = x_result w (Inl (Thrown ''too few arguments.'')) s
          else if \<not> va \<and> k < length vs
          then advanced_arguments w (f_code sc va k (length ds)) defaults a (length vs) s = x_result w (Inl (Thrown ''too many arguments.'')) s
          else \<exists>s1. advanced_arguments w (f_code sc va k (length ds)) defaults a (length vs) s = Done () s1 \<and> bound va k ds vs a s s1)"
proof -
  have m: "unat (v_minimum (f_code sc va k (length ds))) = code_fixed va k - length ds"
    using f_code_minimum(1)[OF assms(1,2)] by (simp add: code_fixed_def)
  have few: "advanced_arguments w (f_code sc va k (length ds)) defaults a (length vs) s = x_result w (Inl (Thrown ''too few arguments.'')) s"
    if "length vs < code_fixed va k - length ds" using that by (simp add: advanced_arguments_def m Let_def)
  have many: "advanced_arguments w (f_code sc va k (length ds)) defaults a (length vs) s = x_result w (Inl (Thrown ''too many arguments.'')) s"
    if "\<not> length vs < code_fixed va k - length ds" "\<not> va" "k < length vs" using that m by (simp add: advanced_arguments_def Let_def)
  have "\<exists>s1. advanced_arguments w (f_code sc va k (length ds)) defaults a (length vs) s = Done () s1 \<and> bound va k ds vs a s s1"
    if "\<not> length vs < code_fixed va k - length ds" "\<not> (\<not> va \<and> k < length vs)"
    using arguments_few[OF assms, of w sc] arguments_many[OF assms(1,2,4), of w sc defaults] that by (cases "length vs < code_fixed va k") auto
  then show ?thesis using few many by simp
qed


text \<open>A world without other objects, and a state in which nothing has happened yet.\<close>

definition plain_world :: "(nat \<Rightarrow> t_code option) \<Rightarrow> unit t_world" where
  "plain_world codes =
     \<lparr>w_codes = codes, w_store = \<lparr>o_integer = \<lambda>_. None, o_float = \<lambda>_. None\<rparr>, w_symbol = \<lambda>_. V_object 0, w_literal = \<lambda>_. V_object 0,
      w_throwable = \<lambda>_ h. (V_object 0, h), w_get = \<lambda>_ _. Reply V_null, w_put = \<lambda>_ _ _. Reply (), w_has = \<lambda>_ _. Reply False,
      w_bind = \<lambda>_ _. Reply (V_null, V_null), w_global_get = \<lambda>_. Reply V_null, w_bindable = \<lambda>_ _. True, w_type = \<lambda>_ _. V_object 0,
      w_super = \<lambda>_ _. None, w_is = \<lambda>_ _ _. False, w_is_class = \<lambda>_ _. False, w_is_type = \<lambda>_ _. False, w_fiber_exit = V_object 1,
      w_backtrace = \<lambda>_ _ _ h. h, w_size = \<lambda>_. Reply_throw (V_object 0), w_element = \<lambda>_ _. Reply_throw (V_object 0),
      w_method = \<lambda>_ _ _. Reply_throw (V_object 0), w_call = \<lambda>_ _ _. Reply_throw (V_object 0)\<rparr>"

definition calling_state :: "t_value list \<Rightarrow> (nat \<Rightarrow> t_heap_object option) \<Rightarrow> unit t_state" where
  "calling_state st os =
     \<lparr>r_pc = 0, r_context = \<lparr>v_pc = 0, v_base = 0, v_lambda = 0, v_previous = 0, v_context_scope = Some 9\<rparr>,
      v_estack = st, v_stack_used = length st, v_heap = \<lparr>v_objects = os, v_next_object = 10, v_others = ()\<rparr>\<rparr>"

theorem lambda_arguments_witness:
  "\<forall>w sc. \<exists>s1. advanced_arguments w (f_code sc True 3 1) (Some 4) 0 1 (calling_state (replicate 8 V_true) [4 \<mapsto> H_tuple [V_false]]) = Done () s1 \<and>
     bound True 3 [V_false] [V_true] 0 (calling_state (replicate 8 V_true) [4 \<mapsto> H_tuple [V_false]]) s1"
proof (intro allI)
  fix w :: "unit t_world" and sc
  let ?s = "calling_state (replicate 8 V_true) [4 \<mapsto> H_tuple [V_false]]"
  have "calls ?s 0 [V_true] 3" by (simp add: calls_def calling_state_def eval_nat_numeral)
  moreover have "has_defaults (v_heap ?s) (Some 4) [V_false]" by (simp add: has_defaults_def calling_state_def)
  ultimately show "\<exists>s1. advanced_arguments w (f_code sc True 3 1) (Some 4) 0 1 ?s = Done () s1 \<and> bound True 3 [V_false] [V_true] 0 ?s s1"
    using lambda_arguments[of "[V_false]" True 3 ?s "Some 4" 0 "[V_true]" w sc] by (simp add: code_fixed_def)
qed

text \<open>C0: \<open>t_lambda::f_instantiate\<close> takes from the stack as many default values as the code of the function was made
  for, and the new function refers to a tuple of exactly these.\<close>

theorem lambda_defaults:
  assumes "length ds + of_bool va \<le> k" "k < 2 ^ 64" "w_codes w code = Some (f_code sc va k (length ds))"
    "v_context_scope (r_context s) = Some a_scope" "take (length ds) (drop a (v_estack s)) = ds" "a + length ds \<le> length (v_estack s)"
  shows "\<exists>p d s1. instantiate_advanced w code a s = Done (V_object p) s1 \<and>
    v_objects (v_heap s1) p = Some (H_advanced (Some a_scope) code d) \<and> has_defaults (v_heap s1) d ds"
proof -
  have n: "defaults_size (f_code sc va k (length ds)) = length ds" by (rule f_code_minimum(2)[OF assms(1,2)])
  have scope: "context_scope s = Done a_scope s" using assms(4) by (simp add: context_scope_def)
  show ?thesis
  proof (cases "ds = []")
    case True
    then show ?thesis
      using assms(3) n by (simp add: instantiate_advanced_def code_of_def x_bind_def scope x_new_eval f_new_object_lookup has_defaults_def)
  next
    case False
    then show ?thesis
      using assms(3,5,6) n
      by (simp add: instantiate_advanced_def code_of_def x_bind_def scope x_stack x_new_eval f_new_object_lookup has_defaults_def f_new_object_def)
  qed
qed

theorem lambda_defaults_witness:
  "\<exists>p d s1. instantiate_advanced (plain_world [7 \<mapsto> f_code (t_scope_new None) False 2 1]) 7 3 (calling_state (replicate 8 V_true) Map.empty) = Done (V_object p) s1 \<and>
     v_objects (v_heap s1) p = Some (H_advanced (Some 9) 7 d) \<and> has_defaults (v_heap s1) d [V_true]"
proof -
  let ?w = "plain_world [7 \<mapsto> f_code (t_scope_new None) False 2 1]" and ?s = "calling_state (replicate 8 V_true) Map.empty"
  have "v_context_scope (r_context ?s) = Some 9" "take 1 (drop 3 (v_estack ?s)) = [V_true]" "3 + 1 \<le> length (v_estack ?s)"
    by (simp_all add: calling_state_def eval_nat_numeral)
  then show ?thesis
    using lambda_defaults[of "[V_true]" False 2 ?w 7 "t_scope_new None" ?s 9 3] by (simp add: plain_world_def)
qed

text \<open>C0: \<open>f_expand\<close> replaces every argument that is marked by the elements of its tuple or list and keeps the others
  in place: the number and the sequence of arguments of the call are those of the written list flattened.
  Nothing below the arguments moves, and the part of the stack in use covers them all.\<close>

theorem expand_flattens:
  assumes "v_estack s = ys @ [callee, self] @ written es us @ zs" "\<forall>(vs, p, xs) \<in> set es. object_contents (v_heap s) p xs"
    "length ys + 2 + length (flattened es us) + length es \<le> length (v_estack s)"
    "drop (Suc (r_pc s)) cs = run_cells es us @ ds" "length ys + 2 + length (written es us) \<le> v_stack_used s"
  shows "\<exists>zs1 n. f_expand w cs (length ys) (length (written es us)) s =
       Done (length (flattened es us)) (s\<lparr>r_pc := r_pc s + length es + 1, v_estack := ys @ [callee, self] @ flattened es us @ zs1, v_stack_used := n\<rparr>) \<and>
     length ys + 2 + length (flattened es us) \<le> n \<and> v_stack_used s \<le> n"
proof -
  let ?ys = "ys @ [callee, self]"
  have st: "v_estack s = ?ys @ written es us @ zs" "length ?ys + length (flattened es us) + length es \<le> length (v_estack s)"
    "length ?ys + length (written es us) \<le> v_stack_used s"
    using assms(1,3,5) by simp_all
  show ?thesis
  proof (rule expand_loop_values[where w = w and k = 0, OF st(1) assms(2) st(2) assms(4) st(3)])
    fix zs1 n
    assume "expand_loop w cs (length ?ys) (length (written es us)) 0 s = Done (0 + length (flattened es us))
        (s\<lparr>r_pc := r_pc s + length es + 1, v_estack := ?ys @ flattened es us @ zs1, v_stack_used := n\<rparr>)"
      and n: "v_stack_used s \<le> n" "length ?ys + length (flattened es us) \<le> n"
    then show ?thesis unfolding f_expand_def by (intro exI[of _ zs1] exI[of _ n]) simp
  qed
qed

theorem expand_flattens_witness:
  "\<exists>zs1 n. f_expand (plain_world Map.empty) [C_instruction (I_CALL_WITH_EXPANSION False), C_size 1, C_size 1] 0 3
       (calling_state [V_null, V_null, V_true, V_object 4, V_false, V_null, V_null, V_null] [4 \<mapsto> H_tuple [V_null, V_true]]) =
     Done 4 (calling_state [V_null, V_null, V_true, V_object 4, V_false, V_null, V_null, V_null] [4 \<mapsto> H_tuple [V_null, V_true]]
       \<lparr>r_pc := 2, v_estack := [V_null, V_null, V_true, V_null, V_true, V_false] @ zs1, v_stack_used := n\<rparr>)"
proof -
  let ?s = "calling_state [V_null, V_null, V_true, V_object 4, V_false, V_null, V_null, V_null] [4 \<mapsto> H_tuple [V_null, V_true]]"
  have "object_contents (v_heap ?s) 4 [V_null, V_true]" by (simp add: object_contents_def calling_state_def)
  then show ?thesis
    using expand_flattens[of ?s "[]" V_null V_null "[([V_true], 4, [V_null, V_true])]" "[V_false]" "[V_null, V_null, V_null]"
      "[C_instruction (I_CALL_WITH_EXPANSION False), C_size 1, C_size 1]" "[]" "plain_world Map.empty"]
    by (auto simp: calling_state_def eval_nat_numeral)
qed

end
