(* ===== verification/Xm_Interp_Correct.thy ===== *)
theory Xm_Interp_Correct
  imports Xm_Interp Xm_Call_Correct
begin

text \<open>
  Exceptions in the interpreter.  \<open>f_try\<close> runs the code of \<open>finally\<close> in three places, one for each way out of the
  body and its catches; the specification has it once.
\<close>

section \<open>Exceptions\<close>

lemma t_code_f_loop_pairs: "t_code_f_loop w j cs s = Raise x s1 \<Longrightarrow> \<exists>v a. x = X_pair v a"
  by (auto simp: t_code_f_loop_def code_loop_def x_then_def x_bind_def x_catch_def f_rethrow_def set_pc_def
      split: outcome.splits t_exception.splits prod.splits)

text \<open>The outcome of a step as a value.\<close>

definition x_attempt :: "('w, 'a) xm \<Rightarrow> ('w, t_exception + 'a) xm" where
  "x_attempt m s = (case m s of Done a s1 \<Rightarrow> Done (Inr a) s1 | Raise x s1 \<Rightarrow> Done (Inl x) s1 | Undef msg \<Rightarrow> Undef msg | Timeout \<Rightarrow> Timeout)"

text \<open>The body and the catches alone: the first catch whose type fits gets the exception, and without one it
  goes on.\<close>

definition plain_turn :: "'w t_world \<Rightarrow> 'w t_loop \<Rightarrow> t_cell list \<Rightarrow> nat \<Rightarrow> t_value \<Rightarrow> nat \<Rightarrow> ('w, nat option option) xm" where
  "plain_turn w loop cs stack thrown place =
     x_bind (loop cs) (\<lambda>try0.
       if try0 \<noteq> Some (try_code c_try__CATCH) then x_return (Some try0)
       else x_then
         (x_catch (catch_match w cs stack thrown place) (\<lambda>x. context_pc (\<lambda>a. f_rethrow w a x)))
         (x_return None))"

primrec plain_turns :: "'w t_world \<Rightarrow> 'w t_loop \<Rightarrow> nat \<Rightarrow> t_cell list \<Rightarrow> nat \<Rightarrow> t_value \<Rightarrow> nat \<Rightarrow> ('w, nat option) xm" where
  "plain_turns w loop 0 cs stack thrown place = (\<lambda>s. Timeout)"
| "plain_turns w loop (Suc k) cs stack thrown place =
     x_bind (plain_turn w loop cs stack thrown place) (\<lambda>r. case r of
         Some try0 \<Rightarrow> x_return try0
       | None \<Rightarrow> plain_turns w loop k cs stack thrown place)"

definition guarded :: "'w t_world \<Rightarrow> 'w t_loop \<Rightarrow> nat \<Rightarrow> t_cell list \<Rightarrow> nat \<Rightarrow> nat \<Rightarrow> ('w, nat option) xm" where
  "guarded w loop k cs stack catch0 =
     x_catch (loop cs) (\<lambda>x. case x of
         X_pair thrown place \<Rightarrow>
           x_then (set_context_pc catch0)
           (x_bind (plain_turns w loop k cs stack thrown place) (\<lambda>try0.
             if try0 = Some (try_code c_try__THROW) then x_raise x else x_return try0))
       | X_value v \<Rightarrow> x_raise x)"

text \<open>What \<open>try\<close> means: whatever the body and the catches do, \<open>finally\<close> comes next, once, and then what they
  had decided happens.\<close>

definition try_specification :: "'w t_world \<Rightarrow> 'w t_loop \<Rightarrow> nat \<Rightarrow> t_cell list \<Rightarrow> ('w, unit) xm" where
  "try_specification w loop k cs =
     x_bind (try_operands cs) (\<lambda>(stack, catch0, finally0).
     x_bind (x_attempt (guarded w loop k cs stack catch0)) (\<lambda>r.
     x_then (set_context_pc finally0)
     (x_then (loop cs)
     (case r of Inl x \<Rightarrow> x_raise x | Inr try0 \<Rightarrow> try_exit cs try0))))"

lemma finally_raise_bind: "(case finally_raise loop cs finally0 x s of Done a s1 \<Rightarrow> f a s1 | Raise x s1 \<Rightarrow> Raise x s1 | Undef msg \<Rightarrow> Undef msg | Timeout \<Rightarrow> Timeout) =
    finally_raise loop cs finally0 x s"
  by (simp add: finally_raise_def x_then_def x_bind_def split: outcome.split)

lemma finally_raise_not_Done [simp]: "finally_raise loop cs finally0 x s \<noteq> Done a s1"
  by (simp add: finally_raise_def x_then_def x_bind_def split: outcome.split)

lemma catch_turns_plain:
  "catch_turns w loop k cs stack finally0 thrown place s =
     (case plain_turns w loop k cs stack thrown place s of Raise x s1 \<Rightarrow> finally_raise loop cs finally0 x s1 | r \<Rightarrow> r)"
proof (induction k arbitrary: s)
  case (Suc k)
  have turn: "catch_turn w loop cs stack finally0 thrown place s =
      (case plain_turn w loop cs stack thrown place s of Raise x s1 \<Rightarrow> finally_raise loop cs finally0 x s1 | r \<Rightarrow> r)"
    by (simp add: catch_turn_def plain_turn_def x_catch_def)
  then show ?case
    by (cases "plain_turn w loop cs stack thrown place s") (simp_all add: x_bind_def finally_raise_bind Suc split: option.split)
qed simp

lemma try_handler_plain:
  assumes "x = X_pair thrown place"
  shows "try_handler w loop k cs stack catch0 finally0 x s =
    (case x_then (set_context_pc catch0) (x_bind (plain_turns w loop k cs stack thrown place) (\<lambda>try0.
       if try0 = Some (try_code c_try__THROW) then x_raise x else x_return try0)) s
     of Raise y s1 \<Rightarrow> finally_raise loop cs finally0 y s1 | r \<Rightarrow> r)"
  using assms
  by (simp add: try_handler_def x_then_def x_bind_def set_context_pc_def catch_turns_plain finally_raise_bind split: outcome.split)

text \<open>C0: \<open>finally\<close> runs exactly once on every way out of a \<open>try\<close>: after the body, after a catch, on the way of an
  exception that no catch takes or that a catch throws.  \<open>f_try\<close>, which has it in three places, is the
  specification, in which it stands once.\<close>

theorem try_finally:
  "f_try w (t_code_f_loop w j) k cs = try_specification w (t_code_f_loop w j) k cs"
proof -
  let ?loop = "t_code_f_loop w j"
  have "x_bind (x_catch (?loop cs) (try_handler w ?loop k cs stack catch0 finally0)) (\<lambda>try0.
      x_then (set_context_pc finally0) (x_then (?loop cs) (try_exit cs try0))) s =
    x_bind (x_attempt (guarded w ?loop k cs stack catch0)) (\<lambda>r.
      x_then (set_context_pc finally0) (x_then (?loop cs) (case r of Inl x \<Rightarrow> x_raise x | Inr try0 \<Rightarrow> try_exit cs try0))) s"
    for stack catch0 finally0 s
  proof (cases "?loop cs s")
    case (Raise x s1)
    obtain thrown place where x: "x = X_pair thrown place" using t_code_f_loop_pairs[OF Raise] by blast
    define m where "m = x_then (set_context_pc catch0) (x_bind (plain_turns w ?loop k cs stack thrown place) (\<lambda>try0.
       if try0 = Some (try_code c_try__THROW) then x_raise x else x_return try0))"
    have g: "guarded w ?loop k cs stack catch0 s = m s1" using Raise unfolding m_def x by (simp add: guarded_def x_catch_def)
    have h: "x_catch (?loop cs) (try_handler w ?loop k cs stack catch0 finally0) s =
        (case m s1 of Raise y s2 \<Rightarrow> finally_raise ?loop cs finally0 y s2 | r \<Rightarrow> r)"
      using Raise try_handler_plain[OF x, of w ?loop k cs stack catch0 finally0 s1] by (simp add: x_catch_def m_def)
    show ?thesis
      by (cases "m s1") (simp_all add: x_bind_def x_attempt_def g h finally_raise_bind finally_raise_def[symmetric])
  qed (simp_all add: x_bind_def x_catch_def x_attempt_def guarded_def)
  then show ?thesis
    by (auto simp: f_try_def try_specification_def x_bind_def fun_eq_iff split: outcome.split prod.split)
qed

end
