(* ===== verification/Xm_Time.thy ===== *)
theory Xm_Time
  imports Xm_Lexer Xm_Value "HOL-Library.Signed_Division"
begin

text \<open>
  The library module \<open>time\<close> (src/modules/time.cc): dates as tuples, their conversion to seconds, the names of
  months and zones, and the date formats of RFC 2822 and HTTP.

  A tuple is the list of its values, a C string the list of its characters with a terminator after it.
  \<open>intptr_t\<close> is \<^typ>\<open>int\<close>: the arithmetic on it can only overflow, which C++ leaves undefined, and where the
  input decides that, the model says so.  The directives of \<open>swscanf\<close> and \<open>swprintf\<close> that the module uses
  are functions on the text.

  \<open>now\<close>, \<open>tick\<close>, \<open>offset\<close> and \<open>decompose\<close> ask the operating system and the C library; the routines for the
  format of XML Schema read and print floating-point numbers.  They are not modelled.
\<close>

section \<open>Items\<close>

definition f_item :: "t_value list \<Rightarrow> nat \<Rightarrow> int result" where
  "f_item a_tuple a_index =
     (case a_tuple ! a_index of V_integer n \<Rightarrow> Inr (sint n) | _ \<Rightarrow> Inl (Type_error ''item''))"

definition f_item_with_fraction :: "t_value list \<Rightarrow> nat \<Rightarrow> float64 result" where
  "f_item_with_fraction a_tuple a_index =
     (case a_tuple ! a_index of
        V_integer n \<Rightarrow> Inr (f64_of_int (sint n))
      | V_float x \<Rightarrow> Inr x
      | _ \<Rightarrow> Inl (Type_error ''item''))"

section \<open>Days\<close>

definition v_epoch_days :: int where
  "v_epoch_days = 1969 * 365 + 1969 div 4 - 1969 div 100 + 1969 div 400"

definition v_month_base_days :: "int list" where
  "v_month_base_days = [0, 31, 59, 90, 120, 151, 181, 212, 243, 273, 304, 334]"

text \<open>Year and month, the month counted from 0 and brought into its range.\<close>

definition compose_month :: "int \<Rightarrow> int \<Rightarrow> int \<times> int" where
  "compose_month year month =
     (let y = year + month sdiv 12; m = month smod 12
      in if m < 0 then (y - 1, m + 12) else (y, m))"

text \<open>The day of a year, a month from 0 and a day of the month, counted from the epoch.  \<open>/\<close> and \<open>%\<close>
  truncate.\<close>

definition compose_days :: "int \<Rightarrow> int \<Rightarrow> int \<Rightarrow> int" where
  "compose_days year month day =
     (let days = v_month_base_days ! nat month;
          days1 = (if 1 < month \<and> year smod 4 = 0 \<and> (year smod 100 \<noteq> 0 \<or> year smod 400 = 0) then days + 1 else days);
          y = year - 1
      in days1 + (y * 365 + y sdiv 4 - y sdiv 100 + y sdiv 400) + day - 1 - v_epoch_days)"

text \<open>The values that the calculation goes through: outside \<open>intptr_t\<close> it is undefined.\<close>

definition fits :: "int \<Rightarrow> bool" where
  "fits n \<longleftrightarrow> - (2 ^ 63) \<le> n \<and> n < 2 ^ 63"

definition compose_terms :: "int \<Rightarrow> int \<Rightarrow> int \<Rightarrow> int \<Rightarrow> int \<Rightarrow> int list" where
  "compose_terms year month y m day =
     (let z = y - 1; d = compose_days y m day in
      [month, year + month sdiv 12, y, z, z * 365, z * 365 + z sdiv 4, z * 365 + z sdiv 4 - z sdiv 100,
       z * 365 + z sdiv 4 - z sdiv 100 + z sdiv 400, d + v_epoch_days + 1 - day, d + v_epoch_days + 1, d + v_epoch_days, d])"

definition compose :: "t_value list \<Rightarrow> float64 result" where
  "compose a_value =
     (if length a_value < 3 then Inl (Thrown ''must have at least 3 items.'')
      else bind_result (f_item a_value 0) (\<lambda>year.
        bind_result (f_item a_value 1) (\<lambda>month.
        let (y, m) = compose_month year (month - 1) in
        bind_result (f_item a_value 2) (\<lambda>day.
        if \<not> list_all fits (compose_terms year (month - 1) y m day) then Inl (Undefined ''overflow'')
        else let t = f64_mul (f64_of_int (compose_days y m day)) (f64_of_int 24) in
          bind_result (if 3 < length a_value then bind_result (f_item a_value 3) (\<lambda>n. Inr (f64_add t (f64_of_int n))) else Inr t) (\<lambda>t1.
          let t2 = f64_mul t1 (f64_of_int 60) in
          bind_result (if 4 < length a_value then bind_result (f_item a_value 4) (\<lambda>n. Inr (f64_add t2 (f64_of_int n))) else Inr t2) (\<lambda>t3.
          let t4 = f64_mul t3 (f64_of_int 60) in
          if 5 < length a_value then bind_result (f_item_with_fraction a_value 5) (\<lambda>x. Inr (f64_add t4 x)) else Inr t4))))))"

section \<open>Names of months and zones\<close>

text \<open>\<open>a_name[i]\<close>, with the terminator after the last character.\<close>

definition c_at :: "wchar list \<Rightarrow> nat \<Rightarrow> wchar" where
  "c_at s i = (if i < length s then s ! i else 0)"

text \<open>Two case labels of a \<open>switch\<close>.\<close>

definition among :: "wchar \<Rightarrow> string \<Rightarrow> bool" where
  "among c cs \<longleftrightarrow> c \<in> set (wide cs)"

definition f_month_name_to_number :: "wchar list \<Rightarrow> int" where
  "f_month_name_to_number a_name =
     (let c0 = c_at a_name 0; c1 = c_at a_name 1; c2 = c_at a_name 2;
          ends = (\<lambda>n. if c_at a_name 3 = 0 then n else 0)
      in if among c0 ''Aa'' then
           (if among c1 ''Pp'' then (if among c2 ''Rr'' then ends 4 else 0)
            else if among c1 ''Uu'' then (if among c2 ''Gg'' then ends 8 else 0)
            else 0)
         else if among c0 ''Dd'' then
           (if among c1 ''Ee'' then (if among c2 ''Cc'' then ends 12 else 0) else 0)
         else if among c0 ''Ff'' then
           (if among c1 ''Ee'' then (if among c2 ''Bb'' then ends 2 else 0) else 0)
         else if among c0 ''Jj'' then
           (if among c1 ''Aa'' then (if among c2 ''Nn'' then ends 1 else 0)
            else if among c1 ''Uu'' then (if among c2 ''Ll'' then ends 7 else if among c2 ''Nn'' then ends 6 else 0)
            else 0)
         else if among c0 ''Mm'' then
           (if among c1 ''Aa'' then (if among c2 ''Rr'' then ends 3 else if among c2 ''Yy'' then ends 5 else 0) else 0)
         else if among c0 ''Nn'' then
           (if among c1 ''Oo'' then (if among c2 ''Vv'' then ends 11 else 0) else 0)
         else if among c0 ''Oo'' then
           (if among c1 ''Cc'' then (if among c2 ''Tt'' then ends 10 else 0) else 0)
         else if among c0 ''Ss'' then
           (if among c1 ''Ee'' then (if among c2 ''Pp'' then ends 9 else 0) else 0)
         else 0)"

definition f_zone_to_offset_us :: "wchar list \<Rightarrow> int \<Rightarrow> int \<Rightarrow> int" where
  "f_zone_to_offset_us a_zone a_military a_us =
     (let daylight = (\<lambda>us. if among (c_at a_zone 2) ''Tt'' then (if c_at a_zone 3 = 0 then us * 3600 else 0) else 0)
      in if c_at a_zone 1 = 0 then a_military * 3600
         else if among (c_at a_zone 1) ''Dd'' then daylight (a_us + 1)
         else if among (c_at a_zone 1) ''Ss'' then daylight a_us
         else 0)"

definition c_digit :: "wchar \<Rightarrow> bool" where
  "c_digit c \<longleftrightarrow> iswdigit (Some c)"

definition c_value :: "wchar \<Rightarrow> int" where
  "c_value c = int c - 48"

text \<open>The numeric zones, \<open>+hhmm\<close> and \<open>+hh:mm\<close>.\<close>

definition zone_numeric :: "wchar list \<Rightarrow> int" where
  "zone_numeric a_zone =
     (if c_digit (c_at a_zone 1) \<and> c_digit (c_at a_zone 2) then
        (let i = (if c_at a_zone 3 = W CHR '':'' then 4 else 3)
         in if \<not> c_digit (c_at a_zone i) \<or> \<not> c_digit (c_at a_zone (i + 1)) \<or> c_at a_zone (i + 2) \<noteq> 0 then 0
            else let hour = c_value (c_at a_zone 1) * 10 + c_value (c_at a_zone 2);
                     minute = c_value (c_at a_zone i) * 10 + c_value (c_at a_zone (i + 1))
                 in (if c_at a_zone 0 = W CHR ''-'' then - 60 else 60) * (hour * 60 + minute))
      else 0)"

text \<open>The single letters of military zones.\<close>

definition zone_military :: "(string \<times> int) list" where
  "zone_military =
     [(''Aa'', 1), (''Bb'', 2), (''Dd'', 4), (''Ff'', 6), (''Gg'', 7), (''Hh'', 8), (''Ii'', 9), (''Kk'', 10), (''Ll'', 11),
      (''Nn'', -1), (''Oo'', -2), (''Qq'', -4), (''Rr'', -5), (''Ss'', -6), (''Tt'', -7), (''Uu'', -8), (''Vv'', -9),
      (''Ww'', -10), (''Xx'', -11), (''Yy'', -12)]"

definition f_zone_to_offset :: "wchar list \<Rightarrow> int" where
  "f_zone_to_offset a_zone =
     (let c = c_at a_zone 0
      in if among c ''+-'' then zone_numeric a_zone
         else if among c ''Cc'' then f_zone_to_offset_us a_zone 3 (- 6)
         else if among c ''Ee'' then f_zone_to_offset_us a_zone 5 (- 5)
         else if among c ''Mm'' then f_zone_to_offset_us a_zone 12 (- 7)
         else if among c ''Pp'' then f_zone_to_offset_us a_zone (- 3) (- 8)
         else case find (\<lambda>(cs, _). among c cs) zone_military of
                None \<Rightarrow> 0
              | Some (_, h) \<Rightarrow> (if c_at a_zone 1 = 0 then h * 3600 else 0))"

definition v_rfc2822_days :: "string list" where
  "v_rfc2822_days = [''Sun'', ''Mon'', ''Tue'', ''Wed'', ''Thu'', ''Fri'', ''Sat'']"

definition v_rfc2822_months :: "string list" where
  "v_rfc2822_months =
     [''Jan'', ''Feb'', ''Mar'', ''Apr'', ''May'', ''Jun'', ''Jul'', ''Aug'', ''Sep'', ''Oct'', ''Nov'', ''Dec'']"

section \<open>Scanning\<close>

text \<open>The directives of \<open>swscanf\<close>: each gives what it converts and the rest of the input, \<^const>\<open>None\<close> when it
  fails.  White space in the format skips white space in the input; so do \<open>%ls\<close> and \<open>%d\<close>.\<close>

definition scanf_space :: "wctype \<Rightarrow> wchar list \<Rightarrow> wchar list" where
  "scanf_space lc s = dropWhile (w_space lc) s"

definition scanf_char :: "wchar \<Rightarrow> wchar list \<Rightarrow> wchar list option" where
  "scanf_char c s = (case s of [] \<Rightarrow> None | x # xs \<Rightarrow> if x = c then Some xs else None)"

definition scanf_word :: "wctype \<Rightarrow> nat \<Rightarrow> wchar list \<Rightarrow> (wchar list \<times> wchar list) option" where
  "scanf_word lc width s =
     (let s1 = scanf_space lc s; w = takeWhile (\<lambda>c. \<not> w_space lc c) (take width s1)
      in if w = [] then None else Some (w, drop (length w) s1))"

definition scanf_letters :: "wchar list \<Rightarrow> wchar list option" where
  "scanf_letters s =
     (let letter = (\<lambda>c. 65 \<le> c \<and> c \<le> 90 \<or> 97 \<le> c \<and> c \<le> 122)
      in if takeWhile letter s = [] then None else Some (dropWhile letter s))"

definition digits_value :: "wchar list \<Rightarrow> int" where
  "digits_value ds = foldl (\<lambda>n d. n * 10 + c_value d) 0 ds"

definition scanf_int :: "wctype \<Rightarrow> nat \<Rightarrow> wchar list \<Rightarrow> (int \<times> wchar list) option" where
  "scanf_int lc width s =
     (let s1 = scanf_space lc s;
          sign = takeWhile (\<lambda>c. among c ''+-'') (take 1 s1);
          s2 = drop (length sign) s1;
          ds = takeWhile c_digit (take (width - length sign) s2)
      in if ds = [] then None
         else Some ((if sign = [W CHR ''-''] then - digits_value ds else digits_value ds), drop (length ds) s2))"

section \<open>Printing\<close>

function show_nat :: "nat \<Rightarrow> wchar list" where
  "show_nat n = (if n < 10 then [48 + n] else show_nat (n div 10) @ [48 + n mod 10])"
  by pat_completeness auto
termination by (relation "measure id") auto

declare show_nat.simps [simp del]

text \<open>\<open>%0wd\<close> of \<open>swprintf\<close>: zeros between the sign and the digits up to the width.\<close>

definition print_int :: "nat \<Rightarrow> int \<Rightarrow> wchar list" where
  "print_int width n =
     (let sign = (if n < 0 then [W CHR ''-''] else []); ds = show_nat (nat \<bar>n\<bar>)
      in sign @ replicate (width - length sign - length ds) (W CHR ''0'') @ ds)"

text \<open>The result of \<open>swprintf\<close> as a string: when the buffer is too small it is a negative number, which
  \<open>t_string::f_instantiate\<close> takes as a length.\<close>

definition printed :: "nat \<Rightarrow> wchar list \<Rightarrow> wchar list result" where
  "printed a_size s = (if length s < a_size then Inr s else Inl (Undefined ''length of a string''))"

definition name_of :: "string list \<Rightarrow> int \<Rightarrow> wchar list result" where
  "name_of names i = (if 0 \<le> i \<and> i < int (length names) then Inr (wide (names ! nat i)) else Inl (Undefined ''index of a name''))"

definition seconds_of :: "t_value list \<Rightarrow> int result" where
  "seconds_of a_value = bind_result (f_item_with_fraction a_value 5) (\<lambda>x. f64_to_int (f64_floor x))"

section \<open>RFC 2822\<close>

definition V_int :: "int \<Rightarrow> t_value" where
  "V_int n = V_integer (word_of_int n)"

definition c_str :: "wchar list \<Rightarrow> wchar list" where
  "c_str s = takeWhile (\<lambda>c. c \<noteq> 0) s"

definition invalid_format :: "'a result" where
  "invalid_format = Inl (Thrown ''invalid format.'')"

definition full_year :: "int \<Rightarrow> int" where
  "full_year year = (if year < 50 then year + 2000 else if year < 1000 then year + 1900 else year)"

text \<open>\<open>"%*3ls, %2d %3ls %4d %2d:%2d%n"\<close>.\<close>

definition scanf_rfc2822 :: "wctype \<Rightarrow> wchar list \<Rightarrow> (int \<times> wchar list \<times> int \<times> int \<times> int \<times> wchar list) option" where
  "scanf_rfc2822 lc s0 = do {
     (_, s) \<leftarrow> scanf_word lc 3 s0;
     s \<leftarrow> scanf_char (W CHR '','') s;
     (day, s) \<leftarrow> scanf_int lc 2 (scanf_space lc s);
     (month, s) \<leftarrow> scanf_word lc 3 (scanf_space lc s);
     (year, s) \<leftarrow> scanf_int lc 4 (scanf_space lc s);
     (hour, s) \<leftarrow> scanf_int lc 2 (scanf_space lc s);
     s \<leftarrow> scanf_char (W CHR '':'') s;
     (minute, s) \<leftarrow> scanf_int lc 2 s;
     Some (day, month, year, hour, minute, s)}"

text \<open>\<open>"%2d %5ls"\<close> after a colon, or \<open>" %5ls"\<close>.\<close>

definition scanf_seconds_zone :: "wctype \<Rightarrow> wchar list \<Rightarrow> (int \<times> wchar list) option" where
  "scanf_seconds_zone lc s =
     (if c_at s 0 = W CHR '':'' then do {
        (second, s) \<leftarrow> scanf_int lc 2 (drop 1 s);
        (zone, _) \<leftarrow> scanf_word lc 5 (scanf_space lc s);
        Some (second, zone)}
      else do {
        (zone, _) \<leftarrow> scanf_word lc 5 (scanf_space lc s);
        Some (0, zone)})"

definition parse_rfc2822 :: "wctype \<Rightarrow> wchar list \<Rightarrow> t_value list result" where
  "parse_rfc2822 lc a_value =
     (case scanf_rfc2822 lc (c_str a_value) of
        None \<Rightarrow> invalid_format
      | Some (day, month, year, hour, minute, s) \<Rightarrow>
          let m = f_month_name_to_number month in
          if m \<le> 0 then invalid_format
          else (case scanf_seconds_zone lc s of
              None \<Rightarrow> invalid_format
            | Some (second, zone) \<Rightarrow>
                Inr (map V_int [full_year year, m, day, hour, minute, second, f_zone_to_offset zone])))"

definition format_rfc2822 :: "t_value list \<Rightarrow> int \<Rightarrow> wchar list result" where
  "format_rfc2822 a_value a_offset =
     (if length a_value < 7 then Inl (Thrown ''must have at least 7 items.'')
      else bind_result (f_item a_value 0) (\<lambda>year.
        bind_result (f_item a_value 1) (\<lambda>month.
        bind_result (f_item a_value 2) (\<lambda>day.
        bind_result (f_item a_value 3) (\<lambda>hour.
        bind_result (f_item a_value 4) (\<lambda>minute.
        bind_result (seconds_of a_value) (\<lambda>second.
        bind_result (f_item a_value 6) (\<lambda>week.
        let offset = \<bar>a_offset\<bar> div 60 in
        bind_result (name_of v_rfc2822_days week) (\<lambda>d.
        bind_result (name_of v_rfc2822_months (month - 1)) (\<lambda>m.
        printed 32 (d @ wide '', '' @ print_int 0 day @ wide '' '' @ m @ wide '' '' @ print_int 4 year @ wide '' '' @
          print_int 2 hour @ wide '':'' @ print_int 2 minute @ wide '':'' @ print_int 2 second @ wide '' '' @
          [if 0 < a_offset then W CHR ''+'' else W CHR ''-''] @
          print_int 2 (offset div 60) @ print_int 2 (offset mod 60))))))))))))"

section \<open>HTTP\<close>

text \<open>\<open>"%*3ls, %2d %3ls %4d %2d:%2d:%2d GMT"\<close>, \<open>"%*l[A-Za-z], %2d-%3ls-%2d %2d:%2d:%2d GMT"\<close> and
  \<open>"%*3ls %3ls %2d %2d:%2d:%2d %4d"\<close>; what follows the last conversion makes no difference.\<close>

definition scanf_time :: "wctype \<Rightarrow> wchar list \<Rightarrow> (int \<times> int \<times> int \<times> wchar list) option" where
  "scanf_time lc s0 = do {
     (hour, s) \<leftarrow> scanf_int lc 2 (scanf_space lc s0);
     s \<leftarrow> scanf_char (W CHR '':'') s;
     (minute, s) \<leftarrow> scanf_int lc 2 s;
     s \<leftarrow> scanf_char (W CHR '':'') s;
     (second, s) \<leftarrow> scanf_int lc 2 s;
     Some (hour, minute, second, s)}"

definition scanf_rfc1123 :: "wctype \<Rightarrow> wchar list \<Rightarrow> (int \<times> wchar list \<times> int \<times> int \<times> int \<times> int) option" where
  "scanf_rfc1123 lc s0 = do {
     (_, s) \<leftarrow> scanf_word lc 3 s0;
     s \<leftarrow> scanf_char (W CHR '','') s;
     (day, s) \<leftarrow> scanf_int lc 2 (scanf_space lc s);
     (month, s) \<leftarrow> scanf_word lc 3 (scanf_space lc s);
     (year, s) \<leftarrow> scanf_int lc 4 (scanf_space lc s);
     (hour, minute, second, _) \<leftarrow> scanf_time lc s;
     Some (day, month, year, hour, minute, second)}"

definition scanf_rfc850 :: "wctype \<Rightarrow> wchar list \<Rightarrow> (int \<times> wchar list \<times> int \<times> int \<times> int \<times> int) option" where
  "scanf_rfc850 lc s0 = do {
     s \<leftarrow> scanf_letters s0;
     s \<leftarrow> scanf_char (W CHR '','') s;
     (day, s) \<leftarrow> scanf_int lc 2 (scanf_space lc s);
     s \<leftarrow> scanf_char (W CHR ''-'') s;
     (month, s) \<leftarrow> scanf_word lc 3 s;
     s \<leftarrow> scanf_char (W CHR ''-'') s;
     (year, s) \<leftarrow> scanf_int lc 2 s;
     (hour, minute, second, _) \<leftarrow> scanf_time lc s;
     Some (day, month, year, hour, minute, second)}"

definition scanf_asctime :: "wctype \<Rightarrow> wchar list \<Rightarrow> (int \<times> wchar list \<times> int \<times> int \<times> int \<times> int) option" where
  "scanf_asctime lc s0 = do {
     (_, s) \<leftarrow> scanf_word lc 3 s0;
     (month, s) \<leftarrow> scanf_word lc 3 (scanf_space lc s);
     (day, s) \<leftarrow> scanf_int lc 2 (scanf_space lc s);
     (hour, minute, second, s) \<leftarrow> scanf_time lc s;
     (year, _) \<leftarrow> scanf_int lc 4 (scanf_space lc s);
     Some (day, month, year, hour, minute, second)}"

definition parse_http :: "wctype \<Rightarrow> wchar list \<Rightarrow> t_value list result" where
  "parse_http lc a_value =
     (let s = c_str a_value;
          scanned = (case scanf_rfc1123 lc s of
              Some r \<Rightarrow> Some r
            | None \<Rightarrow> (case scanf_rfc850 lc s of Some r \<Rightarrow> Some r | None \<Rightarrow> scanf_asctime lc s))
      in case scanned of
           None \<Rightarrow> invalid_format
         | Some (day, month, year, hour, minute, second) \<Rightarrow>
             let m = f_month_name_to_number month in
             if m \<le> 0 then invalid_format
             else Inr (map V_int [full_year year, m, day, hour, minute, second]))"

definition format_http :: "t_value list \<Rightarrow> wchar list result" where
  "format_http a_value =
     (if length a_value < 7 then Inl (Thrown ''must have at least 7 items.'')
      else bind_result (f_item a_value 0) (\<lambda>year.
        bind_result (f_item a_value 1) (\<lambda>month.
        bind_result (f_item a_value 2) (\<lambda>day.
        bind_result (f_item a_value 3) (\<lambda>hour.
        bind_result (f_item a_value 4) (\<lambda>minute.
        bind_result (seconds_of a_value) (\<lambda>second.
        bind_result (f_item a_value 6) (\<lambda>week.
        bind_result (name_of v_rfc2822_days week) (\<lambda>d.
        bind_result (name_of v_rfc2822_months (month - 1)) (\<lambda>m.
        printed 30 (d @ wide '', '' @ print_int 2 day @ wide '' '' @ m @ wide '' '' @ print_int 4 year @ wide '' '' @
          print_int 2 hour @ wide '':'' @ print_int 2 minute @ wide '':'' @ print_int 2 second @ wide '' GMT'')))))))))))"

end
