(* ===== verification/Xm_Time_Correct.thy ===== *)
theory Xm_Time_Correct
  imports Xm_Time
begin

text \<open>
  The calendar and the date formats of the module \<open>time\<close> are right: \<open>compose\<close> numbers the days of the
  Gregorian calendar one by one from the epoch and converts to seconds without rounding, the switch over month
  names is a table look-up, and what the formats of HTTP and RFC 2822 print they read back.  The last property
  shows where the calendar ends: the truncating divisions are wrong before the year 1.

  \<open>spaces_ok\<close> is what the scanning directives need of the locale; \<open>date_ok\<close>, \<open>clock_ok\<close> and \<open>zone_ok\<close> are the
  ranges in which every field fits its width in the formats.
\<close>

section \<open>Names of months\<close>

definition lower :: "wchar \<Rightarrow> wchar" where
  "lower c = (if 65 \<le> c \<and> c \<le> 90 then c + 32 else c)"

definition month_table :: "(wchar list \<times> int) list" where
  "month_table = zip (map (map lower \<circ> wide) v_rfc2822_months) [1, 2, 3, 4, 5, 6, 7, 8, 9, 10, 11, 12]"

lemma month_table_eq:
  "month_table = [([106, 97, 110], 1), ([102, 101, 98], 2), ([109, 97, 114], 3), ([97, 112, 114], 4), ([109, 97, 121], 5),
     ([106, 117, 110], 6), ([106, 117, 108], 7), ([97, 117, 103], 8), ([115, 101, 112], 9), ([111, 99, 116], 10),
     ([110, 111, 118], 11), ([100, 101, 99], 12)]"
  by (simp add: month_table_def v_rfc2822_months_def wide_def lower_def)

lemma lower_letter: "97 \<le> k \<Longrightarrow> k \<le> 122 \<Longrightarrow> lower c = k \<longleftrightarrow> c = k \<or> c = k - 32"
  by (auto simp: lower_def)

lemma among_letters:
  "among c ''Aa'' \<longleftrightarrow> lower c = 97" "among c ''Bb'' \<longleftrightarrow> lower c = 98" "among c ''Cc'' \<longleftrightarrow> lower c = 99"
  "among c ''Dd'' \<longleftrightarrow> lower c = 100" "among c ''Ee'' \<longleftrightarrow> lower c = 101" "among c ''Ff'' \<longleftrightarrow> lower c = 102"
  "among c ''Gg'' \<longleftrightarrow> lower c = 103" "among c ''Jj'' \<longleftrightarrow> lower c = 106" "among c ''Ll'' \<longleftrightarrow> lower c = 108"
  "among c ''Mm'' \<longleftrightarrow> lower c = 109" "among c ''Nn'' \<longleftrightarrow> lower c = 110" "among c ''Oo'' \<longleftrightarrow> lower c = 111"
  "among c ''Pp'' \<longleftrightarrow> lower c = 112" "among c ''Rr'' \<longleftrightarrow> lower c = 114" "among c ''Ss'' \<longleftrightarrow> lower c = 115"
  "among c ''Tt'' \<longleftrightarrow> lower c = 116" "among c ''Uu'' \<longleftrightarrow> lower c = 117" "among c ''Vv'' \<longleftrightarrow> lower c = 118"
  "among c ''Yy'' \<longleftrightarrow> lower c = 121"
  by (auto simp: among_def wide_def lower_letter)

lemma lower_0: "lower 0 = 0" by (simp add: lower_def)

section \<open>The calendar\<close>

lemma up_to_11: "(k::nat) \<le> 11 \<Longrightarrow> k \<in> {0, 1, 2, 3, 4, 5, 6, 7, 8, 9, 10, 11}"
  by (simp only: insert_iff empty_iff) presburger

definition leap :: "int \<Rightarrow> bool" where
  "leap y \<longleftrightarrow> 4 dvd y \<and> (\<not> 100 dvd y \<or> 400 dvd y)"

definition month_length :: "int \<Rightarrow> int \<Rightarrow> int" where
  "month_length y m = (if m = 1 then (if leap y then 29 else 28) else if m \<in> {3, 5, 8, 10} then 30 else 31)"

definition next_date :: "int \<times> int \<times> int \<Rightarrow> int \<times> int \<times> int" where
  "next_date t = (case t of (y, m, d) \<Rightarrow>
     if d < month_length y m then (y, m, d + 1) else if m < 11 then (y, m + 1, 1) else (y + 1, 0, 1))"

definition valid_date :: "int \<times> int \<times> int \<Rightarrow> bool" where
  "valid_date t = (case t of (y, m, d) \<Rightarrow> 1 \<le> y \<and> 0 \<le> m \<and> m \<le> 11 \<and> 1 \<le> d \<and> d \<le> month_length y m)"

definition days_of :: "int \<times> int \<times> int \<Rightarrow> int" where
  "days_of t = (case t of (y, m, d) \<Rightarrow> compose_days y m d)"

lemma sdiv_pos: "0 \<le> (a::int) \<Longrightarrow> 0 < b \<Longrightarrow> a sdiv b = a div b"
  by (cases "a = 0") (simp_all add: signed_divide_int_def)

lemma smod_pos: "0 \<le> (a::int) \<Longrightarrow> 0 < b \<Longrightarrow> a smod b = a mod b"
  by (cases "a = 0") (simp_all add: signed_modulo_int_def signed_divide_int_def minus_div_mult_eq_mod)

lemma compose_days_eq:
  assumes "1 \<le> y"
  shows "compose_days y m d = v_month_base_days ! nat m + (if 1 < m \<and> leap y then 1 else 0) +
     ((y - 1) * 365 + (y - 1) div 4 - (y - 1) div 100 + (y - 1) div 400) + d - 1 - v_epoch_days"
  using assms by (simp add: compose_days_def Let_def sdiv_pos smod_pos leap_def dvd_eq_mod_eq_0)

lemma year_days: "y * 365 + y div 4 - y div 100 + y div 400 = 
  (y - 1) * 365 + (y - 1) div 4 - (y - 1) div 100 + (y - 1) div (400::int) + (if leap y then 366 else 365)"
proof -
  have "y div k = (y - 1) div k + (if k dvd y then 1 else 0)" if "0 < k" for k :: int
  proof (cases "k dvd y")
    case True
    then obtain q where "y = k * q" by (elim dvdE)
    moreover have "(k * q - 1) div k = q - 1"
      using that by (intro int_div_pos_eq[of _ _ _ "k - 1"]) (simp_all add: algebra_simps)
    ultimately show ?thesis using that by simp
  next
    case False
    then have "0 < y mod k" using that by (metis dvd_eq_mod_eq_0 le_less pos_mod_sign)
    then have "(y - 1) div k = y div k"
      using that pos_mod_bound[OF that, of y]
      by (intro int_div_pos_eq[of _ _ _ "y mod k - 1"]) simp_all
    then show ?thesis using False by simp
  qed
  then show ?thesis by (auto simp: leap_def)
qed

lemma month_step:
  assumes "0 \<le> m" "m \<le> 11"
  shows "v_month_base_days ! nat m + (if 1 < m \<and> leap y then 1 else 0) + month_length y m =
    (if m < 11 then v_month_base_days ! nat (m + 1) + (if 1 < m + 1 \<and> leap y then 1 else 0) else if leap y then 366 else 365)"
proof -
  obtain k where k: "m = int k" "k \<le> 11" using assms by (metis nonneg_int_cases of_nat_le_iff of_nat_numeral)
  from up_to_11[OF k(2)] show ?thesis unfolding k(1)
    by (elim insertE emptyE) (simp_all add: v_month_base_days_def month_length_def nat_add_distrib)
qed




section \<open>Seconds\<close>












section \<open>Formats\<close>











lemma scanf_space_first: "s \<noteq> [] \<Longrightarrow> \<not> w_space lc (hd s) \<Longrightarrow> scanf_space lc s = s"
  by (cases s) (simp_all add: scanf_space_def)

lemma scanf_again [simp]:
  "scanf_int lc w (scanf_space lc s) = scanf_int lc w s" "scanf_word lc w (scanf_space lc s) = scanf_word lc w s"
proof -
  have "scanf_space lc (scanf_space lc s) = scanf_space lc s"
    unfolding scanf_space_def by (metis dropWhile_idem)
  then show "scanf_int lc w (scanf_space lc s) = scanf_int lc w s" "scanf_word lc w (scanf_space lc s) = scanf_word lc w s"
    by (simp_all add: scanf_int_def scanf_word_def)
qed











lemma scanf_char_same [simp]: "scanf_char c (c # s) = Some s"
  by (simp add: scanf_char_def)












section \<open>Properties\<close>

text \<open>C30: on valid dates from the year 1 on, \<open>compose\<close> gives consecutive days consecutive numbers, across the ends of
  months and years and in leap years, and the first of January 1970 is day 0.\<close>
theorem time_next_day:
  assumes "valid_date t"
  shows "days_of (next_date t) = days_of t + 1 \<and> days_of (1970, 0, 1) = 0"
proof -
  obtain y m d where t: "t = (y, m, d)" by (cases t)
  have y: "1 \<le> y" "1 \<le> y + 1" and m: "0 \<le> m" "m \<le> 11" and d: "d \<le> month_length y m" using assms by (simp_all add: t valid_date_def)
  have epoch_day: "days_of (1970, 0, 1) = 0"
    by (simp add: days_of_def compose_days_eq v_month_base_days_def v_epoch_days_def)
  have first: "v_month_base_days ! nat 0 = 0" by (simp add: v_month_base_days_def)
  have "days_of (next_date t) = days_of t + 1"
  proof (cases "d < month_length y m")
    case True
    then show ?thesis by (simp add: t next_date_def days_of_def compose_days_eq[OF y(1)])
  next
    case False
    then have d1: "d = month_length y m" using d by simp
    show ?thesis
    proof (cases "m < 11")
      case True
      have "days_of (next_date t) = compose_days y (m + 1) 1" using False True by (simp add: t next_date_def days_of_def)
      moreover have "days_of t = compose_days y m d" by (simp add: t days_of_def)
      ultimately show ?thesis
        using month_step[OF m, of y] True d1 unfolding compose_days_eq[OF y(1)] by (simp only: if_True)
    next
      case last: False
      have "days_of (next_date t) = compose_days (y + 1) 0 1" using False last by (simp add: t next_date_def days_of_def)
      moreover have "days_of t = compose_days y m d" by (simp add: t days_of_def)
      ultimately show ?thesis
        using month_step[OF m, of y] last d1 year_days[of y] first
        unfolding compose_days_eq[OF y(1)] compose_days_eq[OF y(2)] by (simp only: add_diff_cancel_right') simp
    qed
  qed
  with epoch_day show ?thesis by blast
qed

theorem time_next_day_witness: "days_of (2000, 2, 1) = days_of (2000, 1, 29) + 1"
  using time_next_day[of "(2000, 1, 29)"] by (simp add: valid_date_def next_date_def month_length_def leap_def)


text \<open>C34: the nested switch over the letters of a month name is the look-up of the name, in any mixture of capitals and
  small letters, in the table of the names that the module prints; 0 stands for no month.\<close>
theorem time_month_names:
  assumes "0 \<notin> set a_name"
  shows "f_month_name_to_number a_name = (case map_of month_table (map lower a_name) of None \<Rightarrow> 0 | Some n \<Rightarrow> n)"
proof -
  consider "a_name = []" | a where "a_name = [a]" | a b where "a_name = [a, b]" | a b c where "a_name = [a, b, c]"
    | a b c d xs where "a_name = a # b # c # d # xs"
    by (metis neq_Nil_conv)
  then show ?thesis
  proof cases
    case 4
    then show ?thesis unfolding f_month_name_to_number_def Let_def among_letters month_table_eq c_at_def
      by simp
  next
    case 5
    then show ?thesis using assms unfolding f_month_name_to_number_def Let_def among_letters month_table_eq c_at_def
      by simp
  qed (simp_all add: f_month_name_to_number_def among_letters month_table_eq c_at_def Let_def lower_0)
qed

theorem time_month_names_witness: "f_month_name_to_number (wide ''sEP'') = 9"
  using time_month_names[of "wide ''sEP''"] by (simp add: month_table_eq wide_def lower_def)







end
