(* ===== verification/Spec2Isabelle.thy ===== *)
theory Spec2Isabelle
  imports Xm_Operators Xm_List Xm_Map Xm_Lexer Xm_Slots Xm_Emit_Correct Xm_Interp_Correct Xm_Time_Correct
begin

text \<open>
  A verification library for xemmai, a dynamic object-oriented language with an off-side syntax.  A script is
  scanned and parsed into a tree, local variables are given slots and analysed, the tree is compiled to
  byte code, and an interpreter runs it on tagged values and built-in containers.

  \<^bold>\<open>Parts and theories\<close>, in the order in which a script passes through them:

  \<^item> \<open>Xm_Prelude\<close>: 64-bit words for \<open>intptr_t\<close> and \<open>size_t\<close>, \<open>xerror\<close> and \<open>result\<close>, lemmas on arrays and
    wrap-around indices.  \<open>Thrown\<close> is an exception of the C++ program or of the language, \<open>Undefined\<close> a point
    at which C++ gives no meaning (or an assertion stops a debug build): such a point is always an outcome of
    the model, never an arbitrary value.
  \<^item> \<open>Xm_Lexer\<close> (src/src/lexer.cc, lexer.h): \<open>t_lexer\<close> is the scanner's state, \<open>f_next\<close> its step.  Keywords,
    number and string literals, indentation, termination.
  \<^item> \<open>Xm_Ast\<close>, \<open>Xm_Parser\<close> (src/include/xemmai/ast.h, src/src/parser.cc): the node classes as one datatype, the
    scopes as a list in the order of creation, the recursive-descent parser as state passing with errors as
    values.  \<open>Xm_Parser_Correct\<close>: it returns on every input and what it builds is well formed.  \<open>Xm_Slots\<close>:
    the slots that \<open>f_classify\<close> gives to variables.
  \<^item> \<open>Xm_Flow\<close> (\<open>t_block\<close>, \<open>f_flow\<close>, \<open>f_analyze\<close> of src/src/ast.cc): the control-flow graph of a function and the
    two worklist loops over it.  \<open>Xm_Flow_Correct\<close>: the loops end in the least solution, stated over paths
    of the graph; the analysis of a well scoped script succeeds.
  \<^item> \<open>Xm_Emit\<close> (\<open>t_emit\<close> and \<open>f_emit\<close> of ast.h and ast.cc, \<open>t_code\<close> of code.h): the emission of byte code, a
    definition per class of nodes in a state monad with errors.  \<open>Xm_Emit_Rules\<close>, \<open>Xm_Emit_Correct\<close>: a Hoare
    calculus for it and the theorem that the code of a well scoped script is well formed.
  \<^item> \<open>Xm_Float\<close>, \<open>Xm_Value\<close>, \<open>Xm_Operators\<close> (src/include/xemmai/value.h, src/src/code.cc, code_operator.h,
    integer.cc): binary64 numbers, tagged values and the operators in every encoding of their operands, with
    the constant folding of the compiler.
  \<^item> \<open>Xm_List\<close>, \<open>Xm_Map\<close> (src/src/list.cc, map.cc): the ring buffer and the hash table behind the built-in
    containers, each with every operation that changes it.
  \<^item> \<open>Xm_Time\<close>, \<open>Xm_Time_Correct\<close> (src/modules/time.cc): calendar arithmetic and date formats of the library.

  \<^bold>\<open>Interfaces.\<close>  \<open>deque\<close> (in \<open>Xm_List\<close>) states what a sequence with two ends promises and is interpreted on the
  ring buffer; \<open>keys\<close> (in \<open>Xm_Map\<close>) states what the table needs of the hash and the equality of keys and is
  interpreted on those of the primitive values; \<open>worklist\<close> (in \<open>Xm_Flow_Correct\<close>) states what one merge of a
  block into its neighbour does and is interpreted on \<open>f_forward\<close> and on \<open>f_backward\<close>, so that the common loop
  is treated once.

  \<^bold>\<open>What the theorems show.\<close>  Containers: each operation of the list is the operation on sequences, insertion and
  removal in the map are updates of a finite map, iteration visits every entry once, sorting permutes.
  Values: the specialised encodings and the folding compute what the generic operator computes, with the
  exceptions stated.  Scanner and parser: literals have their value, strings are read back, every run ends,
  trees are well formed, slots are distinct and in range.  Compiler: the flow analysis is exact, emission
  makes well-formed code.  Dates: successive days have successive numbers, printing and parsing are inverse.
  Theorems of kind \<open>error\<close> exhibit inputs on which the code misbehaves.

  \<^bold>\<open>Loops and fuel.\<close>  The scanner's loops consume the text and need no fuel.  The parser has fuel for the depth of
  its recursion; \<open>parser_terminates\<close> shows that a little more than the length of the text is enough.
  \<open>t_table_f_put\<close> has the capacity of the table as fuel, which is enough as long as an entry is free.  The
  worklist loops are \<open>partial_function\<close>s, and \<open>flow_solution\<close> and \<open>flow_returns\<close> show that they return.  Every
  other function is total.

  \<^bold>\<open>Parameters.\<close>  The classification of wide characters (locale), the hash and equality of keys, and the methods that
  operators call on objects are code outside the model; they are arguments of the definitions.

  \<^bold>\<open>Not modelled.\<close>  The main loop of the interpreter beyond its operators; types, fields and method look-up;
  the heap with its concurrent collector; fibers, threads and sharable objects; native signatures; streams;
  the debugger and the main program; the library modules \<open>math\<close>, \<open>os\<close> and \<open>threading\<close>.  They rest on the
  operating system, on C++ templates over native types, or on the concurrent heap.
\<close>

end
